(* ===== verification/Prelude.thy ===== *)
theory Prelude
  imports
    Complex_Main
    "HOL-Library.Word"
    "HOL-Library.Finite_Map"
    "HOL-Library.Product_Lexorder"
    "HOL-Library.List_Lexorder"
    "HOL-Library.Char_ord"
begin

text \<open>
  Shared vocabulary of the development: the Rust integer and byte types, the few
  standard-library operations the sources use on them, the socket address type with its
  derived order, clock values, and the generic lemmas that the component theories rely on.

  Conventions. A \<open>Vec<u8>\<close>, a slice and a fixed array are byte lists (a fixed array's
  length is part of a well-formedness predicate); a \<open>HashMap\<close> is a finite map, a
  \<open>HashSet\<close> or \<open>BTreeSet\<close> a finite set; a \<open>usize\<close> that counts elements is a \<open>nat\<close>;
  \<open>Result\<close> is a sum type with the error on the left.
\<close>

named_theorems codec_simps \<open>unfolding rules for encoders and decoders\<close>
named_theorems model_defs \<open>definitions a component's proofs unfold\<close>

section \<open>Machine integers and bytes\<close>

type_synonym u8 = "8 word"
type_synonym u16 = "16 word"
type_synonym u32 = "32 word"
type_synonym u64 = "64 word"
type_synonym usize = nat
type_synonym bytes = "u8 list"

text \<open>\<open>saturating_add\<close>, \<open>saturating_sub\<close> and \<open>checked_sub\<close> of the unsigned integers.\<close>

definition saturating_add :: "'a::len word \<Rightarrow> 'a word \<Rightarrow> 'a word" where
  "saturating_add a b = (if unat a + unat b < 2 ^ LENGTH('a) then a + b else - 1)"

definition saturating_sub :: "'a::len word \<Rightarrow> 'a word \<Rightarrow> 'a word" where
  "saturating_sub a b = (if b \<le> a then a - b else 0)"

definition checked_sub :: "'a::len word \<Rightarrow> 'a word \<Rightarrow> 'a word option" where
  "checked_sub a b = (if b \<le> a then Some (a - b) else None)"

lemma unat_less: "unat (w :: 'a::len word) < 2 ^ LENGTH('a)"
  by (rule unsigned_less)

lemma unat_minus_1: "unat (- 1 :: 'a::len word) = 2 ^ LENGTH('a) - 1"
  by (simp add: unsigned_minus_1_eq_mask mask_eq_exp_minus_1)

lemma unat_saturating_add:
  "unat (saturating_add a b) = min (unat a + unat b) (2 ^ LENGTH('a) - 1)"
  for a b :: "'a::len word"
proof (cases "unat a + unat b < 2 ^ LENGTH('a)")
  case True
  then have "unat (a + b) = unat a + unat b" by (rule unat_add_lem [THEN iffD1])
  with True show ?thesis by (auto simp: saturating_add_def min_def)
next
  case False
  then show ?thesis by (auto simp: saturating_add_def unat_minus_1 min_def)
qed

lemma saturating_add_ge: "a \<le> saturating_add a b"
proof -
  have "unat a \<le> 2 ^ LENGTH('a) - 1" for a :: "'a word"
    using unat_less [of a] by linarith
  then show ?thesis by (simp add: word_le_nat_alt unat_saturating_add)
qed

lemma unat_saturating_sub: "unat (saturating_sub a b) = unat a - unat b"
  by (simp add: saturating_sub_def unat_sub word_le_nat_alt)

lemma checked_sub_Some: "checked_sub a b = Some c \<longleftrightarrow> b \<le> a \<and> c = a - b"
  by (auto simp: checked_sub_def)

section \<open>Big-endian bytes\<close>

text \<open>\<open>to_be_bytes\<close> and \<open>from_be_bytes\<close> for a value of \<open>k\<close> bytes.\<close>

fun be_bytes :: "nat \<Rightarrow> nat \<Rightarrow> bytes" where
  "be_bytes 0 n = []"
| "be_bytes (Suc k) n = be_bytes k (n div 256) @ [of_nat n]"

definition from_be :: "bytes \<Rightarrow> nat" where
  "from_be bs = foldl (\<lambda>acc b. acc * 256 + unat b) 0 bs"

lemma from_be_Nil [simp]: "from_be [] = 0"
  by (simp add: from_be_def)

lemma from_be_snoc [simp]: "from_be (bs @ [b]) = from_be bs * 256 + unat b"
  by (simp add: from_be_def)

lemma length_be_bytes [simp]: "length (be_bytes k n) = k"
  by (induction k arbitrary: n) auto

lemma unat_of_nat_u8: "unat (of_nat n :: u8) = n mod 256"
  by (simp add: unat_of_nat)

lemma from_be_be_bytes: "from_be (be_bytes k n) = n mod 256 ^ k"
proof (induction k arbitrary: n)
  case 0
  then show ?case by simp
next
  case (Suc k)
  have "n mod 256 ^ Suc k = 256 * (n div 256 mod 256 ^ k) + n mod 256"
    by (simp add: mod_mult2_eq)
  with Suc show ?case by (simp add: unat_of_nat_u8)
qed

lemma from_be_less: "from_be bs < 256 ^ length bs"
proof (induction bs rule: rev_induct)
  case Nil
  then show ?case by simp
next
  case (snoc b bs)
  have "unat b < 256" using unat_less [of b] by simp
  moreover from snoc have "from_be bs + 1 \<le> 256 ^ length bs" by simp
  then have "(from_be bs + 1) * 256 \<le> 256 ^ length bs * 256" by (rule mult_right_mono) simp
  ultimately show ?case by (simp add: mult.commute)
qed

lemma be_bytes_from_be: "length bs = k \<Longrightarrow> be_bytes k (from_be bs) = bs"
proof (induction bs arbitrary: k rule: rev_induct)
  case Nil
  then show ?case by simp
next
  case (snoc b bs)
  have b: "unat b < 256" using unat_less [of b] by simp
  have "(of_nat (from_be bs * 256 + unat b) :: u8) = b"
    by (simp only: word_unat_eq_iff unat_of_nat_u8) (simp add: b)
  moreover from b have "(from_be bs * 256 + unat b) div 256 = from_be bs" by simp
  ultimately show ?case using snoc by (cases k) auto
qed

lemma be_bytes_inj:
  assumes "be_bytes k m = be_bytes k n" "m < 256 ^ k" "n < 256 ^ k"
  shows "m = n"
  using arg_cong [OF assms(1), of from_be] assms(2,3) by (simp add: from_be_be_bytes)

definition u16_be :: "u16 \<Rightarrow> bytes" where "u16_be w = be_bytes 2 (unat w)"
definition u32_be :: "u32 \<Rightarrow> bytes" where "u32_be w = be_bytes 4 (unat w)"
definition u64_be :: "u64 \<Rightarrow> bytes" where "u64_be w = be_bytes 8 (unat w)"
definition u64_from_be :: "bytes \<Rightarrow> u64" where "u64_from_be bs = of_nat (from_be bs)"

lemma length_be [simp]: "length (u16_be w) = 2" "length (u32_be v) = 4" "length (u64_be u) = 8"
  by (simp_all add: u16_be_def u32_be_def u64_be_def)

lemma u16_be_inj [simp]: "u16_be a = u16_be b \<longleftrightarrow> a = b"
  using be_bytes_inj [of 2 "unat a" "unat b"] unat_less [of a] unat_less [of b]
  by (auto simp: u16_be_def intro: unsigned_word_eqI)

lemma u32_be_inj [simp]: "u32_be a = u32_be b \<longleftrightarrow> a = b"
  using be_bytes_inj [of 4 "unat a" "unat b"] unat_less [of a] unat_less [of b]
  by (auto simp: u32_be_def intro: unsigned_word_eqI)

lemma u64_be_inj [simp]: "u64_be a = u64_be b \<longleftrightarrow> a = b"
  using be_bytes_inj [of 8 "unat a" "unat b"] unat_less [of a] unat_less [of b]
  by (auto simp: u64_be_def intro: unsigned_word_eqI)

lemma u64_from_be_be [simp]: "u64_from_be (u64_be w) = w"
  using unat_less [of w] by (simp add: u64_from_be_def u64_be_def from_be_be_bytes)

lemma u64_be_from_be: "length bs = 8 \<Longrightarrow> u64_be (u64_from_be bs) = bs"
  using from_be_less [of bs] be_bytes_from_be [of bs 8]
  by (simp add: u64_be_def u64_from_be_def unat_of_nat)

section \<open>Slices\<close>

definition strip_prefix :: "'a list \<Rightarrow> 'a list \<Rightarrow> 'a list option" where
  "strip_prefix p xs =
     (if take (length p) xs = p then Some (drop (length p) xs) else None)"

lemma strip_prefix_append [simp]: "strip_prefix p (p @ xs) = Some xs"
  by (simp add: strip_prefix_def)

lemma strip_prefix_Some: "strip_prefix p xs = Some r \<longleftrightarrow> xs = p @ r"
  by (auto simp: strip_prefix_def) (metis append_take_drop_id)

definition starts_with :: "'a list \<Rightarrow> 'a list \<Rightarrow> bool" where
  "starts_with xs p \<longleftrightarrow> take (length p) xs = p"

lemma starts_with_append [simp]: "starts_with (p @ xs) p"
  by (simp add: starts_with_def)

text \<open>A byte string literal.\<close>

definition ascii :: "string \<Rightarrow> bytes" where
  "ascii s = map (\<lambda>c. of_nat (of_char c)) s"

lemma length_ascii [simp]: "length (ascii s) = length s"
  by (simp add: ascii_def)

section \<open>IPv4 socket addresses\<close>

text \<open>
  \<open>Ipv4Addr\<close> is its 32-bit value (the octets are its big-endian bytes, so the derived order
  of the octets is the order of the value). \<open>SocketAddrV4\<close> derives \<open>Ord\<close>: the address first,
  then the port.
\<close>

type_synonym ipv4_addr = u32

datatype socket_addr_v4 = SocketAddrV4 (sa_ip: ipv4_addr) (sa_port: u16)

instantiation socket_addr_v4 :: linorder
begin

definition less_eq_socket_addr_v4 :: "socket_addr_v4 \<Rightarrow> socket_addr_v4 \<Rightarrow> bool" where
  "less_eq_socket_addr_v4 a b \<longleftrightarrow>
     sa_ip a < sa_ip b \<or> sa_ip a = sa_ip b \<and> sa_port a \<le> sa_port b"

definition less_socket_addr_v4 :: "socket_addr_v4 \<Rightarrow> socket_addr_v4 \<Rightarrow> bool" where
  "less_socket_addr_v4 a b \<longleftrightarrow>
     sa_ip a < sa_ip b \<or> sa_ip a = sa_ip b \<and> sa_port a < sa_port b"

instance
proof
  fix x y z :: socket_addr_v4
  show "(x < y) = (x \<le> y \<and> \<not> y \<le> x)"
    by (auto simp: less_eq_socket_addr_v4_def less_socket_addr_v4_def)
  show "x \<le> x" by (simp add: less_eq_socket_addr_v4_def)
  show "x \<le> y \<Longrightarrow> y \<le> z \<Longrightarrow> x \<le> z"
    by (auto simp: less_eq_socket_addr_v4_def)
  show "x \<le> y \<Longrightarrow> y \<le> x \<Longrightarrow> x = y"
    by (cases x; cases y) (auto simp: less_eq_socket_addr_v4_def)
  show "x \<le> y \<or> y \<le> x"
    by (auto simp: less_eq_socket_addr_v4_def)
qed

end

text \<open>\<open>Ipv4Addr::octets\<close>, and the address classes the sources test for.\<close>

definition ip_octets :: "ipv4_addr \<Rightarrow> bytes" where
  "ip_octets ip = u32_be ip"

definition ip_is_unspecified :: "ipv4_addr \<Rightarrow> bool" where
  "ip_is_unspecified ip \<longleftrightarrow> ip = 0"

definition ip_is_broadcast :: "ipv4_addr \<Rightarrow> bool" where
  "ip_is_broadcast ip \<longleftrightarrow> ip = - 1"

definition ip_is_multicast :: "ipv4_addr \<Rightarrow> bool" where
  "ip_is_multicast ip \<longleftrightarrow> 224 \<le> unat ip div 2 ^ 24 \<and> unat ip div 2 ^ 24 \<le> 239"

lemma length_ip_octets [simp]: "length (ip_octets ip) = 4"
  by (simp add: ip_octets_def)

lemma ip_octets_from_be: "length bs = 4 \<Longrightarrow> ip_octets (of_nat (from_be bs)) = bs"
  using from_be_less [of bs] be_bytes_from_be [of bs 4]
  by (simp add: ip_octets_def u32_be_def unat_of_nat)

lemma from_be_ip_octets: "of_nat (from_be (ip_octets ip)) = ip"
  using unat_less [of ip] by (simp add: ip_octets_def u32_be_def from_be_be_bytes)

section \<open>Clocks\<close>

text \<open>
  A monotonic \<open>Instant\<close> and a \<open>Duration\<close> are counted in nanoseconds. \<open>Duration\<close>
  subtraction of instants saturates at zero, which truncated \<open>nat\<close> subtraction is.
\<close>

type_synonym instant = nat
type_synonym duration = nat

definition secs :: "nat \<Rightarrow> duration" where "secs n = n * 1000000000"
definition millis :: "nat \<Rightarrow> duration" where "millis n = n * 1000000"

lemma secs_mono [simp]: "secs a \<le> secs b \<longleftrightarrow> a \<le> b" "secs a < secs b \<longleftrightarrow> a < b"
  by (simp_all add: secs_def)

section \<open>Finite maps and sets\<close>

text \<open>\<open>HashMap::len\<close>, and the first element of a \<open>BTreeSet\<close>.\<close>

definition fmlen :: "('k, 'v) fmap \<Rightarrow> nat" where
  "fmlen m = fcard (fmdom m)"

definition fset_first :: "'a::linorder fset \<Rightarrow> 'a option" where
  "fset_first S = (if S = {||} then None else Some (fMin S))"

lemma fset_first_None [simp]: "fset_first S = None \<longleftrightarrow> S = {||}"
  by (simp add: fset_first_def)

lemma fset_first_empty [simp]: "fset_first {||} = None"
  by simp

lemma fset_first_SomeD: "fset_first S = Some x \<Longrightarrow> x |\<in>| S \<and> (\<forall>y. y |\<in>| S \<longrightarrow> x \<le> y)"
  by (auto simp: fset_first_def intro: fMin_in fMin_le split: if_splits)

lemma fmlen_empty [simp]: "fmlen fmempty = 0"
  by (simp add: fmlen_def)

lemma fmlen_upd:
  "fmlen (fmupd k v m) = (if fmlookup m k = None then Suc (fmlen m) else fmlen m)"
  by (auto simp: fmlen_def fcard_finsert_if fmdom_notI fmdomI)

lemma fmlen_drop:
  "fmlen (fmdrop k m) = (if fmlookup m k = None then fmlen m else fmlen m - 1)"
  by (auto simp: fmlen_def fcard_fminus_fsingleton_if fmdom_notI fmdomI)

lemma fcard_pos: "x |\<in>| S \<Longrightarrow> 0 < fcard S"
  by (metis fcard_0_eq fempty_iff gr0I)

lemma fmdrop_absent: "fmlookup m k = None \<Longrightarrow> fmdrop k m = m"
  by (rule fmap_ext) auto

lemma fmdom_empty_iff: "fmdom m = {||} \<longleftrightarrow> m = fmempty"
proof
  assume "fmdom m = {||}"
  then have "fmlookup m k = None" for k by (metis fempty_iff fmdom_notD)
  then show "m = fmempty" by (intro fmap_ext) simp
qed simp

lemma fset_eq_empty_iff: "fset S = {} \<longleftrightarrow> S = {||}"
  by (metis bot_fset.rep_eq fset_inject)

lemma sorted_list_of_fset_props [simp]:
  "sorted (sorted_list_of_fset S)" "distinct (sorted_list_of_fset S)"
  "set (sorted_list_of_fset S) = fset S"
  by (simp_all add: sorted_list_of_fset.rep_eq)

section \<open>Runs\<close>

text \<open>A list of states, each a step from the one before.\<close>

lemma path_reaches: "successively r (x # xs) \<Longrightarrow> r\<^sup>*\<^sup>* x (last (x # xs))"
proof (induction xs arbitrary: x)
  case (Cons y ys)
  then have "r x y" "r\<^sup>*\<^sup>* y (last (y # ys))" by simp_all
  then show ?case by (simp add: converse_rtranclp_into_rtranclp)
qed simp

end
