(* ===== verification/Wire.thy ===== *)
theory Wire
  imports Prelude
begin

text \<open>
  The wire protocol of the address index, \<open>udp-addr-index-proto/src/lib.rs\<close>: the datagram
  discriminator and size limits, the request and response enums, and \<open>Proto::encode\<close> and
  \<open>Proto::decode\<close>. The postcard serializer is not part of the repository; it enters as two
  functions, \<open>ser\<close> (the bytes of a value) and \<open>de\<close> (\<open>postcard::from_bytes\<close>), and the locales
  state what the protocol relies on. \<open>Postcard_Format\<close> discharges them for the
  published wire format.
\<close>

section \<open>Constants\<close>

definition MAGIC :: bytes where
  "MAGIC = [0, 97, 100, 100, 114, 105, 100, 120]"

definition RENDEZVOUS_INFOHASH :: bytes where
  "RENDEZVOUS_INFOHASH =
     [184, 108, 61, 145, 14, 26, 103, 236, 155, 168, 166, 154, 149, 189, 127, 139, 8, 190, 146, 59]"

definition MAX_DGRAM :: usize where "MAX_DGRAM = 1200"
definition MAX_VALUE_LEN :: usize where "MAX_VALUE_LEN = 1024"

type_synonym transaction_id = u64
type_synonym token = bytes

lemma length_MAGIC [simp]: "length MAGIC = 8"
  by (simp add: MAGIC_def)

section \<open>Messages\<close>

datatype request_v1 =
    Prepare (rq_tx: transaction_id) (rq_padding: bytes)
  | Put (rq_tx: transaction_id) (rq_token: token) (rq_value: bytes)
  | Get (rq_tx: transaction_id) (rq_addr: socket_addr_v4)

datatype request = ReqV1 request_v1

datatype response_v1 =
    Prepared (rs_tx: transaction_id) (rs_addr: socket_addr_v4) (rs_token: token)
  | Stored (rs_tx: transaction_id) (rs_addr: socket_addr_v4)
  | Value (rs_tx: transaction_id) (rs_addr: socket_addr_v4) (rs_value: "bytes option")

datatype response = RespV1 response_v1

datatype proto = Request request | Response response

text \<open>
  The array types fix the lengths of the padding and of a token; a vector's length is a
  64-bit \<open>usize\<close>.
\<close>

fun proto_valid :: "proto \<Rightarrow> bool" where
  "proto_valid (Request (ReqV1 (Prepare tx padding))) \<longleftrightarrow> length padding = 24"
| "proto_valid (Request (ReqV1 (Put tx token value))) \<longleftrightarrow>
     length token = 16 \<and> length value < 2 ^ 64"
| "proto_valid (Request (ReqV1 (Get tx addr))) \<longleftrightarrow> True"
| "proto_valid (Response (RespV1 (Prepared tx addr token))) \<longleftrightarrow> length token = 16"
| "proto_valid (Response (RespV1 (Stored tx addr))) \<longleftrightarrow> True"
| "proto_valid (Response (RespV1 (Value tx addr value))) \<longleftrightarrow>
     (case value of None \<Rightarrow> True | Some v \<Rightarrow> length v < 2 ^ 64)"

text \<open>Messages whose opaque value respects \<^const>\<open>MAX_VALUE_LEN\<close>.\<close>

fun value_bounded :: "proto \<Rightarrow> bool" where
  "value_bounded (Request (ReqV1 (Put tx token value))) \<longleftrightarrow> length value \<le> MAX_VALUE_LEN"
| "value_bounded (Response (RespV1 (Value tx addr (Some value)))) \<longleftrightarrow>
     length value \<le> MAX_VALUE_LEN"
| "value_bounded _ \<longleftrightarrow> True"

fun is_padded :: "proto \<Rightarrow> bool" where
  "is_padded (Request (ReqV1 (Get tx addr))) \<longleftrightarrow> True"
| "is_padded _ \<longleftrightarrow> False"

section \<open>Framing\<close>

datatype encode_error = SerializeBufferFull

text \<open>\<open>postcard::to_slice\<close> writes the encoding into a buffer of \<open>n\<close> bytes.\<close>

definition to_slice :: "('a \<Rightarrow> bytes) \<Rightarrow> nat \<Rightarrow> 'a \<Rightarrow> encode_error + bytes" where
  "to_slice ser n v = (if length (ser v) \<le> n then Inr (ser v) else Inl SerializeBufferFull)"

definition proto_encode :: "(proto \<Rightarrow> bytes) \<Rightarrow> proto \<Rightarrow> encode_error + bytes" where
  "proto_encode ser p =
     (case to_slice ser (MAX_DGRAM - length MAGIC) p of
        Inl e \<Rightarrow> Inl e
      | Inr body \<Rightarrow>
          (let framed = MAGIC @ body in
           if is_padded p then Inr (framed @ replicate (MAX_DGRAM - length framed) 0)
           else Inr framed))"

definition proto_decode :: "(bytes \<Rightarrow> proto option) \<Rightarrow> bytes \<Rightarrow> proto option" where
  "proto_decode de data =
     (if length data > MAX_DGRAM then None
      else case strip_prefix MAGIC data of
        None \<Rightarrow> None
      | Some body \<Rightarrow>
          (case de body of
             None \<Rightarrow> None
           | Some value \<Rightarrow>
               (if \<not> is_padded value \<or> length data = MAX_DGRAM then Some value else None)))"

section \<open>What the protocol relies on\<close>

text \<open>
  A postcard codec. \<open>from_bytes\<close> reads a value off the front of its input and ignores what
  follows it, fails with an unexpected end on a truncated encoding, only produces values of
  the type (fixed arrays have their length), and the serializer's encoding is the shortest
  one the deserializer accepts.
\<close>

locale postcard =
  fixes ser :: "'a \<Rightarrow> bytes"
    and de :: "bytes \<Rightarrow> 'a option"
    and valid :: "'a \<Rightarrow> bool"
  assumes de_ser: "valid v \<Longrightarrow> de (ser v @ rest) = Some v"
    and de_truncated: "valid v \<Longrightarrow> k < length (ser v) \<Longrightarrow> de (take k (ser v)) = None"
    and de_valid: "de bs = Some v \<Longrightarrow> valid v"
    and de_length: "de bs = Some v \<Longrightarrow> length (ser v) \<le> length bs"
begin

lemma de_ser_exact: "valid v \<Longrightarrow> de (ser v) = Some v"
  using de_ser [of v "[]"] by simp

lemma ser_inj: "valid v \<Longrightarrow> valid w \<Longrightarrow> ser v = ser w \<Longrightarrow> v = w"
  using de_ser_exact by (metis option.inject)

lemma de_truncated_padded:
  assumes "valid v" "k < length (ser v)"
  shows "de (take k (ser v @ pad)) = None"
  using de_truncated [OF assms] assms(2) by simp

end

text \<open>
  The sizes of the six messages: one byte for each of the three enum tags, a variable-length
  integer of \<open>vlen\<close> bytes for a transaction id, a port and a length, raw bytes for an
  IPv4 address, an array and the contents of a vector, and one byte for an option's tag.
\<close>

locale proto_wire = postcard ser de proto_valid
  for ser :: "proto \<Rightarrow> bytes" and de :: "bytes \<Rightarrow> proto option" +
  fixes vlen :: "nat \<Rightarrow> nat"
  assumes vlen_u64: "n < 2 ^ 64 \<Longrightarrow> vlen n \<le> 10"
    and vlen_u16: "n < 2 ^ 16 \<Longrightarrow> vlen n \<le> 3"
    and size_prepare:
      "length (ser (Request (ReqV1 (Prepare tx padding)))) = 3 + vlen (unat tx) + length padding"
    and size_put:
      "length (ser (Request (ReqV1 (Put tx token value)))) =
         3 + vlen (unat tx) + length token + (vlen (length value) + length value)"
    and size_get:
      "length (ser (Request (ReqV1 (Get tx addr)))) =
         3 + vlen (unat tx) + (4 + vlen (unat (sa_port addr)))"
    and size_prepared:
      "length (ser (Response (RespV1 (Prepared tx addr token)))) =
         3 + vlen (unat tx) + (4 + vlen (unat (sa_port addr))) + length token"
    and size_stored:
      "length (ser (Response (RespV1 (Stored tx addr)))) =
         3 + vlen (unat tx) + (4 + vlen (unat (sa_port addr)))"
    and size_value:
      "length (ser (Response (RespV1 (Value tx addr v)))) =
         3 + vlen (unat tx) + (4 + vlen (unat (sa_port addr))) +
         (case v of None \<Rightarrow> 1 | Some bs \<Rightarrow> 1 + (vlen (length bs) + length bs))"
begin

lemmas wire_sizes = size_prepare size_put size_get size_prepared size_stored size_value

lemma vlen_tx: "vlen (unat (tx :: u64)) \<le> 10"
  using unat_less [of tx] by (intro vlen_u64) simp

lemma vlen_port: "vlen (unat (p :: u16)) \<le> 3"
  using unat_less [of p] by (intro vlen_u16) simp

lemma vlen_value: "length v \<le> MAX_VALUE_LEN \<Longrightarrow> vlen (length v) \<le> 3"
  by (intro vlen_u16) (simp add: MAX_VALUE_LEN_def)

lemma ser_bounded:
  assumes "proto_valid p" "value_bounded p"
  shows "length (ser p) \<le> 1056"
proof -
  note tx = vlen_tx
  have port: "vlen (unat (sa_port a)) \<le> 3" for a by (rule vlen_port)
  show ?thesis
  proof (cases p rule: proto_valid.cases)
    case (1 tx padding)
    with assms tx [of tx] show ?thesis by (simp add: wire_sizes)
  next
    case (2 tx token bs)
    with assms vlen_value [of bs] tx [of tx] show ?thesis
      by (simp add: wire_sizes MAX_VALUE_LEN_def)
  next
    case (3 tx addr)
    with tx [of tx] port [of addr] show ?thesis by (simp add: wire_sizes)
  next
    case (4 tx addr token)
    with assms tx [of tx] port [of addr] show ?thesis by (simp add: wire_sizes)
  next
    case (5 tx addr)
    with tx [of tx] port [of addr] show ?thesis by (simp add: wire_sizes)
  next
    case (6 tx addr v)
    show ?thesis
    proof (cases v)
      case None
      with 6 tx [of tx] port [of addr] show ?thesis by (simp add: wire_sizes)
    next
      case (Some bs)
      with 6 assms vlen_value [of bs] tx [of tx] port [of addr] show ?thesis
        by (simp add: wire_sizes MAX_VALUE_LEN_def)
    qed
  qed
qed

end

section \<open>Framing lemmas\<close>

lemma proto_encode_Inr:
  "proto_encode ser p = Inr d \<longleftrightarrow>
     length (ser p) \<le> MAX_DGRAM - length MAGIC \<and>
     d = MAGIC @ ser p @ (if is_padded p then replicate (MAX_DGRAM - (8 + length (ser p))) 0 else [])"
  by (auto simp: proto_encode_def to_slice_def Let_def split: sum.splits)

lemma proto_decode_Some:
  "proto_decode de data = Some p \<longleftrightarrow>
     length data \<le> MAX_DGRAM \<and>
     (\<exists>body. data = MAGIC @ body \<and> de body = Some p) \<and>
     (is_padded p \<longrightarrow> length data = MAX_DGRAM)"
  by (auto simp: proto_decode_def strip_prefix_Some split: option.splits if_splits)

lemma proto_encode_length:
  assumes "proto_encode ser p = Inr d"
  shows "length d \<le> MAX_DGRAM" and "is_padded p \<Longrightarrow> length d = MAX_DGRAM"
    and "\<not> is_padded p \<Longrightarrow> length d = 8 + length (ser p)"
  using assms by (auto simp: proto_encode_Inr MAX_DGRAM_def)

lemma proto_encode_starts_with_magic: "proto_encode ser p = Inr d \<Longrightarrow> starts_with d MAGIC"
  by (auto simp: proto_encode_Inr)

end
