(* ===== verification/Server_Limits.thy ===== *)
theory Server_Limits
  imports Wire
begin

text \<open>
  The \<open>Limits\<close> of an address index server (\<open>udp-addr-index/src/lib.rs\<close>) and the
  floating-point values two of its fields hold. An \<open>f64\<close> is not-a-number or a finite value;
  the infinities do not occur with finite limits, because every refill is cut at the burst.
  Rounding is a function on the rationals: the arithmetic of \<open>f64\<close> is the exact operation
  followed by rounding to a representable value (IEEE 754), which the operations below
  take as the parameter \<open>rnd\<close>.
\<close>

section \<open>Floating point\<close>

datatype f64 = NaN | Fin rat

fun is_nan :: "f64 \<Rightarrow> bool" where
  "is_nan NaN = True"
| "is_nan (Fin x) = False"

fun f64_add :: "(rat \<Rightarrow> rat) \<Rightarrow> f64 \<Rightarrow> f64 \<Rightarrow> f64" where
  "f64_add rnd (Fin x) (Fin y) = Fin (rnd (x + y))"
| "f64_add rnd _ _ = NaN"

fun f64_sub :: "(rat \<Rightarrow> rat) \<Rightarrow> f64 \<Rightarrow> f64 \<Rightarrow> f64" where
  "f64_sub rnd (Fin x) (Fin y) = Fin (rnd (x - y))"
| "f64_sub rnd _ _ = NaN"

fun f64_mul :: "(rat \<Rightarrow> rat) \<Rightarrow> f64 \<Rightarrow> f64 \<Rightarrow> f64" where
  "f64_mul rnd (Fin x) (Fin y) = Fin (rnd (x * y))"
| "f64_mul rnd _ _ = NaN"

text \<open>\<open>f64::min\<close> returns the other operand when one is not a number.\<close>

fun f64_min :: "f64 \<Rightarrow> f64 \<Rightarrow> f64" where
  "f64_min NaN y = y"
| "f64_min x NaN = x"
| "f64_min (Fin x) (Fin y) = Fin (min x y)"

text \<open>Every comparison with not-a-number is false.\<close>

fun f64_less :: "f64 \<Rightarrow> f64 \<Rightarrow> bool" where
  "f64_less (Fin x) (Fin y) \<longleftrightarrow> x < y"
| "f64_less _ _ \<longleftrightarrow> False"

text \<open>\<open>Duration::as_secs_f64\<close>: whole seconds plus the nanoseconds divided by a billion.\<close>

definition as_secs_f64 :: "(rat \<Rightarrow> rat) \<Rightarrow> duration \<Rightarrow> f64" where
  "as_secs_f64 rnd d =
     Fin (rnd (rnd (of_nat (d div 1000000000)) + rnd (of_nat (d mod 1000000000) / 1000000000)))"

text \<open>
  What IEEE 754 rounding guarantees: it is monotone, leaves representable values alone, and
  the integers up to \<open>2 ^ 53\<close> are representable.
\<close>

locale f64_rounding =
  fixes rnd :: "rat \<Rightarrow> rat"
  assumes rnd_mono: "x \<le> y \<Longrightarrow> rnd x \<le> rnd y"
    and rnd_idem: "rnd (rnd x) = rnd x"
    and rnd_nat: "n \<le> 2 ^ 53 \<Longrightarrow> rnd (of_nat n) = of_nat n"
begin

lemma rnd_0: "rnd 0 = 0"
  using rnd_nat [of 0] by simp

lemma rnd_1: "rnd 1 = 1"
  using rnd_nat [of 1] by simp

lemma rnd_nonneg: "0 \<le> x \<Longrightarrow> 0 \<le> rnd x"
  using rnd_mono [of 0 x] rnd_0 by simp

lemma as_secs_0: "as_secs_f64 rnd 0 = Fin 0"
  by (simp add: as_secs_f64_def rnd_0)

end

section \<open>Limits\<close>

record limits =
  max_value_len :: usize
  max_entries :: usize
  max_entries_per_ip :: usize
  value_ttl_secs :: u64
  token_bucket_secs :: u64
  requests_per_ip_per_sec :: f64
  request_burst :: f64

definition limits_default :: limits where
  "limits_default =
     \<lparr>max_value_len = MAX_VALUE_LEN, max_entries = 2000000, max_entries_per_ip = 16,
      value_ttl_secs = 60 * 60, token_bucket_secs = 30,
      requests_per_ip_per_sec = Fin 50, request_burst = Fin 100\<rparr>"

definition limits_for_tests :: limits where
  "limits_for_tests = limits_default
     \<lparr>value_ttl_secs := 24 * 60 * 60, requests_per_ip_per_sec := Fin 1000,
      request_burst := Fin 1000\<rparr>"

end
