(* ===== verification/Store.thy ===== *)
theory Store
  imports Server_Limits
begin

text \<open>
  The in-memory store of the address index, \<open>udp-addr-index/src/store.rs\<close>: entries by
  address, an expiry queue ordered by time, and a count of entries per IPv4 address. The
  methods follow the source statement by statement; \<open>gc\<close> is its loop, a recursion whose
  measure is the size of the queue.
\<close>

section \<open>Model\<close>

datatype put_error = TooLarge | Full

record entry =
  entry_value :: bytes
  expires_at :: u64

record store =
  entries :: "(socket_addr_v4, entry) fmap"
  expirations :: "(u64 \<times> socket_addr_v4) fset"
  per_ip :: "(ipv4_addr, usize) fmap"

definition store_new :: store where
  "store_new = \<lparr>entries = fmempty, expirations = {||}, per_ip = fmempty\<rparr>"

definition store_len :: "store \<Rightarrow> usize" where
  "store_len s = fmlen (entries s)"

definition store_is_empty :: "store \<Rightarrow> bool" where
  "store_is_empty s \<longleftrightarrow> fmlen (entries s) = 0"

definition remove_entry :: "socket_addr_v4 \<Rightarrow> store \<Rightarrow> store" where
  "remove_entry addr s =
     (case fmlookup (entries s) addr of
        None \<Rightarrow> s
      | Some _ \<Rightarrow>
          (let s = s\<lparr>entries := fmdrop addr (entries s)\<rparr> in
           case fmlookup (per_ip s) (sa_ip addr) of
             None \<Rightarrow> s
           | Some count \<Rightarrow>
               (let count = count - 1 in
                s\<lparr>per_ip := (if count = 0 then fmdrop (sa_ip addr) (per_ip s)
                             else fmupd (sa_ip addr) count (per_ip s))\<rparr>)))"

text \<open>\<open>per_ip.get(ip).copied().unwrap_or(0)\<close>, also \<open>entry(ip).or_default()\<close>.\<close>

definition ip_count :: "store \<Rightarrow> ipv4_addr \<Rightarrow> usize" where
  "ip_count s ip = (case fmlookup (per_ip s) ip of None \<Rightarrow> 0 | Some n \<Rightarrow> n)"

function gc :: "u64 \<Rightarrow> store \<Rightarrow> store" where
  "gc now s =
     (case fset_first (expirations s) of
        None \<Rightarrow> s
      | Some (t, addr) \<Rightarrow>
          if t > now then s
          else gc now (remove_entry addr (s\<lparr>expirations := expirations s |-| {|(t, addr)|}\<rparr>)))"
  by pat_completeness auto

lemma remove_entry_expirations [simp]: "expirations (remove_entry addr s) = expirations s"
  by (simp add: remove_entry_def Let_def split: option.split)

termination gc
  by (relation "measure (\<lambda>(now, s). fcard (expirations s))")
    (auto dest!: fset_first_SomeD simp: fcard_fminus_fsingleton_if fcard_pos)

declare gc.simps [simp del]

text \<open>\<open>put\<close> after its checks: insert the entry, replace its place in the queue, count it.\<close>

definition insert_entry :: "socket_addr_v4 \<Rightarrow> bytes \<Rightarrow> u64 \<Rightarrow> limits \<Rightarrow> store \<Rightarrow> store" where
  "insert_entry addr value now l s =
     (let t = saturating_add now (value_ttl_secs l);
          previous = fmlookup (entries s) addr;
          s = s\<lparr>entries := fmupd addr \<lparr>entry_value = value, expires_at = t\<rparr> (entries s)\<rparr>;
          s = (case previous of
                 Some e \<Rightarrow> s\<lparr>expirations := expirations s |-| {|(expires_at e, addr)|}\<rparr>
               | None \<Rightarrow> s\<lparr>per_ip := fmupd (sa_ip addr) (ip_count s (sa_ip addr) + 1) (per_ip s)\<rparr>)
      in s\<lparr>expirations := finsert (t, addr) (expirations s)\<rparr>)"

definition put :: "socket_addr_v4 \<Rightarrow> bytes \<Rightarrow> u64 \<Rightarrow> limits \<Rightarrow> store \<Rightarrow> (put_error + unit) \<times> store" where
  "put addr value now l s =
     (let s = gc now s in
      if length value > max_value_len l \<or> length value > MAX_VALUE_LEN then (Inl TooLarge, s)
      else if fmlookup (entries s) addr = None then
        if ip_count s (sa_ip addr) \<ge> max_entries_per_ip l then (Inl Full, s)
        else if fmlen (entries s) \<ge> max_entries l then
          (case fset_first (expirations s) of
             None \<Rightarrow> (Inl Full, s)
           | Some (t, oldest) \<Rightarrow>
               (let s = s\<lparr>expirations := expirations s |-| {|(t, oldest)|}\<rparr>;
                    s = remove_entry oldest s
                in (Inr (), insert_entry addr value now l s)))
        else (Inr (), insert_entry addr value now l s)
      else (Inr (), insert_entry addr value now l s))"

definition store_get :: "socket_addr_v4 \<Rightarrow> u64 \<Rightarrow> store \<Rightarrow> bytes option \<times> store" where
  "store_get addr now s =
     (let s = gc now s in (map_option entry_value (fmlookup (entries s) addr), s))"

section \<open>Invariant\<close>

text \<open>
  The queue holds exactly the expiry times of the entries, and the counts are exactly the
  numbers of entries per address, with no zero count kept. So \<open>*count -= 1\<close> never
  underflows and the queue never points at a missing entry.
\<close>

definition ip_addrs :: "store \<Rightarrow> ipv4_addr \<Rightarrow> socket_addr_v4 fset" where
  "ip_addrs s ip = ffilter (\<lambda>a. sa_ip a = ip) (fmdom (entries s))"

definition queue_ok :: "store \<Rightarrow> bool" where
  "queue_ok s \<longleftrightarrow> (\<forall>t a. (t, a) |\<in>| expirations s \<longleftrightarrow>
     (\<exists>e. fmlookup (entries s) a = Some e \<and> expires_at e = t))"

definition counts_ok :: "store \<Rightarrow> bool" where
  "counts_ok s \<longleftrightarrow> (\<forall>ip. fmlookup (per_ip s) ip =
     (if ip_addrs s ip = {||} then None else Some (fcard (ip_addrs s ip))))"

definition store_inv :: "store \<Rightarrow> bool" where
  "store_inv s \<longleftrightarrow> queue_ok s \<and> counts_ok s"

text \<open>The limits a store has been filled under.\<close>

definition store_bounded :: "limits \<Rightarrow> store \<Rightarrow> bool" where
  "store_bounded l s \<longleftrightarrow>
     store_len s \<le> max_entries l \<and>
     (\<forall>ip. ip_count s ip \<le> max_entries_per_ip l) \<and>
     (\<forall>a e. fmlookup (entries s) a = Some e \<longrightarrow>
        length (entry_value e) \<le> max_value_len l \<and> length (entry_value e) \<le> MAX_VALUE_LEN)"

lemma store_inv_new [simp]: "store_inv store_new"
  by (auto simp: store_inv_def queue_ok_def counts_ok_def store_new_def ip_addrs_def)

lemma store_bounded_new [simp]: "store_bounded l store_new"
  by (simp add: store_bounded_def store_new_def ip_count_def store_len_def)

lemma ip_count_eq: "store_inv s \<Longrightarrow> ip_count s ip = fcard (ip_addrs s ip)"
  by (auto simp: store_inv_def counts_ok_def ip_count_def)

lemma queue_iff:
  "store_inv s \<Longrightarrow> (t, a) |\<in>| expirations s \<longleftrightarrow>
     (\<exists>e. fmlookup (entries s) a = Some e \<and> expires_at e = t)"
  by (simp add: store_inv_def queue_ok_def)

lemma queue_empty: "store_inv s \<Longrightarrow> expirations s = {||} \<longleftrightarrow> entries s = fmempty"
  by (auto simp: store_inv_def queue_ok_def fmlookup_inject [symmetric] fun_eq_iff)
    (metis fempty_iff option.exhaust)

section \<open>Evicting the head of the queue\<close>

abbreviation evict :: "u64 \<Rightarrow> socket_addr_v4 \<Rightarrow> store \<Rightarrow> store" where
  "evict t a s \<equiv> remove_entry a (s\<lparr>expirations := expirations s |-| {|(t, a)|}\<rparr>)"

lemma remove_entry_entries [simp]: "entries (remove_entry a s) = fmdrop a (entries s)"
  by (auto simp: remove_entry_def Let_def fmdrop_absent split: option.split)

lemma ip_addrs_remove:
  "ip_addrs (remove_entry a s) ip = ip_addrs s ip |-| {|a|}"
  by (auto simp: ip_addrs_def)

lemma counts_remove_entry:
  assumes "counts_ok s"
  shows "counts_ok (remove_entry a s)"
proof (cases "fmlookup (entries s) a")
  case None
  with assms show ?thesis by (simp add: remove_entry_def)
next
  case (Some e)
  then have a: "a |\<in>| ip_addrs s (sa_ip a)" by (auto simp: ip_addrs_def fmdomI)
  then have count: "fmlookup (per_ip s) (sa_ip a) = Some (fcard (ip_addrs s (sa_ip a)))"
    using assms by (auto simp: counts_ok_def)
  have per_ip: "per_ip (remove_entry a s) =
      (if fcard (ip_addrs s (sa_ip a)) - 1 = 0 then fmdrop (sa_ip a) (per_ip s)
       else fmupd (sa_ip a) (fcard (ip_addrs s (sa_ip a)) - 1) (per_ip s))"
    using Some count by (simp add: remove_entry_def Let_def)
  have card: "fcard (ip_addrs s (sa_ip a) |-| {|a|}) = fcard (ip_addrs s (sa_ip a)) - 1"
    using a by (simp add: fcard_fminus_fsingleton)
  have other: "ip_addrs s ip |-| {|a|} = ip_addrs s ip" if "ip \<noteq> sa_ip a" for ip
    using that by (auto simp: ip_addrs_def)
  show ?thesis unfolding counts_ok_def ip_addrs_remove
  proof
    fix ip
    show "fmlookup (per_ip (remove_entry a s)) ip =
      (if ip_addrs s ip |-| {|a|} = {||} then None else Some (fcard (ip_addrs s ip |-| {|a|})))"
    proof (cases "ip = sa_ip a")
      case True
      then show ?thesis using per_ip card fcard_0_eq [of "ip_addrs s ip |-| {|a|}"] by auto
    next
      case False
      then show ?thesis using per_ip other assms by (simp add: counts_ok_def)
    qed
  qed
qed

lemma store_inv_evict:
  assumes "store_inv s" "(t, a) |\<in>| expirations s"
  shows "store_inv (evict t a s)"
proof -
  have "counts_ok (s\<lparr>expirations := expirations s |-| {|(t, a)|}\<rparr>)"
    using assms(1) by (simp add: store_inv_def counts_ok_def ip_addrs_def)
  moreover have "queue_ok (evict t a s)"
    using assms by (auto simp: store_inv_def queue_ok_def)
  ultimately show ?thesis by (simp add: store_inv_def counts_remove_entry)
qed

section \<open>Garbage collection\<close>

lemma gc_inv: "store_inv s \<Longrightarrow> store_inv (gc now s)"
proof (induction now s rule: gc.induct)
  case (1 now s)
  show ?case
  proof (cases "fset_first (expirations s)")
    case None
    with 1 show ?thesis by (simp add: gc.simps)
  next
    case (Some p)
    obtain t a where p: "p = (t, a)" by (cases p)
    with Some fset_first_SomeD have "(t, a) |\<in>| expirations s" by blast
    with 1 Some p show ?thesis
      by (subst gc.simps) (auto simp: store_inv_evict)
  qed
qed

text \<open>Collection removes exactly the entries whose time has come.\<close>

lemma gc_lookup:
  "store_inv s \<Longrightarrow> fmlookup (entries (gc now s)) a =
     (case fmlookup (entries s) a of
        None \<Rightarrow> None | Some e \<Rightarrow> if expires_at e > now then Some e else None)"
proof (induction now s rule: gc.induct)
  case (1 now s)
  show ?case
  proof (cases "fset_first (expirations s)")
    case None
    then have "entries s = fmempty" using queue_empty "1.prems" by simp
    with None show ?thesis by (simp add: gc.simps)
  next
    case (Some p)
    obtain t b where p: "p = (t, b)" by (cases p)
    from Some p have first: "(t, b) |\<in>| expirations s" and
        least: "\<And>q. q |\<in>| expirations s \<Longrightarrow> (t, b) \<le> q"
      using fset_first_SomeD by blast+
    show ?thesis
    proof (cases "t > now")
      case True
      have "expires_at e > now" if "fmlookup (entries s) a = Some e" for e
        using that least [of "(expires_at e, a)"] queue_iff [OF "1.prems"] True by force
      with Some p True show ?thesis by (auto simp: gc.simps split: option.split)
    next
      case False
      obtain e where "fmlookup (entries s) b = Some e" "expires_at e = t"
        using first queue_iff [OF "1.prems"] by blast
      moreover have "gc now s = gc now (evict t b s)"
        using Some p False by (subst gc.simps) simp
      ultimately show ?thesis
        using "1.IH" [OF Some p [symmetric]] False store_inv_evict [OF "1.prems" first]
        by (auto split: option.split)
    qed
  qed
qed

lemma gc_dom: "store_inv s \<Longrightarrow> fmdom (entries (gc now s)) |\<subseteq>| fmdom (entries s)"
  by (auto simp: fmlookup_dom_iff gc_lookup split: option.splits if_splits)

lemma fmlen_mono: "fmdom m |\<subseteq>| fmdom n \<Longrightarrow> fmlen m \<le> fmlen n"
  by (simp add: fmlen_def fcard_mono)

lemma ip_count_mono:
  "store_inv s \<Longrightarrow> store_inv s' \<Longrightarrow> fmdom (entries s') |\<subseteq>| fmdom (entries s) \<Longrightarrow>
     ip_count s' ip \<le> ip_count s ip"
  by (auto simp: ip_count_eq ip_addrs_def intro!: fcard_mono)

lemma bounded_sub:
  assumes "store_inv s" "store_inv s'" "store_bounded l s"
    and sub: "\<And>a e. fmlookup (entries s') a = Some e \<Longrightarrow> fmlookup (entries s) a = Some e"
  shows "store_bounded l s'"
proof -
  have dom: "fmdom (entries s') |\<subseteq>| fmdom (entries s)"
    using sub by (auto simp: fmlookup_dom_iff)
  show ?thesis
    using assms(3) fmlen_mono [OF dom] ip_count_mono [OF assms(1,2) dom] sub
    unfolding store_bounded_def store_len_def by (meson order_trans)
qed

lemma gc_bounded: "store_inv s \<Longrightarrow> store_bounded l s \<Longrightarrow> store_bounded l (gc now s)"
  by (rule bounded_sub) (auto simp: gc_inv gc_lookup split: option.splits if_splits)

lemma gc_gc: "store_inv s \<Longrightarrow> now \<le> later \<Longrightarrow> entries (gc later (gc now s)) = entries (gc later s)"
  by (rule fmap_ext) (auto simp: gc_inv gc_lookup split: option.splits)

section \<open>Insertion\<close>

lemma insert_entry_entries [simp]:
  "entries (insert_entry addr v now l s) =
     fmupd addr \<lparr>entry_value = v, expires_at = saturating_add now (value_ttl_secs l)\<rparr> (entries s)"
  by (simp add: insert_entry_def Let_def split: option.split)

lemma ip_addrs_insert:
  "ip_addrs (insert_entry addr v now l s) ip =
     (if ip = sa_ip addr then finsert addr (ip_addrs s ip) else ip_addrs s ip)"
  by (auto simp: ip_addrs_def)

lemma store_inv_insert:
  assumes "store_inv s"
  shows "store_inv (insert_entry addr v now l s)"
proof -
  let ?s = "insert_entry addr v now l s"
  have "queue_ok ?s"
    using assms
    by (auto simp: queue_ok_def queue_iff insert_entry_def Let_def split: option.splits if_splits)
  moreover have "counts_ok ?s"
  proof (cases "fmlookup (entries s) addr")
    case None
    then have "addr |\<notin>| ip_addrs s (sa_ip addr)" by (auto simp: ip_addrs_def fmdom_notI)
    moreover have "per_ip ?s = fmupd (sa_ip addr) (ip_count s (sa_ip addr) + 1) (per_ip s)"
      using None by (simp add: insert_entry_def Let_def ip_count_def)
    ultimately show ?thesis
      using assms ip_count_eq [OF assms]
      by (auto simp: counts_ok_def ip_addrs_insert store_inv_def fcard_finsert_disjoint)
  next
    case (Some e)
    then have "addr |\<in>| ip_addrs s (sa_ip addr)" by (auto simp: ip_addrs_def fmdomI)
    moreover have "per_ip ?s = per_ip s" using Some by (simp add: insert_entry_def Let_def)
    ultimately show ?thesis
      using assms by (auto simp: counts_ok_def ip_addrs_insert store_inv_def finsert_absorb)
  qed
  ultimately show ?thesis by (simp add: store_inv_def)
qed

lemma first_in_queue: "fset_first (expirations s) = Some (t, a) \<Longrightarrow> (t, a) |\<in>| expirations s"
  by (drule fset_first_SomeD) simp

lemma put_inv: "store_inv s \<Longrightarrow> store_inv (snd (put addr v now l s))"
  by (auto simp: put_def Let_def gc_inv store_inv_insert store_inv_evict first_in_queue
      split: option.split)

lemma get_inv: "store_inv s \<Longrightarrow> store_inv (snd (store_get addr now s))"
  by (simp add: store_get_def Let_def gc_inv)

lemma evict_bounded:
  "store_inv s \<Longrightarrow> store_bounded l s \<Longrightarrow> (t, a) |\<in>| expirations s \<Longrightarrow> store_bounded l (evict t a s)"
  by (rule bounded_sub [OF _ store_inv_evict]) (auto split: if_splits)

lemma evict_len:
  assumes "store_inv s" "(t, a) |\<in>| expirations s"
  shows "Suc (fmlen (entries (evict t a s))) = fmlen (entries s)"
proof -
  have "a |\<in>| fmdom (entries s)" using assms queue_iff by (auto simp: fmdomI)
  then show ?thesis using fcard_pos [of a "fmdom (entries s)"]
    by (simp add: fmlen_def fcard_fminus_fsingleton)
qed

text \<open>Inserting keeps the limits when the address is known, or when there is room for it.\<close>

lemma insert_bounded:
  assumes s: "store_inv s" "store_bounded l s"
    and v: "length v \<le> max_value_len l" "length v \<le> MAX_VALUE_LEN"
    and room: "fmlookup (entries s) addr = None \<Longrightarrow>
      ip_count s (sa_ip addr) < max_entries_per_ip l \<and> fmlen (entries s) < max_entries l"
  shows "store_bounded l (insert_entry addr v now l s)"
proof -
  let ?s = "insert_entry addr v now l s"
  have inv: "store_inv ?s" using s(1) by (rule store_inv_insert)
  have len: "store_len ?s \<le> max_entries l"
    using s(2) room by (auto simp: store_len_def store_bounded_def fmlen_upd)
  have "ip_count ?s ip \<le> max_entries_per_ip l" for ip
  proof (cases "ip = sa_ip addr \<and> fmlookup (entries s) addr = None")
    case True
    with room show ?thesis
      by (auto simp: ip_count_eq [OF inv] ip_count_eq [OF s(1)] ip_addrs_insert fcard_finsert_if)
  next
    case False
    then have "ip_addrs ?s ip = ip_addrs s ip"
      by (auto simp: ip_addrs_insert) (auto simp: ip_addrs_def fmdomI)
    with s show ?thesis by (simp add: ip_count_eq [OF inv] ip_count_eq [OF s(1)] store_bounded_def)
  qed
  with len v s(2) show ?thesis by (auto simp: store_bounded_def)
qed

lemma put_bounded:
  assumes "store_inv s" "store_bounded l s"
  shows "store_bounded l (snd (put addr v now l s))"
proof -
  let ?g = "gc now s"
  have g: "store_inv ?g" "store_bounded l ?g" using assms by (auto simp: gc_inv gc_bounded)
  have ip: "ip_count (evict t a ?g) ip \<le> ip_count ?g ip" if "(t, a) |\<in>| expirations ?g" for t a ip
    by (rule ip_count_mono [OF g(1) store_inv_evict [OF g(1) that]]) auto
  have "store_bounded l (insert_entry addr v now l (evict t a ?g))"
    if "fset_first (expirations ?g) = Some (t, a)" "length v \<le> max_value_len l"
      "length v \<le> MAX_VALUE_LEN" "ip_count ?g (sa_ip addr) < max_entries_per_ip l" for t a
  proof (rule insert_bounded)
    from that(1) have q: "(t, a) |\<in>| expirations ?g" by (rule first_in_queue)
    show "store_inv (evict t a ?g)" "store_bounded l (evict t a ?g)"
      using g q by (auto simp: store_inv_evict evict_bounded)
    show "ip_count (evict t a ?g) (sa_ip addr) < max_entries_per_ip l \<and>
        fmlen (entries (evict t a ?g)) < max_entries l"
      using ip [OF q, of "sa_ip addr"] that(4) evict_len [OF g(1) q] g(2)
      by (auto simp: store_bounded_def store_len_def)
  qed (use that in auto)
  with g show ?thesis
    by (auto simp: put_def Let_def not_less intro!: insert_bounded split: option.split)
qed

lemma get_bounded: "store_inv s \<Longrightarrow> store_bounded l s \<Longrightarrow> store_bounded l (snd (store_get addr now s))"
  by (simp add: store_get_def Let_def gc_bounded)

end
