(* ===== verification/Store_Spec.thy ===== *)
theory Store_Spec
  imports Store
begin

text \<open>
  The contract of the store. First an abstract specification: a partial function from
  addresses to a value and its expiry, with none of the store's bookkeeping; the store's
  operations refine it. Then the interface the server relies on, as a locale with the lemma
  that a sequence of operations never invents a value, and its interpretation on the store.
\<close>

section \<open>Abstract specification\<close>

type_synonym contents = "socket_addr_v4 \<rightharpoonup> bytes \<times> u64"

definition live :: "u64 \<Rightarrow> contents \<Rightarrow> contents" where
  "live now m a = (case m a of None \<Rightarrow> None | Some (v, t) \<Rightarrow> if now < t then Some (v, t) else None)"

definition nearest :: "contents \<Rightarrow> socket_addr_v4" where
  "nearest m = snd (Min {(t, a) | t a v. m a = Some (v, t)})"

definition spec_put :: "socket_addr_v4 \<Rightarrow> bytes \<Rightarrow> u64 \<Rightarrow> limits \<Rightarrow> contents \<Rightarrow> (put_error + unit) \<times> contents" where
  "spec_put addr v now l m =
     (let m = live now m; stored = m(addr \<mapsto> (v, saturating_add now (value_ttl_secs l))) in
      if length v > min (max_value_len l) MAX_VALUE_LEN then (Inl TooLarge, m)
      else if addr \<in> dom m then (Inr (), stored)
      else if card {a \<in> dom m. sa_ip a = sa_ip addr} \<ge> max_entries_per_ip l then (Inl Full, m)
      else if card (dom m) < max_entries l then (Inr (), stored)
      else if dom m = {} then (Inl Full, m)
      else (Inr (), stored(nearest m := None)))"

definition contents_of :: "store \<Rightarrow> contents" where
  "contents_of s a = map_option (\<lambda>e. (entry_value e, expires_at e)) (fmlookup (entries s) a)"

lemma contents_gc: "store_inv s \<Longrightarrow> contents_of (gc now s) = live now (contents_of s)"
  by (auto simp: fun_eq_iff contents_of_def live_def gc_lookup split: option.split)

lemma dom_contents: "dom (contents_of s) = fset (fmdom (entries s))"
  by (auto simp: contents_of_def fmlookup_dom_iff)

lemma card_contents: "card (dom (contents_of s)) = fmlen (entries s)"
  by (simp add: dom_contents fmlen_def fcard.rep_eq)

lemma card_ip_contents:
  "store_inv s \<Longrightarrow> card {a \<in> dom (contents_of s). sa_ip a = ip} = ip_count s ip"
proof -
  assume "store_inv s"
  moreover have "{a \<in> dom (contents_of s). sa_ip a = ip} = fset (ip_addrs s ip)"
    by (auto simp: dom_contents ip_addrs_def)
  ultimately show ?thesis by (simp add: ip_count_eq fcard.rep_eq)
qed

lemma nearest_contents:
  assumes "store_inv s" "fset_first (expirations s) = Some (t, a)"
  shows "nearest (contents_of s) = a"
proof -
  have "{(t, a) | t a v. contents_of s a = Some (v, t)} = fset (expirations s)"
    using queue_iff [OF assms(1)] by (force simp: contents_of_def)
  moreover have "fMin (expirations s) = (t, a)" using assms(2) by (simp add: fset_first_def split: if_splits)
  ultimately show ?thesis by (simp add: nearest_def fMin.F.rep_eq)
qed

lemma contents_insert:
  "contents_of (insert_entry addr v now l s) =
     (contents_of s)(addr \<mapsto> (v, saturating_add now (value_ttl_secs l)))"
  by (auto simp: fun_eq_iff contents_of_def)

lemma contents_evict: "contents_of (evict t a s) = (contents_of s)(a := None)"
  by (auto simp: fun_eq_iff contents_of_def)

lemma queue_empty_contents: "store_inv s \<Longrightarrow> fset_first (expirations s) = None \<longleftrightarrow> dom (contents_of s) = {}"
  using queue_empty [of s] fmdom_empty_iff [of "entries s"]
  by (simp add: dom_contents fset_eq_empty_iff)

lemma put_refines:
  assumes "store_inv s"
  shows "put addr v now l s = (r, s') \<Longrightarrow> spec_put addr v now l (contents_of s) = (r, contents_of s')"
proof -
  assume p: "put addr v now l s = (r, s')"
  let ?g = "gc now s"
  have g: "store_inv ?g" using assms by (rule gc_inv)
  have known: "addr \<in> dom (live now (contents_of s)) \<longleftrightarrow> fmlookup (entries ?g) addr \<noteq> None"
    by (auto simp: contents_gc [OF assms, symmetric] contents_of_def)
  have evicted: "fmlookup (entries ?g) addr = None \<Longrightarrow> fset_first (expirations ?g) = Some (t, a) \<Longrightarrow>
      (contents_of ?g)(a := None, addr \<mapsto> x) = (contents_of ?g)(addr \<mapsto> x, nearest (contents_of ?g) := None)"
    for t a x
    using nearest_contents [OF g] queue_iff [OF g] first_in_queue [of ?g t a]
    by (metis fun_upd_twist option.distinct(1))
  show ?thesis
    using p known g queue_empty_contents [OF g]
    by (auto simp: put_def spec_put_def Let_def contents_gc [OF assms, symmetric] card_contents
        card_ip_contents contents_insert contents_evict evicted
        split: option.splits if_splits)
qed

section \<open>Interface\<close>

text \<open>
  What a client of the store relies on: \<open>view s t\<close> is what a read at time \<open>t\<close> returns; reads
  and failed writes do not add to any later view, a write adds its own value only and for its
  lifetime only.
\<close>

datatype store_op = OpPut socket_addr_v4 bytes u64 | OpGet socket_addr_v4 u64

fun apply_op :: "(socket_addr_v4 \<Rightarrow> bytes \<Rightarrow> u64 \<Rightarrow> limits \<Rightarrow> 's \<Rightarrow> (put_error + unit) \<times> 's) \<Rightarrow>
    (socket_addr_v4 \<Rightarrow> u64 \<Rightarrow> 's \<Rightarrow> bytes option \<times> 's) \<Rightarrow> limits \<Rightarrow> store_op \<Rightarrow> 's \<Rightarrow> 's" where
  "apply_op put_op get_op l (OpPut a v now) s = snd (put_op a v now l s)"
| "apply_op put_op get_op l (OpGet a now) s = snd (get_op a now s)"

locale expiring_store =
  fixes put_op :: "socket_addr_v4 \<Rightarrow> bytes \<Rightarrow> u64 \<Rightarrow> limits \<Rightarrow> 's \<Rightarrow> (put_error + unit) \<times> 's"
    and get_op :: "socket_addr_v4 \<Rightarrow> u64 \<Rightarrow> 's \<Rightarrow> bytes option \<times> 's"
    and inv :: "'s \<Rightarrow> bool"
    and view :: "'s \<Rightarrow> u64 \<Rightarrow> socket_addr_v4 \<rightharpoonup> bytes"
  assumes inv_put: "inv s \<Longrightarrow> inv (snd (put_op a v now l s))"
    and inv_get: "inv s \<Longrightarrow> inv (snd (get_op a now s))"
    and get_view: "inv s \<Longrightarrow> fst (get_op a now s) = view s now a"
    and get_frame: "inv s \<Longrightarrow> view (snd (get_op a now s)) t b = Some w \<Longrightarrow> view s t b = Some w"
    and get_keeps: "inv s \<Longrightarrow> now \<le> t \<Longrightarrow> view (snd (get_op a now s)) t = view s t"
    and put_new: "inv s \<Longrightarrow> put_op a v now l s = (Inr (), s') \<Longrightarrow>
      view s' t a = (if t < saturating_add now (value_ttl_secs l) then Some v else None)"
    and put_frame: "inv s \<Longrightarrow> put_op a v now l s = (r, s') \<Longrightarrow> b \<noteq> a \<or> r \<noteq> Inr () \<Longrightarrow>
      view s' t b = Some w \<Longrightarrow> view s t b = Some w"
begin

abbreviation run_op :: "limits \<Rightarrow> store_op \<Rightarrow> 's \<Rightarrow> 's" where
  "run_op \<equiv> apply_op put_op get_op"

lemma run_inv: "inv s \<Longrightarrow> inv (fold (run_op l) ops s)"
proof (induction ops arbitrary: s)
  case (Cons x ops)
  then show ?case by (cases x) (auto simp: inv_put inv_get)
qed simp

text \<open>A value that is read was written, to that address, in its lifetime.\<close>

lemma run_provenance:
  "inv s \<Longrightarrow> view (fold (run_op l) ops s) t a = Some v \<Longrightarrow>
     view s t a = Some v \<or>
     (\<exists>before now after. ops = before @ OpPut a v now # after \<and>
        fst (put_op a v now l (fold (run_op l) before s)) = Inr () \<and>
        t < saturating_add now (value_ttl_secs l))"
proof (induction ops rule: rev_induct)
  case (snoc x ops)
  let ?s = "fold (run_op l) ops s"
  have inv: "inv ?s" using snoc.prems(1) by (rule run_inv)
  have cases: "view ?s t a = Some v \<or> (\<exists>now. x = OpPut a v now \<and>
      fst (put_op a v now l ?s) = Inr () \<and> t < saturating_add now (value_ttl_secs l))"
  proof (cases x)
    case (OpPut b w now)
    obtain r s' where p: "put_op b w now l ?s = (r, s')" by (cases "put_op b w now l ?s")
    show ?thesis
    proof (cases "a \<noteq> b \<or> r \<noteq> Inr ()")
      case True
      with put_frame [OF inv p] snoc.prems(2) OpPut p show ?thesis by simp
    next
      case False
      with put_new [OF inv, of b w now l s' t] snoc.prems(2) OpPut p show ?thesis
        by (auto split: if_splits)
    qed
  next
    case (OpGet b now)
    with get_frame [OF inv] snoc.prems(2) show ?thesis by simp
  qed
  then show ?case
  proof
    assume "view ?s t a = Some v"
    with snoc.IH snoc.prems(1) show ?thesis by (metis append_Cons append_assoc)
  next
    assume "\<exists>now. x = OpPut a v now \<and> fst (put_op a v now l ?s) = Inr () \<and>
      t < saturating_add now (value_ttl_secs l)"
    then show ?thesis by blast
  qed
qed simp

end

definition store_view :: "store \<Rightarrow> u64 \<Rightarrow> socket_addr_v4 \<rightharpoonup> bytes" where
  "store_view s t a = map_option fst (live t (contents_of s) a)"

lemma live_live_mono: "live t (live now m) a = Some x \<Longrightarrow> live t m a = Some x"
  by (auto simp: live_def split: option.splits if_splits)

lemma live_live_later: "now \<le> t \<Longrightarrow> live t (live now m) = live t m"
  by (auto simp: live_def fun_eq_iff split: option.splits)

lemma nearest_dom:
  assumes "finite (dom m)" "dom m \<noteq> {}"
  shows "nearest m \<in> dom m"
proof -
  let ?E = "{(t, a) | t a v. m a = Some (v, t)}"
  have "?E \<subseteq> (\<lambda>a. (snd (the (m a)), a)) ` dom m" by force
  then have "finite ?E" using assms(1) finite_surj by blast
  moreover have "?E \<noteq> {}" using assms(2) by fastforce
  ultimately have "Min ?E \<in> ?E" by (rule Min_in)
  then show ?thesis by (auto simp: nearest_def)
qed

lemma finite_contents: "finite (dom (contents_of s))"
  by (simp add: dom_contents)

lemma spec_put_contents:
  assumes "spec_put a v now l m = (r, m')"
    and "finite (dom m)"
  shows "r = Inr () \<Longrightarrow> m' a = Some (v, saturating_add now (value_ttl_secs l))"
    and "b \<noteq> a \<or> r \<noteq> Inr () \<Longrightarrow> m' b = Some x \<Longrightarrow> live now m b = Some x"
proof -
  have fin: "finite (dom (live now m))"
    by (rule finite_subset [OF _ assms(2)]) (auto simp: live_def split: option.splits)
  have "nearest (live now m) \<noteq> a" if "a \<notin> dom (live now m)" "dom (live now m) \<noteq> {}"
    using nearest_dom [OF fin that(2)] that(1) by auto
  then show "r = Inr () \<Longrightarrow> m' a = Some (v, saturating_add now (value_ttl_secs l))"
    and "b \<noteq> a \<or> r \<noteq> Inr () \<Longrightarrow> m' b = Some x \<Longrightarrow> live now m b = Some x"
    using assms(1) by (auto simp: spec_put_def Let_def split: if_splits)
qed

interpretation st: expiring_store put store_get store_inv store_view
proof
  fix s :: store and a b v now l t w r s'
  assume inv: "store_inv s"
  show "store_inv (snd (put a v now l s))" "store_inv (snd (store_get a now s))"
    using inv by (auto intro: put_inv get_inv)
  show "fst (store_get a now s) = store_view s now a"
    using inv by (auto simp: store_get_def Let_def store_view_def live_def contents_of_def gc_lookup
        split: option.split)
  have g: "contents_of (snd (store_get a now s)) = live now (contents_of s)"
    using inv by (simp add: store_get_def Let_def contents_gc)
  show "store_view (snd (store_get a now s)) t b = Some w \<Longrightarrow> store_view s t b = Some w"
    using g by (auto simp: store_view_def dest: live_live_mono)
  show "now \<le> t \<Longrightarrow> store_view (snd (store_get a now s)) t = store_view s t"
    using g by (intro ext) (simp add: store_view_def live_live_later)
  show "put a v now l s = (Inr (), s') \<Longrightarrow>
      store_view s' t a = (if t < saturating_add now (value_ttl_secs l) then Some v else None)"
    using spec_put_contents(1) [OF put_refines [OF inv] finite_contents] by (auto simp: store_view_def live_def)
  show "store_view s t b = Some w"
    if p: "put a v now l s = (r, s')" "b \<noteq> a \<or> r \<noteq> Inr ()" "store_view s' t b = Some w"
  proof -
    from p(3) obtain e where e: "contents_of s' b = Some (w, e)" "t < e"
      by (auto simp: store_view_def live_def split: option.splits if_splits)
    with spec_put_contents(2) [OF put_refines [OF inv p(1)] finite_contents p(2)] have "live now (contents_of s) b = Some (w, e)"
      by blast
    with e(2) show ?thesis
      by (auto simp: store_view_def live_def split: option.splits if_splits)
  qed
qed

text \<open>The stores a server can hold: any sequence of operations on the empty store.\<close>

definition store_run :: "limits \<Rightarrow> store_op list \<Rightarrow> store" where
  "store_run l ops = fold (apply_op put store_get l) ops store_new"

lemma store_run_inv: "store_inv (store_run l ops)"
  by (simp add: store_run_def st.run_inv)

lemma store_run_snoc: "store_run l (ops @ [x]) = apply_op put store_get l x (store_run l ops)"
  by (simp add: store_run_def)

lemma store_run_bounded: "store_bounded l (store_run l ops)"
proof (induction ops rule: rev_induct)
  case Nil
  then show ?case by (simp add: store_run_def)
next
  case (snoc x ops)
  with store_run_inv [of l ops] show ?case
    by (cases x) (auto simp: store_run_snoc put_bounded get_bounded)
qed

section \<open>Properties\<close>

text \<open>
  C4: in every store the operations can build, the expiry queue and the per-address counts
  agree with the entries (so no count underflows and no queue element dangles), and the
  configured numbers of entries, entries per IPv4 address and bytes per value are respected.
\<close>

theorem store_invariant:
  "store_inv (store_run l ops) \<and> store_bounded l (store_run l ops)"
  by (simp add: store_run_inv store_run_bounded)

text \<open>
  C5: \<open>put\<close> and \<open>get\<close> implement the abstract specification, a partial function from addresses to
  values with expiry times: \<open>put\<close> first drops exactly what has expired, refuses a value that
  is too large or an address over its quota, evicts only the entry nearest to expiry and only
  when the store is full, and then maps the address to the value until the time to live is
  over; \<open>get\<close> returns the unexpired value. Both return the same results on the same
  branches.
\<close>

theorem store_refines_spec:
  "map_prod id contents_of (put addr v now l (store_run l ops)) =
     spec_put addr v now l (contents_of (store_run l ops)) \<and>
   map_prod id contents_of (store_get addr now (store_run l ops)) =
     (map_option fst (live now (contents_of (store_run l ops)) addr),
      live now (contents_of (store_run l ops)))"
proof -
  obtain r s' where p: "put addr v now l (store_run l ops) = (r, s')" by fastforce
  have "fst (store_get addr now (store_run l ops)) = store_view (store_run l ops) now addr"
    by (rule st.get_view [OF store_run_inv])
  moreover have "contents_of (snd (store_get addr now (store_run l ops))) =
      live now (contents_of (store_run l ops))"
    using store_run_inv by (simp add: store_get_def Let_def contents_gc)
  ultimately show ?thesis
    using put_refines [OF store_run_inv p] p by (simp add: store_view_def prod_eq_iff)
qed

text \<open>
  C6: a value that \<open>get\<close> returns for an address was put, successfully, for that address, and its
  time to live is not over. No operation on other addresses and no eviction or collection can
  make a value appear.
\<close>

theorem store_provenance:
  assumes "fst (store_get addr now (store_run l ops)) = Some v"
  shows "\<exists>before t after. ops = before @ OpPut addr v t # after \<and>
    fst (put addr v t l (store_run l before)) = Inr () \<and>
    now < saturating_add t (value_ttl_secs l)"
proof -
  have "store_view (store_run l ops) now addr = Some v"
    using assms st.get_view [OF store_run_inv] by simp
  moreover have "store_view store_new now addr = None"
    by (simp add: store_view_def live_def contents_of_def store_new_def)
  ultimately show ?thesis
    using st.run_provenance [OF store_inv_new] by (fastforce simp: store_run_def)
qed

definition witness_limits :: limits where
  "witness_limits = \<lparr>max_value_len = 3, max_entries = 2, max_entries_per_ip = 2,
     value_ttl_secs = 60, token_bucket_secs = 30,
     requests_per_ip_per_sec = Fin 2, request_burst = Fin 3\<rparr>"

lemma store_provenance_witness:
  "\<exists>before t after. [OpPut (SocketAddrV4 1 2) [7] 100] = before @ OpPut (SocketAddrV4 1 2) [7] t # after \<and>
     fst (put (SocketAddrV4 1 2) [7] t witness_limits (store_run witness_limits before)) = Inr () \<and>
     110 < saturating_add t (value_ttl_secs witness_limits)"
  by (rule store_provenance)
    (simp add: store_run_def store_new_def store_get_def put_def gc.simps fset_first_def
      insert_entry_def ip_count_def witness_limits_def MAX_VALUE_LEN_def saturating_add_def)

end
