(* ===== verification/Rate_Limit.thy ===== *)
theory Rate_Limit
  imports Server_Limits
begin

text \<open>
  The request rate limiter of the address index server (\<open>udp-addr-index/src/lib.rs\<close>,
  \<open>Bucket\<close>, \<open>RateLimiters\<close> and \<open>bucket_index\<close>). The fixed table of buckets is a function of
  the index; the standard hasher is a parameter \<open>hash\<close>; the two clock readings of \<open>allow\<close> are
  two arguments. The theorems bound what a bucket lets through: exactly the burst at one
  instant, and over a period the burst plus the refill, up to the rounding error.
\<close>

section \<open>Model\<close>

definition RATE_LIMIT_BUCKETS :: usize where "RATE_LIMIT_BUCKETS = 65536"

record bucket =
  tokens :: f64
  last_use :: instant

definition take_token :: "(rat \<Rightarrow> rat) \<Rightarrow> instant \<Rightarrow> f64 \<Rightarrow> f64 \<Rightarrow> bucket \<Rightarrow> bool \<times> bucket" where
  "take_token rnd now rate burst b =
     (let elapsed = as_secs_f64 rnd (now - last_use b);
          b = b\<lparr>tokens := f64_min (f64_add rnd (tokens b) (f64_mul rnd elapsed rate)) burst\<rparr>;
          b = b\<lparr>last_use := now\<rparr>
      in if f64_less (tokens b) (Fin 1) then (False, b)
         else (True, b\<lparr>tokens := f64_sub rnd (tokens b) (Fin 1)\<rparr>))"

record rate_limiters =
  buckets :: "nat \<Rightarrow> bucket"

definition rate_limiters_default :: "instant \<Rightarrow> rate_limiters" where
  "rate_limiters_default now = \<lparr>buckets = (\<lambda>_. \<lparr>tokens = NaN, last_use = now\<rparr>)\<rparr>"

definition bucket_index :: "(ipv4_addr \<Rightarrow> u64) \<Rightarrow> ipv4_addr \<Rightarrow> usize" where
  "bucket_index hash ip = unat (hash ip) mod RATE_LIMIT_BUCKETS"

text \<open>A fresh bucket is filled at the first clock reading; the request is counted at the second.\<close>

definition bucket_allow :: "(rat \<Rightarrow> rat) \<Rightarrow> limits \<Rightarrow> instant \<Rightarrow> instant \<Rightarrow> bucket \<Rightarrow> bool \<times> bucket" where
  "bucket_allow rnd l now now' b =
     (let b = (if is_nan (tokens b) then b\<lparr>tokens := request_burst l, last_use := now\<rparr> else b)
      in take_token rnd now' (requests_per_ip_per_sec l) (request_burst l) b)"

definition allow :: "(rat \<Rightarrow> rat) \<Rightarrow> (ipv4_addr \<Rightarrow> u64) \<Rightarrow> limits \<Rightarrow> ipv4_addr \<Rightarrow> instant \<Rightarrow> instant \<Rightarrow>
    rate_limiters \<Rightarrow> bool \<times> rate_limiters" where
  "allow rnd hash l ip now now' r =
     (let i = bucket_index hash ip;
          (ok, b) = bucket_allow rnd l now now' (buckets r i)
      in (ok, r\<lparr>buckets := (buckets r)(i := b)\<rparr>))"

lemma bucket_index_less: "bucket_index hash ip < RATE_LIMIT_BUCKETS"
  by (simp add: bucket_index_def RATE_LIMIT_BUCKETS_def)

section \<open>Sequences of requests\<close>

text \<open>
  The answers to a sequence of requests, each an address with its two clock readings; and the
  answers of one bucket to the readings that reach it.
\<close>

fun allow_run :: "(rat \<Rightarrow> rat) \<Rightarrow> (ipv4_addr \<Rightarrow> u64) \<Rightarrow> limits \<Rightarrow> (ipv4_addr \<times> instant \<times> instant) list \<Rightarrow>
    rate_limiters \<Rightarrow> bool list" where
  "allow_run rnd hash l [] r = []"
| "allow_run rnd hash l ((ip, now, now') # reqs) r =
     (let (ok, r') = allow rnd hash l ip now now' r in ok # allow_run rnd hash l reqs r')"

fun bucket_run :: "(rat \<Rightarrow> rat) \<Rightarrow> limits \<Rightarrow> (instant \<times> instant) list \<Rightarrow> bucket \<Rightarrow> bool list" where
  "bucket_run rnd l [] b = []"
| "bucket_run rnd l ((now, now') # ts) b =
     (let (ok, b') = bucket_allow rnd l now now' b in ok # bucket_run rnd l ts b')"

definition served :: "(ipv4_addr \<Rightarrow> u64) \<Rightarrow> usize \<Rightarrow> (ipv4_addr \<times> instant \<times> instant) list \<Rightarrow> bool list \<Rightarrow> nat" where
  "served hash i reqs oks =
     length (filter (\<lambda>((ip, _), ok). bucket_index hash ip = i \<and> ok) (zip reqs oks))"

definition readings :: "(ipv4_addr \<Rightarrow> u64) \<Rightarrow> usize \<Rightarrow> (ipv4_addr \<times> instant \<times> instant) list \<Rightarrow> (instant \<times> instant) list" where
  "readings hash i reqs = map snd (filter (\<lambda>(ip, _). bucket_index hash ip = i) reqs)"

text \<open>A bucket's answers depend on the requests that hash to it only.\<close>

lemma served_bucket_run:
  "served hash i reqs (allow_run rnd hash l reqs r) =
     length (filter (\<lambda>ok. ok) (bucket_run rnd l (readings hash i reqs) (buckets r i)))"
proof (induction reqs arbitrary: r)
  case Nil
  then show ?case by (simp add: served_def readings_def)
next
  case (Cons q reqs)
  obtain ip now now' where q: "q = (ip, now, now')" by (cases q)
  obtain ok r' where a: "allow rnd hash l ip now now' r = (ok, r')" by fastforce
  have "served hash i (q # reqs) (ok # oks) =
      of_bool (bucket_index hash ip = i \<and> ok) + served hash i reqs oks" for oks
    by (simp add: served_def q)
  with a q Cons.IH [of r'] show ?case
    by (auto simp: readings_def allow_def Let_def split: prod.splits)
qed

text \<open>Clock readings that never go back, and the last of them.\<close>

fun in_order :: "instant \<Rightarrow> (instant \<times> instant) list \<Rightarrow> bool" where
  "in_order t0 [] \<longleftrightarrow> True"
| "in_order t0 ((t, t') # ts) \<longleftrightarrow> t0 \<le> t \<and> t \<le> t' \<and> in_order t' ts"

fun final_reading :: "instant \<Rightarrow> (instant \<times> instant) list \<Rightarrow> instant" where
  "final_reading t0 [] = t0"
| "final_reading t0 ((t, t') # ts) = final_reading t' ts"

lemma final_reading_ge: "in_order t0 ts \<Longrightarrow> t0 \<le> final_reading t0 ts"
  by (induction t0 ts rule: in_order.induct) auto

text \<open>
  An upper bound on rounding: up to \<open>B\<close> a rounded value exceeds the exact one by at most \<open>d\<close>.
\<close>

locale f64_error = f64_rounding +
  fixes B d :: rat
  assumes rnd_err: "0 \<le> x \<Longrightarrow> x \<le> B \<Longrightarrow> rnd x \<le> x + d"
    and d_nonneg: "0 \<le> d" and d_le: "d \<le> 1"
begin

abbreviation to_secs :: "nat \<Rightarrow> rat" where
  "to_secs n \<equiv> of_nat n / 1000000000"

lemma elapsed_le:
  assumes "to_secs el + 2 \<le> B"
  obtains e where "as_secs_f64 rnd el = Fin e" "0 \<le> e" "e \<le> to_secs el + 3 * d"
proof -
  let ?s = "of_nat (el div 1000000000) :: rat" and ?n = "to_secs (el mod 1000000000)"
  have split: "to_secs el = ?s + ?n"
  proof -
    have "of_nat el = ?s * 1000000000 + (of_nat (el mod 1000000000) :: rat)"
      by (metis div_mult_mod_eq of_nat_add of_nat_mult of_nat_numeral)
    then show ?thesis by (simp add: field_simps)
  qed
  have pos: "0 \<le> ?s" "0 \<le> ?n" by simp_all
  then have le: "?s \<le> B" "?n \<le> B" using split assms by linarith+
  have s: "0 \<le> rnd ?s" "rnd ?s \<le> ?s + d" by (rule rnd_nonneg [OF pos(1)], rule rnd_err [OF pos(1) le(1)])
  have n: "0 \<le> rnd ?n" "rnd ?n \<le> ?n + d" by (rule rnd_nonneg [OF pos(2)], rule rnd_err [OF pos(2) le(2)])
  have "rnd (rnd ?s + rnd ?n) \<le> rnd ?s + rnd ?n + d"
    using s n split assms d_le by (intro rnd_err) linarith+
  moreover have "0 \<le> rnd (rnd ?s + rnd ?n)" using s n by (intro rnd_nonneg) simp
  ultimately show ?thesis
    using that [of "rnd (rnd ?s + rnd ?n)"] s n split by (simp add: as_secs_f64_def)
qed

text \<open>One request: what it takes plus what is left is covered by what was there and the refill.\<close>

lemma take_token_step:
  assumes b: "tokens b = Fin x" "0 \<le> x" "x \<le> burst"
    and r: "0 \<le> rate" "0 \<le> burst" "burst \<le> B" "rnd burst = burst"
    and range: "to_secs (now - last_use b) + 2 \<le> B" "(to_secs (now - last_use b) + 3) * rate \<le> B"
  obtains ok y where "take_token rnd now (Fin rate) (Fin burst) b = (ok, \<lparr>tokens = Fin y, last_use = now\<rparr>)"
    "0 \<le> y" "y \<le> burst"
    "of_bool ok + y \<le> x + rate * to_secs (now - last_use b) + d * (3 * rate + 3)"
proof -
  let ?T = "to_secs (now - last_use b)"
  obtain e where e: "as_secs_f64 rnd (now - last_use b) = Fin e" "0 \<le> e" "e \<le> ?T + 3 * d"
    using elapsed_le [OF range(1)] by blast
  define refill where "refill = rnd (e * rate)"
  have "e * rate \<le> (?T + 3 * d) * rate" using e(3) r(1) by (rule mult_right_mono)
  moreover have "(?T + 3 * d) * rate \<le> (?T + 3) * rate" using d_le r(1) by (intro mult_right_mono) simp_all
  ultimately have er: "e * rate \<le> B" "e * rate \<le> (?T + 3 * d) * rate" using range(2) by linarith+
  have refill: "0 \<le> refill" "refill \<le> (?T + 3 * d) * rate + d"
    using rnd_err [of "e * rate"] e(2) r(1) er by (auto simp: refill_def intro!: rnd_nonneg)
  define z where "z = min (rnd (x + refill)) burst"
  have z: "0 \<le> z" "z \<le> burst" "z \<le> x + refill + d"
  proof -
    show "0 \<le> z" using b refill r by (auto simp: z_def intro!: rnd_nonneg)
    show "z \<le> burst" by (simp add: z_def)
    show "z \<le> x + refill + d"
    proof (cases "x + refill \<le> B")
      case True
      with rnd_err [of "x + refill"] b(2) refill(1) show ?thesis by (simp add: z_def)
    next
      case False
      with r(3) d_nonneg show ?thesis by (simp add: z_def)
    qed
  qed
  have eq: "take_token rnd now (Fin rate) (Fin burst) b =
      (if z < 1 then (False, \<lparr>tokens = Fin z, last_use = now\<rparr>)
       else (True, \<lparr>tokens = Fin (rnd (z - 1)), last_use = now\<rparr>))"
    using b(1) e(1) by (simp add: take_token_def Let_def z_def refill_def)
  have sub: "0 \<le> rnd (z - 1)" "rnd (z - 1) \<le> z - 1 + d" "rnd (z - 1) \<le> burst" if "1 \<le> z"
    using that z r rnd_err [of "z - 1"] rnd_mono [of "z - 1" burst] by (auto intro!: rnd_nonneg)
  have total: "z + d \<le> x + rate * ?T + d * (3 * rate + 3)"
    using z(3) refill(2) by (simp add: algebra_simps)
  show ?thesis
  proof (cases "z < 1")
    case True
    with eq z total d_nonneg show ?thesis by (intro that [of False z]) auto
  next
    case False
    with eq sub total show ?thesis by (intro that [of True "rnd (z - 1)"]) auto
  qed
qed

text \<open>A bucket in use, with clock readings in order.\<close>

lemma run_bound:
  assumes l: "requests_per_ip_per_sec l = Fin rate" "request_burst l = Fin burst"
    and r: "0 \<le> rate" "0 \<le> burst" "burst \<le> B" "rnd burst = burst"
  shows "tokens b = Fin x \<Longrightarrow> 0 \<le> x \<Longrightarrow> x \<le> burst \<Longrightarrow> in_order (last_use b) ts \<Longrightarrow>
    to_secs (final_reading (last_use b) ts - last_use b) + 2 \<le> B \<Longrightarrow>
    (to_secs (final_reading (last_use b) ts - last_use b) + 3) * rate \<le> B \<Longrightarrow>
    of_nat (length (filter (\<lambda>ok. ok) (bucket_run rnd l ts b))) \<le>
      x + rate * to_secs (final_reading (last_use b) ts - last_use b) +
      of_nat (length ts) * (d * (3 * rate + 3))"
proof (induction ts arbitrary: b x)
  case Nil
  then show ?case by simp
next
  case (Cons q ts)
  obtain t t' where q: "q = (t, t')" by (cases q)
  let ?f = "final_reading t' ts"
  have ord: "last_use b \<le> t'" "in_order t' ts" "t' \<le> ?f"
    using Cons.prems(4) q final_reading_ge by auto
  then have sum: "to_secs (?f - last_use b) = to_secs (t' - last_use b) + to_secs (?f - t')"
    by (simp add: of_nat_diff diff_divide_distrib)
  have le: "to_secs (t' - last_use b) \<le> to_secs (?f - last_use b)"
      "to_secs (?f - t') \<le> to_secs (?f - last_use b)"
    using sum by simp_all
  have range: "to_secs e + 2 \<le> B" "(to_secs e + 3) * rate \<le> B"
    if "to_secs e \<le> to_secs (?f - last_use b)" for e
  proof -
    have "(to_secs e + 3) * rate \<le> (to_secs (?f - last_use b) + 3) * rate"
      using that r(1) by (intro mult_right_mono) simp_all
    then show "to_secs e + 2 \<le> B" "(to_secs e + 3) * rate \<le> B"
      using that Cons.prems(5,6) q by simp_all
  qed
  obtain ok y where step: "take_token rnd t' (Fin rate) (Fin burst) b =
        (ok, \<lparr>tokens = Fin y, last_use = t'\<rparr>)"
      and y: "0 \<le> y" "y \<le> burst"
      and bound: "of_bool ok + y \<le> x + rate * to_secs (t' - last_use b) + d * (3 * rate + 3)"
    using take_token_step [OF Cons.prems(1-3) r range [OF le(1)]] by blast
  have "of_nat (length (filter (\<lambda>ok. ok) (bucket_run rnd l ts \<lparr>tokens = Fin y, last_use = t'\<rparr>))) \<le>
      y + rate * to_secs (?f - t') + of_nat (length ts) * (d * (3 * rate + 3))"
    using Cons.IH [of "\<lparr>tokens = Fin y, last_use = t'\<rparr>" y] y ord(2) range [OF le(2)] by simp
  moreover have "bucket_run rnd l (q # ts) b = ok # bucket_run rnd l ts \<lparr>tokens = Fin y, last_use = t'\<rparr>"
    using Cons.prems(1) q l step by (simp add: bucket_allow_def)
  moreover have "rate * to_secs (?f - last_use b) = rate * to_secs (t' - last_use b) + rate * to_secs (?f - t')"
    unfolding sum by (rule distrib_left)
  moreover have "of_nat (length (q # ts)) * (d * (3 * rate + 3)) =
      d * (3 * rate + 3) + of_nat (length ts) * (d * (3 * rate + 3))"
    by (simp add: distrib_right)
  moreover have "final_reading (last_use b) (q # ts) = ?f" using q by simp
  ultimately show ?case using bound by (cases ok) (simp_all add: add_divide_distrib)
qed

end

context f64_rounding
begin

text \<open>A bucket with \<open>m\<close> whole tokens, at one instant.\<close>

lemma run_instant:
  assumes l: "requests_per_ip_per_sec l = Fin rate" "request_burst l = Fin (of_nat k)"
    and k: "k \<le> 2 ^ 53"
  shows "m \<le> k \<Longrightarrow>
    length (filter (\<lambda>ok. ok) (bucket_run rnd l (replicate n (t, t)) \<lparr>tokens = Fin (of_nat m), last_use = t\<rparr>)) =
      min n m"
proof (induction n arbitrary: m)
  case (Suc n)
  have "rnd (of_nat m + 0) = of_nat m" using Suc.prems k by (simp add: rnd_nat)
  moreover have "rnd (of_nat m - 1) = of_nat (m - 1)" if "0 < m"
    using that Suc.prems k rnd_nat [of "m - 1"] by (simp add: of_nat_diff)
  ultimately have step: "bucket_allow rnd l t t \<lparr>tokens = Fin (of_nat m), last_use = t\<rparr> =
      (0 < m, \<lparr>tokens = Fin (of_nat (m - 1)), last_use = t\<rparr>)"
    using l Suc.prems
    by (cases "m = 0") (auto simp: bucket_allow_def take_token_def Let_def as_secs_0 rnd_0)
  with Suc.IH [of "m - 1"] Suc.prems show ?case by (cases m) auto
qed simp

end

text \<open>Exact arithmetic satisfies the laws of rounding, with no error.\<close>

interpretation exact: f64_error id B 0
  for B by unfold_locales simp_all

lemma fresh_run:
  assumes "requests_per_ip_per_sec l = Fin rate" "request_burst l = Fin burst"
  shows "bucket_run rnd l ((t, t') # ts) \<lparr>tokens = NaN, last_use = t0\<rparr> =
    bucket_run rnd l ((t, t') # ts) \<lparr>tokens = Fin burst, last_use = t\<rparr>"
  using assms by (simp add: bucket_allow_def)

section \<open>Properties\<close>

text \<open>
  C7: requests that arrive at one instant at a new server: of the requests that hash to a
  bucket, exactly the configured burst is let through, whatever the other buckets receive,
  with the rounding of \<open>f64\<close> (the burst is a whole number that \<open>f64\<close> represents).
\<close>

theorem allow_burst:
  assumes "f64_rounding rnd" "requests_per_ip_per_sec l = Fin rate" "request_burst l = Fin (of_nat k)"
    "k \<le> 2 ^ 53" "\<forall>(ip, now, now') \<in> set reqs. now = t \<and> now' = t"
  shows "served hash i reqs (allow_run rnd hash l reqs (rate_limiters_default t0)) =
    min (length (readings hash i reqs)) k"
proof -
  let ?ts = "readings hash i reqs"
  have "\<forall>q \<in> set ?ts. q = (t, t)" using assms(5) by (auto simp: readings_def)
  then obtain n where ts: "?ts = replicate n (t, t)" by (metis replicate_eqI)
  have "length (filter (\<lambda>ok. ok) (bucket_run rnd l ?ts \<lparr>tokens = NaN, last_use = t0\<rparr>)) = min n k"
  proof (cases n)
    case 0
    then show ?thesis by (simp add: ts)
  next
    case (Suc m)
    then show ?thesis
      using f64_rounding.run_instant [OF assms(1-4) order_refl, of n t]
        fresh_run [OF assms(2,3)] by (simp only: ts replicate_Suc)
  qed
  then show ?thesis by (simp add: served_bucket_run rate_limiters_default_def ts)
qed

lemma allow_burst_witness:
  "served (\<lambda>_. 5) 5 [(1, 9, 9), (2, 9, 9), (1, 9, 9)]
     (allow_run id (\<lambda>_. 5) (limits_default\<lparr>request_burst := Fin 2\<rparr>) [(1, 9, 9), (2, 9, 9), (1, 9, 9)]
       (rate_limiters_default 0)) = 2"
proof -
  have "length (readings (\<lambda>_. 5) 5 [(1, 9, 9), (2, 9, 9), (1, 9, 9)]) = 3"
    by (simp add: readings_def bucket_index_def RATE_LIMIT_BUCKETS_def)
  with allow_burst [OF exact.f64_rounding_axioms, of "limits_default\<lparr>request_burst := Fin 2\<rparr>" 50 2
      "[(1, 9, 9), (2, 9, 9), (1, 9, 9)]" 9 "\<lambda>_. 5" 5 0]
  show ?thesis by (simp add: limits_default_def)
qed

text \<open>
  C8: the long-run rate. When rounding exceeds the exact value by at most \<open>d\<close>, \<open>n\<close> requests that
  reach one bucket of a new server between the first reading and the last are let through at
  most as often as the burst plus the rate times the time that passed, plus the rounding
  error of the \<open>n\<close> updates.
\<close>

theorem allow_rate:
  assumes "f64_error rnd B d"
    and "requests_per_ip_per_sec l = Fin rate" "request_burst l = Fin burst"
    and "0 \<le> rate" "0 \<le> burst" "burst \<le> B" "rnd burst = burst"
    and "readings hash i reqs = (t, t') # ts" "in_order t ((t, t') # ts)"
    and "elapsed = of_nat (final_reading t' ts - t) / 1000000000"
    and "elapsed + 2 \<le> B" "(elapsed + 3) * rate \<le> B"
  shows "of_nat (served hash i reqs (allow_run rnd hash l reqs (rate_limiters_default t0))) \<le>
    burst + rate * elapsed + of_nat (length (readings hash i reqs)) * (d * (3 * rate + 3))"
proof -
  have "of_nat (length (filter (\<lambda>ok. ok)
      (bucket_run rnd l ((t, t') # ts) \<lparr>tokens = Fin burst, last_use = t\<rparr>))) \<le>
    burst + rate * elapsed + of_nat (length ((t, t') # ts)) * (d * (3 * rate + 3))"
    using f64_error.run_bound [OF assms(1-7), of "\<lparr>tokens = Fin burst, last_use = t\<rparr>" burst "(t, t') # ts"]
      assms(5,9,11,12) unfolding assms(10) by simp
  then show ?thesis
    by (simp only: served_bucket_run rate_limiters_default_def rate_limiters.simps assms(8)
        fresh_run [OF assms(2,3)])
qed

lemma allow_rate_witness:
  "of_nat (served (\<lambda>_. 0) 0 [(1, 0, 0), (1, 1000000000, 1000000000)]
     (allow_run id (\<lambda>_. 0) limits_default [(1, 0, 0), (1, 1000000000, 1000000000)]
       (rate_limiters_default 0))) \<le> (150 :: rat)"
proof -
  have r: "readings (\<lambda>_. 0) 0 [(1, 0, 0), (1, 1000000000, 1000000000)] =
      (0, 0) # [(1000000000, 1000000000)]"
    by (simp add: readings_def bucket_index_def)
  show ?thesis
    using allow_rate [OF exact.f64_error_axioms [of 1000], of limits_default 50 100 "\<lambda>_. 0" 0
        "[(1, 0, 0), (1, 1000000000, 1000000000)]" 0 0 "[(1000000000, 1000000000)]" 1 0] r
    by (simp add: limits_default_def)
qed

end
