(* ===== verification/Postcard_Format.thy ===== *)
theory Postcard_Format
  imports Wire
begin

text \<open>
  The published postcard wire format for the protocol's types, as codec combinators:
  variable-length integers (seven bits per byte, least significant group first), raw arrays,
  length-prefixed vectors, one-byte option tags and enum tags. It instantiates the parameters
  \<open>ser\<close> and \<open>de\<close> of \<open>Wire\<close>, discharges the locale \<open>proto_wire\<close>, and serves the
  witnesses of the theorems that are stated for any codec with those laws.
\<close>

section \<open>Codecs\<close>

type_synonym 'a parser = "bytes \<Rightarrow> ('a \<times> bytes) option"

text \<open>
  An encoder with a parser that returns the rest of its input. The parser inverts the encoder,
  does not look past what it consumes, yields valid values, and consumes at least as many
  bytes as the encoder writes.
\<close>

locale codec =
  fixes enc :: "'a \<Rightarrow> bytes" and dec :: "'a parser" and valid :: "'a \<Rightarrow> bool"
  assumes dec_enc: "valid v \<Longrightarrow> dec (enc v @ rest) = Some (v, rest)"
    and dec_extend: "dec bs = Some (v, rest) \<Longrightarrow> dec (bs @ xs) = Some (v, rest @ xs)"
    and dec_sound: "dec bs = Some (v, rest) \<Longrightarrow> valid v \<and> length (enc v) + length rest \<le> length bs"
begin

lemma dec_truncated:
  assumes "valid v" "k < length (enc v)"
  shows "dec (take k (enc v)) = None"
proof (rule ccontr)
  assume "dec (take k (enc v)) \<noteq> None"
  then obtain w rest where "dec (take k (enc v)) = Some (w, rest)" by auto
  from dec_extend [OF this, of "drop k (enc v)"] dec_enc [OF assms(1), of "[]"]
  have "rest @ drop k (enc v) = []" by simp
  with assms(2) show False by simp
qed

end

sublocale codec \<subseteq> pc: postcard enc "\<lambda>bs. map_option fst (dec bs)" valid
proof unfold_locales
  show "valid v \<Longrightarrow> map_option fst (dec (enc v @ rest)) = Some v" for v rest
    by (simp add: dec_enc)
  show "valid v \<Longrightarrow> k < length (enc v) \<Longrightarrow> map_option fst (dec (take k (enc v))) = None" for v k
    by (simp add: dec_truncated)
  show "map_option fst (dec bs) = Some v \<Longrightarrow> valid v" for bs v
    using dec_sound by fastforce
  show "map_option fst (dec bs) = Some v \<Longrightarrow> length (enc v) \<le> length bs" for bs v
    using dec_sound by fastforce
qed

definition dec_map :: "('a \<Rightarrow> 'b) \<Rightarrow> 'a parser \<Rightarrow> 'b parser" where
  "dec_map f d bs = map_option (map_prod f id) (d bs)"

definition dec_pair :: "'a parser \<Rightarrow> 'b parser \<Rightarrow> ('a \<times> 'b) parser" where
  "dec_pair d1 d2 bs =
     (case d1 bs of None \<Rightarrow> None
      | Some (a, r) \<Rightarrow> (case d2 r of None \<Rightarrow> None | Some (b, r') \<Rightarrow> Some ((a, b), r')))"

definition dec_raw :: "nat \<Rightarrow> bytes parser" where
  "dec_raw n bs = (if n \<le> length bs then Some (take n bs, drop n bs) else None)"

lemma codec_map:
  assumes c: "codec e d val"
    and inv: "\<And>a. val a \<Longrightarrow> g (f a) = a"
    and valid: "\<And>b. valid b \<longleftrightarrow> (\<exists>a. b = f a \<and> val a)"
    and enc: "\<And>b. valid b \<Longrightarrow> e' b = e (g b)"
  shows "codec e' (dec_map f d) valid"
proof
  fix v bs rest xs
  show "dec_map f d (e' v @ rest) = Some (v, rest)" if "valid v"
  proof -
    from that valid obtain a where a: "v = f a" "val a" by blast
    with enc that inv have "e' v = e a" by simp
    with a codec.dec_enc [OF c a(2), of rest] show ?thesis by (simp add: dec_map_def)
  qed
  assume ok: "dec_map f d bs = Some (v, rest)"
  then obtain a where a: "d bs = Some (a, rest)" "v = f a" by (auto simp: dec_map_def)
  show "dec_map f d (bs @ xs) = Some (v, rest @ xs)"
    using codec.dec_extend [OF c a(1)] a(2) by (simp add: dec_map_def)
  from codec.dec_sound [OF c a(1)] have val: "val a" and len: "length (e a) + length rest \<le> length bs"
    by auto
  with a(2) valid have v: "valid v" by blast
  with enc inv [OF val] a(2) have "e' v = e a" by simp
  with v len show "valid v \<and> length (e' v) + length rest \<le> length bs" by simp
qed

lemma codec_pair:
  assumes c1: "codec e1 d1 val1" and c2: "codec e2 d2 val2"
  shows "codec (\<lambda>(a, b). e1 a @ e2 b) (dec_pair d1 d2) (\<lambda>(a, b). val1 a \<and> val2 b)"
proof
  fix v bs rest xs
  show "dec_pair d1 d2 ((case v of (a, b) \<Rightarrow> e1 a @ e2 b) @ rest) = Some (v, rest)"
    if "case v of (a, b) \<Rightarrow> val1 a \<and> val2 b"
    using that codec.dec_enc [OF c1] codec.dec_enc [OF c2]
    by (cases v) (auto simp: dec_pair_def)
  assume ok: "dec_pair d1 d2 bs = Some (v, rest)"
  then obtain a b r where r: "d1 bs = Some (a, r)" "d2 r = Some (b, rest)" "v = (a, b)"
    by (auto simp: dec_pair_def split: option.splits prod.splits)
  show "dec_pair d1 d2 (bs @ xs) = Some (v, rest @ xs)"
    using codec.dec_extend [OF c1 r(1)] codec.dec_extend [OF c2 r(2)] r(3)
    by (simp add: dec_pair_def)
  show "(case v of (a, b) \<Rightarrow> val1 a \<and> val2 b) \<and>
      length (case v of (a, b) \<Rightarrow> e1 a @ e2 b) + length rest \<le> length bs"
    using codec.dec_sound [OF c1 r(1)] codec.dec_sound [OF c2 r(2)] r(3) by auto
qed

lemma codec_raw: "codec (\<lambda>bs. bs) (dec_raw n) (\<lambda>bs. length bs = n)"
  by unfold_locales (auto simp: dec_raw_def split: if_splits)

text \<open>A type whose decoder rejects some of what has the right form.\<close>

definition dec_filter :: "('a \<Rightarrow> bool) \<Rightarrow> 'a parser \<Rightarrow> 'a parser" where
  "dec_filter P d bs = (case d bs of None \<Rightarrow> None | Some (v, r) \<Rightarrow> if P v then Some (v, r) else None)"

lemma codec_filter:
  assumes c: "codec e d val"
  shows "codec e (dec_filter P d) (\<lambda>v. val v \<and> P v)"
proof
  fix v bs rest xs
  show "dec_filter P d (e v @ rest) = Some (v, rest)" if "val v \<and> P v"
    using that codec.dec_enc [OF c] by (simp add: dec_filter_def)
  assume "dec_filter P d bs = Some (v, rest)"
  then have ok: "d bs = Some (v, rest)" "P v" by (auto simp: dec_filter_def split: option.splits if_splits)
  show "dec_filter P d (bs @ xs) = Some (v, rest @ xs)"
    using codec.dec_extend [OF c ok(1)] ok(2) by (simp add: dec_filter_def)
  show "(val v \<and> P v) \<and> length (e v) + length rest \<le> length bs"
    using codec.dec_sound [OF c ok(1)] ok(2) by blast
qed

section \<open>Variable-length integers\<close>

fun enc_var :: "nat \<Rightarrow> bytes" where
  "enc_var n = (if n < 128 then [of_nat n] else of_nat (128 + n mod 128) # enc_var (n div 128))"

declare enc_var.simps [simp del]

fun dec_var :: "nat \<Rightarrow> nat parser" where
  "dec_var 0 bs = None"
| "dec_var (Suc k) [] = None"
| "dec_var (Suc k) (b # bs) =
     (if b < 128 then Some (unat b, bs)
      else map_option (\<lambda>(n, r). (unat b - 128 + 128 * n, r)) (dec_var k bs))"

text \<open>An integer below \<open>bound\<close> in at most \<open>k\<close> bytes.\<close>

definition dec_int :: "nat \<Rightarrow> nat \<Rightarrow> nat parser" where
  "dec_int k bound bs =
     (case dec_var k bs of None \<Rightarrow> None | Some (n, r) \<Rightarrow> if n < bound then Some (n, r) else None)"

lemma u8_less_128: "(b :: u8) < 128 \<longleftrightarrow> unat b < 128"
  by (simp add: word_less_nat_alt)

lemma enc_var_small: "n < 128 \<Longrightarrow> enc_var n = [of_nat n]"
  by (subst enc_var.simps) simp

lemma length_enc_var_pos: "0 < length (enc_var n)"
  by (subst enc_var.simps) simp

lemma large_needs_two:
  assumes "(n::nat) < 128 ^ k" "0 < k" "\<not> n < 128"
  obtains j where "k = Suc j" "0 < j"
  using assms by (cases k; cases "k - 1") auto

lemma length_enc_var: "n < 128 ^ k \<Longrightarrow> 0 < k \<Longrightarrow> length (enc_var n) \<le> k"
proof (induction n arbitrary: k rule: enc_var.induct)
  case (1 n)
  show ?case
  proof (cases "n < 128")
    case True
    with "1.prems" show ?thesis by (simp add: enc_var_small)
  next
    case False
    with "1.prems" obtain j where j: "k = Suc j" "0 < j" using large_needs_two by blast
    with "1.prems" have "n div 128 < 128 ^ j" by (simp add: less_mult_imp_div_less mult.commute)
    with "1.IH" False j have "length (enc_var (n div 128)) \<le> j" by blast
    with False j show ?thesis by (subst enc_var.simps) simp
  qed
qed

lemma dec_var_enc_var:
  "n < 128 ^ k \<Longrightarrow> 0 < k \<Longrightarrow> dec_var k (enc_var n @ rest) = Some (n, rest)"
proof (induction n arbitrary: k rule: enc_var.induct)
  case (1 n)
  show ?case
  proof (cases "n < 128")
    case True
    with "1.prems" show ?thesis
      by (cases k) (auto simp: enc_var_small u8_less_128 unat_of_nat_u8)
  next
    case False
    with "1.prems" obtain j where j: "k = Suc j" "0 < j" using large_needs_two by blast
    with "1.prems" have "n div 128 < 128 ^ j" by (simp add: less_mult_imp_div_less mult.commute)
    with "1.IH" False j have IH: "dec_var j (enc_var (n div 128) @ rest) = Some (n div 128, rest)"
      by blast
    have "unat (of_nat (128 + n mod 128) :: u8) = 128 + n mod 128"
      by (simp only: unat_of_nat_u8) simp
    then have "dec_var k (of_nat (128 + n mod 128) # enc_var (n div 128) @ rest) = Some (n, rest)"
      using IH j by (simp add: u8_less_128 del: of_nat_add)
    with False show ?thesis by (subst enc_var.simps) simp
  qed
qed

lemma dec_var_extend: "dec_var k bs = Some (n, rest) \<Longrightarrow> dec_var k (bs @ xs) = Some (n, rest @ xs)"
  by (induction k bs arbitrary: n rule: dec_var.induct) (auto split: if_splits)

lemma dec_var_sound:
  "dec_var k bs = Some (n, rest) \<Longrightarrow> length (enc_var n) + length rest \<le> length bs"
proof (induction k bs arbitrary: n rule: dec_var.induct)
  case (3 k b bs)
  show ?case
  proof (cases "b < 128")
    case True
    with 3 show ?thesis by (auto simp: u8_less_128 enc_var_small)
  next
    case False
    with 3 obtain m where m: "dec_var k bs = Some (m, rest)" "n = unat b - 128 + 128 * m"
      by auto
    have b: "128 \<le> unat b" "unat b < 256" using False unat_less [of b] by (auto simp: u8_less_128)
    with m have "n div 128 = m" "n < 128 \<longrightarrow> m = 0" by auto
    moreover from "3.IH" False m have "length (enc_var m) + length rest \<le> length bs" by auto
    ultimately show ?thesis using length_enc_var_pos [of m]
      by (subst enc_var.simps) auto
  qed
qed auto

lemma codec_int:
  assumes "bound \<le> 128 ^ k" "0 < k"
  shows "codec enc_var (dec_int k bound) (\<lambda>n. n < bound)"
proof
  fix v bs rest xs
  show "dec_int k bound (enc_var v @ rest) = Some (v, rest)" if "v < bound"
    using that assms by (simp add: dec_int_def dec_var_enc_var)
  assume "dec_int k bound bs = Some (v, rest)"
  then have ok: "dec_var k bs = Some (v, rest)" "v < bound"
    by (auto simp: dec_int_def split: option.splits if_splits)
  then show "dec_int k bound (bs @ xs) = Some (v, rest @ xs)"
    using dec_var_extend [OF ok(1)] by (simp add: dec_int_def)
  show "v < bound \<and> length (enc_var v) + length rest \<le> length bs"
    using ok dec_var_sound by blast
qed

section \<open>The types of the protocol\<close>

definition dec_u64 :: "u64 parser" where "dec_u64 = dec_map of_nat (dec_int 10 (2 ^ 64))"
definition dec_u16 :: "u16 parser" where "dec_u16 = dec_map of_nat (dec_int 3 (2 ^ 16))"

definition enc_u64 :: "u64 \<Rightarrow> bytes" where "enc_u64 w = enc_var (unat w)"
definition enc_u16 :: "u16 \<Rightarrow> bytes" where "enc_u16 w = enc_var (unat w)"

lemma word_as_nat: "\<exists>n. (w :: 'a::len word) = of_nat n \<and> n < 2 ^ LENGTH('a)"
  by (rule exI [of _ "unat w"]) (simp add: unat_less)

lemma codec_u64: "codec enc_u64 dec_u64 (\<lambda>_. True)"
  unfolding dec_u64_def
  by (rule codec_map [OF codec_int, where g = unat])
    (simp_all add: enc_u64_def unat_of_nat word_as_nat [where 'a = 64, simplified])

lemma codec_u16: "codec enc_u16 dec_u16 (\<lambda>_. True)"
  unfolding dec_u16_def
  by (rule codec_map [OF codec_int, where g = unat])
    (simp_all add: enc_u16_def unat_of_nat word_as_nat [where 'a = 16, simplified])

definition enc_socket :: "socket_addr_v4 \<Rightarrow> bytes" where
  "enc_socket a = ip_octets (sa_ip a) @ enc_u16 (sa_port a)"

definition dec_socket :: "socket_addr_v4 parser" where
  "dec_socket =
     dec_map (\<lambda>(octets, port). SocketAddrV4 (of_nat (from_be octets)) port)
       (dec_pair (dec_raw 4) dec_u16)"

lemma codec_socket: "codec enc_socket dec_socket (\<lambda>_. True)"
  unfolding dec_socket_def
proof (rule codec_map [OF codec_pair [OF codec_raw codec_u16],
      where g = "\<lambda>a. (ip_octets (sa_ip a), sa_port a)"])
  fix b :: socket_addr_v4
  show "True \<longleftrightarrow> (\<exists>a. b = (case a of (octets, port) \<Rightarrow> SocketAddrV4 (of_nat (from_be octets)) port) \<and>
      (case a of (a, b) \<Rightarrow> length a = 4 \<and> True))"
    by (cases b) (auto intro!: exI [of _ "ip_octets (sa_ip b)"] exI [of _ "sa_port b"]
        simp: from_be_ip_octets)
qed (auto simp: ip_octets_from_be enc_socket_def)

definition enc_vec :: "bytes \<Rightarrow> bytes" where
  "enc_vec bs = enc_var (length bs) @ bs"

definition dec_vec :: "bytes parser" where
  "dec_vec bs = (case dec_int 10 (2 ^ 64) bs of None \<Rightarrow> None | Some (n, r) \<Rightarrow> dec_raw n r)"

lemma codec_vec: "codec enc_vec dec_vec (\<lambda>bs. length bs < 2 ^ 64)"
proof
  have c: "codec enc_var (dec_int 10 (2 ^ 64)) (\<lambda>n. n < 2 ^ 64)" by (rule codec_int) simp_all
  fix v bs rest xs
  show "dec_vec (enc_vec v @ rest) = Some (v, rest)" if "length v < 2 ^ 64"
    using codec.dec_enc [OF c that] by (simp add: dec_vec_def enc_vec_def dec_raw_def)
  assume "dec_vec bs = Some (v, rest)"
  then obtain r where r: "dec_int 10 (2 ^ 64) bs = Some (length v, r)" "r = v @ rest"
    by (auto simp: dec_vec_def dec_raw_def split: option.splits prod.splits if_splits)
  show "dec_vec (bs @ xs) = Some (v, rest @ xs)"
    using codec.dec_extend [OF c r(1), of xs] r(2) by (simp add: dec_vec_def dec_raw_def)
  show "length v < 2 ^ 64 \<and> length (enc_vec v) + length rest \<le> length bs"
    using codec.dec_sound [OF c r(1)] r(2) by (simp add: enc_vec_def)
qed

definition enc_option :: "('a \<Rightarrow> bytes) \<Rightarrow> 'a option \<Rightarrow> bytes" where
  "enc_option e v = (case v of None \<Rightarrow> [0] | Some a \<Rightarrow> 1 # e a)"

fun dec_option :: "'a parser \<Rightarrow> 'a option parser" where
  "dec_option d [] = None"
| "dec_option d (b # bs) =
     (if b = 0 then Some (None, bs)
      else if b = 1 then map_option (map_prod Some id) (d bs) else None)"

lemma codec_option:
  assumes c: "codec e d val"
  shows "codec (enc_option e) (dec_option d) (\<lambda>v. case v of None \<Rightarrow> True | Some a \<Rightarrow> val a)"
proof
  fix v bs rest xs
  show "dec_option d (enc_option e v @ rest) = Some (v, rest)"
    if "case v of None \<Rightarrow> True | Some a \<Rightarrow> val a"
    using that codec.dec_enc [OF c] by (cases v) (auto simp: enc_option_def)
  assume ok: "dec_option d bs = Some (v, rest)"
  then show "dec_option d (bs @ xs) = Some (v, rest @ xs)"
    using codec.dec_extend [OF c] by (cases bs) (auto split: if_splits)
  show "(case v of None \<Rightarrow> True | Some a \<Rightarrow> val a) \<and>
      length (enc_option e v) + length rest \<le> length bs"
    using ok codec.dec_sound [OF c]
    by (cases bs) (auto simp: enc_option_def split: if_splits)
qed

text \<open>An enum: the variant's index, then the variant's fields.\<close>

definition dec_enum :: "'a parser list \<Rightarrow> 'a parser" where
  "dec_enum ps bs =
     (case dec_int 5 (2 ^ 32) bs of None \<Rightarrow> None
      | Some (i, r) \<Rightarrow> if i < length ps then (ps ! i) r else None)"

lemma codec_enum:
  assumes variants: "\<And>i. i < length ps \<Longrightarrow> codec body (ps ! i) (\<lambda>v. valid v \<and> idx v = i)"
    and idx: "\<And>v. valid v \<Longrightarrow> idx v < length ps" and few: "length ps \<le> 128"
    and enc: "\<And>v. valid v \<Longrightarrow> e v = enc_var (idx v) @ body v"
  shows "codec e (dec_enum ps) valid"
proof
  have c: "codec enc_var (dec_int 5 (2 ^ 32)) (\<lambda>n. n < 2 ^ 32)" by (rule codec_int) simp_all
  fix v bs rest xs
  show "dec_enum ps (e v @ rest) = Some (v, rest)" if v: "valid v"
  proof -
    have "idx v < length ps" "idx v < 2 ^ 32" using idx [OF v] few by auto
    then show ?thesis
      using enc [OF v] codec.dec_enc [OF c] codec.dec_enc [OF variants, of "idx v" v rest] v
      by (simp add: dec_enum_def)
  qed
  assume "dec_enum ps bs = Some (v, rest)"
  then obtain i r where r: "dec_int 5 (2 ^ 32) bs = Some (i, r)" "i < length ps"
      "(ps ! i) r = Some (v, rest)"
    by (auto simp: dec_enum_def split: option.splits prod.splits if_splits)
  show "dec_enum ps (bs @ xs) = Some (v, rest @ xs)"
    using codec.dec_extend [OF c r(1), of xs] codec.dec_extend [OF variants [OF r(2)] r(3), of xs] r(2)
    by (simp add: dec_enum_def)
  show "valid v \<and> length (e v) + length rest \<le> length bs"
    using codec.dec_sound [OF c r(1)] codec.dec_sound [OF variants [OF r(2)] r(3)] enc by auto
qed

section \<open>The protocol's messages\<close>

fun request_v1_tag :: "request_v1 \<Rightarrow> nat" where
  "request_v1_tag (Prepare tx padding) = 0"
| "request_v1_tag (Put tx token value) = 1"
| "request_v1_tag (Get tx addr) = 2"

lemma request_v1_tag_less: "request_v1_tag r < Suc (Suc (Suc 0))"
  by (cases r) auto

fun request_v1_body :: "request_v1 \<Rightarrow> bytes" where
  "request_v1_body (Prepare tx padding) = enc_u64 tx @ padding"
| "request_v1_body (Put tx token value) = enc_u64 tx @ token @ enc_vec value"
| "request_v1_body (Get tx addr) = enc_u64 tx @ enc_socket addr"

definition dec_request_v1 :: "request_v1 parser" where
  "dec_request_v1 = dec_enum
     [dec_map (\<lambda>(tx, padding). Prepare tx padding) (dec_pair dec_u64 (dec_raw 24)),
      dec_map (\<lambda>(tx, token, value). Put tx token value)
        (dec_pair dec_u64 (dec_pair (dec_raw 16) dec_vec)),
      dec_map (\<lambda>(tx, addr). Get tx addr) (dec_pair dec_u64 dec_socket)]"

definition request_v1_valid :: "request_v1 \<Rightarrow> bool" where
  "request_v1_valid r \<longleftrightarrow> proto_valid (Request (ReqV1 r))"

lemma codec_request_v1:
  "codec (\<lambda>r. enc_var (request_v1_tag r) @ request_v1_body r) dec_request_v1 request_v1_valid"
  unfolding dec_request_v1_def
proof (rule codec_enum [where body = request_v1_body and idx = request_v1_tag])
  fix i
  assume i: "i < length
     [dec_map (\<lambda>(tx, padding). Prepare tx padding) (dec_pair dec_u64 (dec_raw 24)),
      dec_map (\<lambda>(tx, token, value). Put tx token value)
        (dec_pair dec_u64 (dec_pair (dec_raw 16) dec_vec)),
      dec_map (\<lambda>(tx, addr). Get tx addr) (dec_pair dec_u64 dec_socket)]"
  have "codec request_v1_body
      (dec_map (\<lambda>(tx, padding). Prepare tx padding) (dec_pair dec_u64 (dec_raw 24)))
      (\<lambda>v. request_v1_valid v \<and> request_v1_tag v = 0)"
    by (rule codec_map [OF codec_pair [OF codec_u64 codec_raw],
          where g = "\<lambda>v. (rq_tx v, rq_padding v)"])
      (auto simp: request_v1_valid_def elim!: request_v1_tag.elims)
  moreover have "codec request_v1_body
      (dec_map (\<lambda>(tx, token, value). Put tx token value)
        (dec_pair dec_u64 (dec_pair (dec_raw 16) dec_vec)))
      (\<lambda>v. request_v1_valid v \<and> request_v1_tag v = 1)"
    by (rule codec_map [OF codec_pair [OF codec_u64 codec_pair [OF codec_raw codec_vec]],
          where g = "\<lambda>v. (rq_tx v, rq_token v, rq_value v)"])
      (auto simp: request_v1_valid_def elim!: request_v1_tag.elims)
  moreover have "codec request_v1_body
      (dec_map (\<lambda>(tx, addr). Get tx addr) (dec_pair dec_u64 dec_socket))
      (\<lambda>v. request_v1_valid v \<and> request_v1_tag v = 2)"
    by (rule codec_map [OF codec_pair [OF codec_u64 codec_socket],
          where g = "\<lambda>v. (rq_tx v, rq_addr v)"])
      (auto simp: request_v1_valid_def elim!: request_v1_tag.elims)
  ultimately show "codec request_v1_body ([dec_map (\<lambda>(tx, padding). Prepare tx padding)
        (dec_pair dec_u64 (dec_raw 24)),
      dec_map (\<lambda>(tx, token, value). Put tx token value)
        (dec_pair dec_u64 (dec_pair (dec_raw 16) dec_vec)),
      dec_map (\<lambda>(tx, addr). Get tx addr) (dec_pair dec_u64 dec_socket)] ! i)
      (\<lambda>v. request_v1_valid v \<and> request_v1_tag v = i)"
    using i by (auto simp: less_Suc_eq numeral_2_eq_2)
qed (use request_v1_tag_less in auto)

fun response_v1_tag :: "response_v1 \<Rightarrow> nat" where
  "response_v1_tag (Prepared tx addr token) = 0"
| "response_v1_tag (Stored tx addr) = 1"
| "response_v1_tag (Value tx addr value) = 2"

lemma response_v1_tag_less: "response_v1_tag r < Suc (Suc (Suc 0))"
  by (cases r) auto

fun response_v1_body :: "response_v1 \<Rightarrow> bytes" where
  "response_v1_body (Prepared tx addr token) = enc_u64 tx @ enc_socket addr @ token"
| "response_v1_body (Stored tx addr) = enc_u64 tx @ enc_socket addr"
| "response_v1_body (Value tx addr value) = enc_u64 tx @ enc_socket addr @ enc_option enc_vec value"

definition dec_response_v1 :: "response_v1 parser" where
  "dec_response_v1 = dec_enum
     [dec_map (\<lambda>(tx, addr, token). Prepared tx addr token)
        (dec_pair dec_u64 (dec_pair dec_socket (dec_raw 16))),
      dec_map (\<lambda>(tx, addr). Stored tx addr) (dec_pair dec_u64 dec_socket),
      dec_map (\<lambda>(tx, addr, value). Value tx addr value)
        (dec_pair dec_u64 (dec_pair dec_socket (dec_option dec_vec)))]"

definition response_v1_valid :: "response_v1 \<Rightarrow> bool" where
  "response_v1_valid r \<longleftrightarrow> proto_valid (Response (RespV1 r))"

lemma codec_response_v1:
  "codec (\<lambda>r. enc_var (response_v1_tag r) @ response_v1_body r) dec_response_v1 response_v1_valid"
  unfolding dec_response_v1_def
proof (rule codec_enum [where body = response_v1_body and idx = response_v1_tag])
  fix i
  assume i: "i < length
     [dec_map (\<lambda>(tx, addr, token). Prepared tx addr token)
        (dec_pair dec_u64 (dec_pair dec_socket (dec_raw 16))),
      dec_map (\<lambda>(tx, addr). Stored tx addr) (dec_pair dec_u64 dec_socket),
      dec_map (\<lambda>(tx, addr, value). Value tx addr value)
        (dec_pair dec_u64 (dec_pair dec_socket (dec_option dec_vec)))]"
  have "codec response_v1_body
      (dec_map (\<lambda>(tx, addr, token). Prepared tx addr token)
        (dec_pair dec_u64 (dec_pair dec_socket (dec_raw 16))))
      (\<lambda>v. response_v1_valid v \<and> response_v1_tag v = 0)"
    by (rule codec_map [OF codec_pair [OF codec_u64 codec_pair [OF codec_socket codec_raw]],
          where g = "\<lambda>v. (rs_tx v, rs_addr v, rs_token v)"])
      (auto simp: response_v1_valid_def elim!: response_v1_tag.elims)
  moreover have "codec response_v1_body
      (dec_map (\<lambda>(tx, addr). Stored tx addr) (dec_pair dec_u64 dec_socket))
      (\<lambda>v. response_v1_valid v \<and> response_v1_tag v = 1)"
    by (rule codec_map [OF codec_pair [OF codec_u64 codec_socket],
          where g = "\<lambda>v. (rs_tx v, rs_addr v)"])
      (auto simp: response_v1_valid_def elim!: response_v1_tag.elims)
  moreover have "codec response_v1_body
      (dec_map (\<lambda>(tx, addr, value). Value tx addr value)
        (dec_pair dec_u64 (dec_pair dec_socket (dec_option dec_vec))))
      (\<lambda>v. response_v1_valid v \<and> response_v1_tag v = 2)"
    by (rule codec_map [OF codec_pair [OF codec_u64 codec_pair [OF codec_socket
            codec_option [OF codec_vec]]], where g = "\<lambda>v. (rs_tx v, rs_addr v, rs_value v)"])
      (auto simp: response_v1_valid_def simp del: power_numeral elim!: response_v1_tag.elims)
  ultimately show "codec response_v1_body ([dec_map (\<lambda>(tx, addr, token). Prepared tx addr token)
        (dec_pair dec_u64 (dec_pair dec_socket (dec_raw 16))),
      dec_map (\<lambda>(tx, addr). Stored tx addr) (dec_pair dec_u64 dec_socket),
      dec_map (\<lambda>(tx, addr, value). Value tx addr value)
        (dec_pair dec_u64 (dec_pair dec_socket (dec_option dec_vec)))] ! i)
      (\<lambda>v. response_v1_valid v \<and> response_v1_tag v = i)"
    using i by (auto simp: less_Suc_eq numeral_2_eq_2)
qed (use response_v1_tag_less in auto)

text \<open>\<open>Request\<close> and \<open>Response\<close> have one variant each; \<open>Proto\<close> chooses between them.\<close>

fun proto_tag :: "proto \<Rightarrow> nat" where
  "proto_tag (Request r) = 0"
| "proto_tag (Response r) = 1"

fun proto_body :: "proto \<Rightarrow> bytes" where
  "proto_body (Request (ReqV1 r)) = 0 # enc_var (request_v1_tag r) @ request_v1_body r"
| "proto_body (Response (RespV1 r)) = 0 # enc_var (response_v1_tag r) @ response_v1_body r"

definition proto_ser :: "proto \<Rightarrow> bytes" where
  "proto_ser p = enc_var (proto_tag p) @ proto_body p"

definition dec_proto :: "proto parser" where
  "dec_proto = dec_enum
     [dec_enum [dec_map (\<lambda>r. Request (ReqV1 r)) dec_request_v1],
      dec_enum [dec_map (\<lambda>r. Response (RespV1 r)) dec_response_v1]]"

definition proto_de :: "bytes \<Rightarrow> proto option" where
  "proto_de bs = map_option fst (dec_proto bs)"

lemma enc_var_0: "enc_var 0 = [0]"
  by (simp add: enc_var_small)

lemma codec_one_variant:
  assumes c: "codec e d val"
    and inj: "\<And>a. g (f a) = a" and valid: "\<And>b. valid b \<longleftrightarrow> (\<exists>a. b = f a \<and> val a)"
    and enc: "\<And>b. valid b \<Longrightarrow> e' b = 0 # e (g b)"
  shows "codec e' (dec_enum [dec_map f d]) valid"
proof (rule codec_enum [where body = "\<lambda>b. e (g b)" and idx = "\<lambda>_. 0"])
  have "codec (\<lambda>b. e (g b)) (dec_map f d) valid"
    by (rule codec_map [OF c, where g = g]) (use inj valid in auto)
  then show "codec (\<lambda>b. e (g b)) ([dec_map f d] ! i) (\<lambda>v. valid v \<and> 0 = i)"
    if "i < length [dec_map f d]" for i
    using that by simp
qed (use enc enc_var_0 in auto)

fun is_request :: "proto \<Rightarrow> bool" where
  "is_request (Request r) = True"
| "is_request (Response r) = False"

lemma codec_request:
  "codec proto_body (dec_enum [dec_map (\<lambda>r. Request (ReqV1 r)) dec_request_v1])
     (\<lambda>p. proto_valid p \<and> proto_tag p = 0)"
proof (rule codec_one_variant [OF codec_request_v1,
      where g = "\<lambda>p. case p of Request (ReqV1 r) \<Rightarrow> r"])
  fix b
  show "proto_valid b \<and> proto_tag b = 0 \<longleftrightarrow> (\<exists>a. b = Request (ReqV1 a) \<and> request_v1_valid a)"
    by (cases b rule: proto_body.cases) (auto simp: request_v1_valid_def)
  show "proto_valid b \<and> proto_tag b = 0 \<Longrightarrow> proto_body b =
      0 # enc_var (request_v1_tag (case b of Request (ReqV1 r) \<Rightarrow> r)) @
        request_v1_body (case b of Request (ReqV1 r) \<Rightarrow> r)"
    by (cases b rule: proto_body.cases) auto
qed simp

lemma codec_response:
  "codec proto_body (dec_enum [dec_map (\<lambda>r. Response (RespV1 r)) dec_response_v1])
     (\<lambda>p. proto_valid p \<and> proto_tag p = 1)"
proof (rule codec_one_variant [OF codec_response_v1,
      where g = "\<lambda>p. case p of Response (RespV1 r) \<Rightarrow> r"])
  fix b
  show "proto_valid b \<and> proto_tag b = 1 \<longleftrightarrow> (\<exists>a. b = Response (RespV1 a) \<and> response_v1_valid a)"
    by (cases b rule: proto_body.cases) (auto simp: response_v1_valid_def)
  show "proto_valid b \<and> proto_tag b = 1 \<Longrightarrow> proto_body b =
      0 # enc_var (response_v1_tag (case b of Response (RespV1 r) \<Rightarrow> r)) @
        response_v1_body (case b of Response (RespV1 r) \<Rightarrow> r)"
    by (cases b rule: proto_body.cases) auto
qed simp

lemma proto_tag_less: "proto_tag p < Suc (Suc 0)"
  by (cases p) auto

interpretation pf: codec proto_ser dec_proto proto_valid
  unfolding dec_proto_def
proof (rule codec_enum [where body = proto_body and idx = proto_tag])
  let ?rq = "dec_enum [dec_map (\<lambda>r. Request (ReqV1 r)) dec_request_v1]"
  let ?rs = "dec_enum [dec_map (\<lambda>r. Response (RespV1 r)) dec_response_v1]"
  show "codec proto_body ([?rq, ?rs] ! i) (\<lambda>v. proto_valid v \<and> proto_tag v = i)"
    if "i < length [?rq, ?rs]" for i
    using that codec_request codec_response by (auto simp: less_Suc_eq numeral_2_eq_2)
qed (use proto_tag_less in \<open>auto simp: proto_ser_def\<close>)

lemma proto_wire_sizes:
  "proto_wire_axioms proto_ser (\<lambda>n. length (enc_var n))"
  by (unfold_locales)
    (auto simp: proto_ser_def enc_var_small
      enc_u64_def enc_u16_def enc_socket_def enc_vec_def enc_option_def
      split: option.splits intro: length_enc_var)

interpretation wire: proto_wire proto_ser proto_de "\<lambda>n. length (enc_var n)"
proof (rule proto_wire.intro)
  have "proto_de = (\<lambda>bs. map_option fst (dec_proto bs))" by (simp add: fun_eq_iff proto_de_def)
  then show "postcard proto_ser proto_de proto_valid"
    using pf.pc.postcard_axioms by simp
qed (rule proto_wire_sizes)

end
