(* ===== verification/Wire_Correct.thy ===== *)
theory Wire_Correct
  imports Postcard_Format
begin

text \<open>
  Correctness of the datagram framing of \<open>udp-addr-index-proto\<close>: every message the protocol
  can produce fits a datagram and is read back, in its direction, exactly; a datagram that lost
  bytes is never read as a message; a \<open>Get\<close> only counts at the full datagram size. The
  theorems hold for any serializer with the laws of \<open>proto_wire\<close>; the witnesses use the
  published postcard format.
\<close>

context proto_wire
begin

lemma encode_total:
  assumes "proto_valid p" "value_bounded p"
  shows "proto_encode ser p = Inr (MAGIC @ ser p @
    (if is_padded p then replicate (MAX_DGRAM - (8 + length (ser p))) 0 else []))"
  using ser_bounded [OF assms] by (simp add: proto_encode_Inr MAX_DGRAM_def)

lemma decode_encode:
  assumes "proto_valid p" "proto_encode ser p = Inr d"
  shows "proto_decode de d = Some p"
  using proto_encode_length [OF assms(2)] assms de_ser
  by (auto simp: proto_encode_Inr proto_decode_Some)

lemma decode_truncated:
  assumes p: "proto_valid p" and d: "proto_encode ser p = Inr d" and k: "k < length d"
  shows "proto_decode de (take k d) = None"
proof (rule ccontr)
  assume "proto_decode de (take k d) \<noteq> None"
  then obtain q where "proto_decode de (take k d) = Some q" by auto
  then obtain body where b: "take k d = MAGIC @ body" "de body = Some q"
      and q: "is_padded q \<longrightarrow> length (take k d) = MAX_DGRAM"
    unfolding proto_decode_Some by blast
  define pad where
    "pad = (if is_padded p then replicate (MAX_DGRAM - (8 + length (ser p))) (0 :: u8) else [])"
  have d': "d = MAGIC @ ser p @ pad" using d by (simp add: proto_encode_Inr pad_def)
  have "8 \<le> k" using arg_cong [OF b(1), of length] k by simp
  then have body: "body = take (k - 8) (ser p @ pad)" using b(1) d' by simp
  show False
  proof (cases "k - 8 < length (ser p)")
    case True
    with b(2) body de_truncated_padded [OF p True] show False by simp
  next
    case False
    then have "body = ser p @ take (k - 8 - length (ser p)) pad" using body by simp
    with b(2) de_ser [OF p] have "q = p" by simp
    moreover have "is_padded p"
      using False k d' \<open>8 \<le> k\<close> by (auto simp: pad_def split: if_splits)
    ultimately show False using q k proto_encode_length(1) [OF d] by simp
  qed
qed

end

section \<open>Properties\<close>

text \<open>
  C1: every message whose value respects the limit is encoded, the datagram is at most 1200
  bytes, begins with the discriminator (so its first byte is not the \<open>d\<close> of a DHT message),
  and decoding it gives that message and no other: requests and responses are never
  confused.
\<close>

theorem proto_roundtrip:
  assumes "proto_wire ser de vlen" "proto_valid p" "value_bounded p"
  shows "\<exists>d. proto_encode ser p = Inr d \<and> length d \<le> MAX_DGRAM \<and> starts_with d MAGIC \<and>
    hd d \<noteq> 100 \<and> proto_decode de d = Some p"
proof -
  from proto_wire.encode_total [OF assms] obtain d where d: "proto_encode ser p = Inr d"
    by blast
  moreover have "hd d \<noteq> 100" using d by (auto simp: proto_encode_Inr MAGIC_def)
  ultimately show ?thesis
    using proto_wire.decode_encode [OF assms(1,2) d] proto_encode_length(1) [OF d]
      proto_encode_starts_with_magic [OF d] by blast
qed

lemma proto_roundtrip_witness:
  "\<exists>d. proto_encode proto_ser (Request (ReqV1 (Put 7 (replicate 16 1) [1, 2, 3]))) = Inr d \<and>
     length d \<le> MAX_DGRAM \<and> starts_with d MAGIC \<and> hd d \<noteq> 100 \<and>
     proto_decode proto_de d = Some (Request (ReqV1 (Put 7 (replicate 16 1) [1, 2, 3])))"
  by (rule proto_roundtrip [OF wire.proto_wire_axioms]) (simp_all add: MAX_VALUE_LEN_def)

text \<open>
  C2: no proper prefix of an encoded message is read as a message, neither as the message that
  was cut short nor as another one. For a padded \<open>Get\<close> this includes every prefix that still
  holds the whole request: only the full 1200 bytes count.
\<close>

theorem proto_truncated:
  assumes "proto_wire ser de vlen" "proto_valid p" "proto_encode ser p = Inr d" "k < length d"
  shows "proto_decode de (take k d) = None"
  using assms by (rule proto_wire.decode_truncated)

definition witness_get :: proto where
  "witness_get = Request (ReqV1 (Get 9 (SocketAddrV4 1 2)))"

lemma proto_truncated_witness:
  "\<exists>d. proto_encode proto_ser witness_get = Inr d \<and> length d = 1200 \<and>
     proto_decode proto_de (take 1199 d) = None"
proof -
  have v: "proto_valid witness_get" "value_bounded witness_get" "is_padded witness_get"
    by (simp_all add: witness_get_def)
  obtain d where d: "proto_encode proto_ser witness_get = Inr d"
    using wire.encode_total v(1,2) by blast
  have "length d = 1200" using proto_encode_length(2) [OF d v(3)] by (simp add: MAX_DGRAM_def)
  with d proto_truncated [OF wire.proto_wire_axioms v(1) d, of 1199] show ?thesis by simp
qed

text \<open>
  C3: what the decoder accepts. A decoded datagram is at most 1200 bytes, carries the
  discriminator, holds a well-formed message, and a \<open>Get\<close> fills the whole datagram. The
  message can be encoded again, and its datagram is not longer than the received one.
\<close>

theorem proto_decode_sound:
  assumes "proto_wire ser de vlen" "proto_decode de data = Some p"
  shows "length data \<le> MAX_DGRAM \<and> starts_with data MAGIC \<and> proto_valid p \<and>
    (is_padded p \<longrightarrow> length data = MAX_DGRAM) \<and>
    (\<exists>d. proto_encode ser p = Inr d \<and> length d \<le> length data)"
proof -
  from assms(1) have pc: "postcard ser de proto_valid" by (rule proto_wire.axioms(1))
  from assms(2) obtain body where b: "data = MAGIC @ body" "de body = Some p"
      and l: "length data \<le> MAX_DGRAM" "is_padded p \<longrightarrow> length data = MAX_DGRAM"
    by (auto simp: proto_decode_Some)
  have "length (ser p) \<le> length body" using postcard.de_length [OF pc b(2)] .
  then obtain d where d: "proto_encode ser p = Inr d"
    using l(1) b(1) by (auto simp: proto_encode_Inr MAX_DGRAM_def)
  have "length d \<le> length data"
    using proto_encode_length [OF d] l(2) \<open>length (ser p) \<le> length body\<close> b(1)
    by (cases "is_padded p") auto
  with d l b postcard.de_valid [OF pc b(2)] show ?thesis by auto
qed

lemma proto_decode_sound_witness:
  "\<exists>data. proto_decode proto_de data = Some witness_get \<and>
     length data = MAX_DGRAM \<and> (\<exists>d. proto_encode proto_ser witness_get = Inr d \<and> length d \<le> length data)"
proof -
  have v: "proto_valid witness_get" "value_bounded witness_get" "is_padded witness_get"
    by (simp_all add: witness_get_def)
  obtain d where d: "proto_encode proto_ser witness_get = Inr d"
    using wire.encode_total v(1,2) by blast
  from wire.decode_encode [OF v(1) d] have ok: "proto_decode proto_de d = Some witness_get" .
  from proto_decode_sound [OF wire.proto_wire_axioms ok] v(3) ok show ?thesis by blast
qed

end
