(* ===== verification/Server.thy ===== *)
theory Server
  imports Store_Spec Rate_Limit Wire_Correct
begin

text \<open>
  The address index server: \<open>udp-addr-index/src/lib.rs\<close> (tokens, local access, rate limit),
  \<open>metrics.rs\<close>, and \<open>udp.rs\<close> (the datagram hook with its bounded queue, the packet handler, the
  service loop, the announcement loop and how the tasks' ends are reported).

  The hash functions, the serializer and the rounding of \<open>f64\<close> come from outside the
  repository or below it and are the fields of the record \<open>externals\<close>. The clocks a
  handler reads are arguments: \<open>now\<close> and \<open>now'\<close> are the two readings of the wall clock, \<open>inst\<close>
  and \<open>inst'\<close> those of the monotonic clock.
\<close>

section \<open>State\<close>

record externals =
  keyed_hash :: "bytes \<Rightarrow> bytes \<Rightarrow> bytes"
  ip_hash :: "ipv4_addr \<Rightarrow> u64"
  round_f64 :: "rat \<Rightarrow> rat"
  serialize :: "proto \<Rightarrow> bytes"
  deserialize :: "bytes \<Rightarrow> proto option"

record metrics =
  prepares :: u64
  puts :: u64
  gets :: u64
  get_hits :: u64
  invalid_tokens :: u64
  rate_limited :: u64
  rejected_puts :: u64
  queue_drops :: u64
  retained :: int

definition metrics_default :: metrics where
  "metrics_default = \<lparr>prepares = 0, puts = 0, gets = 0, get_hits = 0, invalid_tokens = 0,
     rate_limited = 0, rejected_puts = 0, queue_drops = 0, retained = 0\<rparr>"

record server =
  sv_store :: store
  sv_limits :: limits
  sv_rate :: rate_limiters
  token_key :: bytes
  sv_metrics :: metrics

definition server_new :: "limits \<Rightarrow> bytes \<Rightarrow> instant \<Rightarrow> server" where
  "server_new l key now =
     \<lparr>sv_store = store_new, sv_limits = l, sv_rate = rate_limiters_default now,
      token_key = key, sv_metrics = metrics_default\<rparr>"

text \<open>\<open>metrics().<counter>.inc()\<close> and \<open>metrics.entries.set(store.len())\<close>.\<close>

definition count :: "(metrics \<Rightarrow> metrics) \<Rightarrow> server \<Rightarrow> server" where
  "count f s = s\<lparr>sv_metrics := f (sv_metrics s)\<rparr>"

definition put_local :: "socket_addr_v4 \<Rightarrow> bytes \<Rightarrow> u64 \<Rightarrow> server \<Rightarrow> (put_error + unit) \<times> server" where
  "put_local addr value now s =
     (let (result, st) = put addr value now (sv_limits s) (sv_store s);
          s = s\<lparr>sv_store := st\<rparr>
      in (result, count (retained_update (\<lambda>_. int (store_len st))) s))"

definition get_local :: "socket_addr_v4 \<Rightarrow> u64 \<Rightarrow> server \<Rightarrow> bytes option \<times> server" where
  "get_local addr now s =
     (let (result, st) = store_get addr now (sv_store s);
          s = s\<lparr>sv_store := st\<rparr>
      in (result, count (retained_update (\<lambda>_. int (store_len st))) s))"

section \<open>Write tokens\<close>

definition TOKEN_DOMAIN :: bytes where
  "TOKEN_DOMAIN = ascii ''udp-addr-index-token-v1''"

definition token_bucket :: "server \<Rightarrow> u64 \<Rightarrow> u64" where
  "token_bucket s now = now div max (token_bucket_secs (sv_limits s)) 1"

definition token_input :: "socket_addr_v4 \<Rightarrow> u64 \<Rightarrow> bytes" where
  "token_input addr b = TOKEN_DOMAIN @ ip_octets (sa_ip addr) @ u16_be (sa_port addr) @ u64_be b"

definition token_for :: "externals \<Rightarrow> server \<Rightarrow> socket_addr_v4 \<Rightarrow> u64 \<Rightarrow> token" where
  "token_for x s addr b = take 16 (keyed_hash x (token_key s) (token_input addr b))"

definition issue_token :: "externals \<Rightarrow> server \<Rightarrow> socket_addr_v4 \<Rightarrow> u64 \<Rightarrow> token" where
  "issue_token x s addr now = token_for x s addr (token_bucket s now)"

definition token_eq :: "token \<Rightarrow> token \<Rightarrow> bool" where
  "token_eq left right \<longleftrightarrow>
     foldl (\<lambda>difference (l, r). or difference (xor l r)) 0 (zip left right) = 0"

definition verify_token :: "externals \<Rightarrow> server \<Rightarrow> socket_addr_v4 \<Rightarrow> token \<Rightarrow> u64 \<Rightarrow> bool" where
  "verify_token x s addr token now =
     (let b = token_bucket s now in
      token_eq (token_for x s addr b) token \<or>
      (case checked_sub b 1 of
         None \<Rightarrow> False
       | Some previous \<Rightarrow> token_eq (token_for x s addr previous) token))"

definition allow_request :: "externals \<Rightarrow> ipv4_addr \<Rightarrow> instant \<Rightarrow> instant \<Rightarrow> server \<Rightarrow> bool \<times> server" where
  "allow_request x ip inst inst' s =
     (let (ok, r) = allow (round_f64 x) (ip_hash x) (sv_limits s) ip inst inst' (sv_rate s)
      in (ok, s\<lparr>sv_rate := r\<rparr>))"

section \<open>The packet handler\<close>

text \<open>
  A packet is dropped or answered with a datagram to its sender. \<open>Panicked\<close> is the
  \<open>expect("bounded response")\<close> of the encoder.
\<close>

datatype outcome = Silent | Reply bytes socket_addr_v4 | Panicked

record clocks =
  unix_now :: u64
  unix_now' :: u64
  inst :: instant
  inst' :: instant

fun handle_request :: "externals \<Rightarrow> clocks \<Rightarrow> socket_addr_v4 \<Rightarrow> request_v1 \<Rightarrow> server \<Rightarrow>
    response_v1 option \<times> server" where
  "handle_request x c from (Prepare tx padding) s =
     (let (ok, s) = allow_request x (sa_ip from) (inst c) (inst' c) s in
      if \<not> ok then (None, count (\<lambda>m. m\<lparr>rate_limited := rate_limited m + 1\<rparr>) s)
      else
        (let s = count (\<lambda>m. m\<lparr>prepares := prepares m + 1\<rparr>) s
         in (Some (Prepared tx from (issue_token x s from (unix_now c))), s)))"
| "handle_request x c from (Put tx token value) s =
     (if \<not> verify_token x s from token (unix_now c) then
        (None, count (\<lambda>m. m\<lparr>invalid_tokens := invalid_tokens m + 1\<rparr>) s)
      else
        (let (ok, s) = allow_request x (sa_ip from) (inst c) (inst' c) s in
         if \<not> ok then (None, count (\<lambda>m. m\<lparr>rate_limited := rate_limited m + 1\<rparr>) s)
         else
           (let (result, s) = put_local from value (unix_now' c) s in
            case result of
              Inl err \<Rightarrow> (None, count (\<lambda>m. m\<lparr>rejected_puts := rejected_puts m + 1\<rparr>) s)
            | Inr _ \<Rightarrow>
                (Some (Stored tx from), count (\<lambda>m. m\<lparr>puts := puts m + 1\<rparr>) s))))"
| "handle_request x c from (Get tx addr) s =
     (let (ok, s) = allow_request x (sa_ip from) (inst c) (inst' c) s in
      if \<not> ok then (None, count (\<lambda>m. m\<lparr>rate_limited := rate_limited m + 1\<rparr>) s)
      else
        (let s = count (\<lambda>m. m\<lparr>gets := gets m + 1\<rparr>) s;
             (value, s) = get_local addr (unix_now' c) s;
             s = (if value \<noteq> None then count (\<lambda>m. m\<lparr>get_hits := get_hits m + 1\<rparr>) s else s)
         in (Some (Value tx addr value), s)))"

definition handle_packet :: "externals \<Rightarrow> clocks \<Rightarrow> bytes \<Rightarrow> socket_addr_v4 \<Rightarrow> server \<Rightarrow> outcome \<times> server" where
  "handle_packet x c data from s =
     (if data = [] \<or> length data > MAX_DGRAM then (Silent, s)
      else case proto_decode (deserialize x) data of
        Some (Request (ReqV1 request)) \<Rightarrow>
          (let (response, s) = handle_request x c from request s in
           case response of
             None \<Rightarrow> (Silent, s)
           | Some r \<Rightarrow>
               (case proto_encode (serialize x) (Response (RespV1 r)) of
                  Inl err \<Rightarrow> (Panicked, s)
                | Inr out \<Rightarrow> (Reply out from, s)))
      | _ \<Rightarrow> (Silent, s))"

section \<open>Attaching to the shared socket\<close>

text \<open>
  The datagram hook runs for every datagram of the shared socket and says whether it consumed
  it. The channel holds 256 datagrams; \<open>closed\<close> when the service task has ended.
\<close>

record service =
  channel :: "(bytes \<times> socket_addr_v4) list"
  closed :: bool
  sv :: server

definition QUEUE_CAPACITY :: usize where "QUEUE_CAPACITY = 256"

definition server_hook :: "bytes \<Rightarrow> socket_addr_v4 \<Rightarrow> service \<Rightarrow> bool \<times> service" where
  "server_hook data from v =
     (if \<not> starts_with data MAGIC then (False, v)
      else if length data > MAX_DGRAM then (True, v)
      else if closed v then (False, v)
      else if length (channel v) < QUEUE_CAPACITY then (True, v\<lparr>channel := channel v @ [(data, from)]\<rparr>)
      else (True, v\<lparr>sv := count (\<lambda>m. m\<lparr>queue_drops := queue_drops m + 1\<rparr>) (sv v)\<rparr>))"

text \<open>
  One turn of the service task: receive, handle, send. The task ends, and the channel closes,
  when the transport refuses the reply or the handler panics.
\<close>

definition serve_next :: "externals \<Rightarrow> clocks \<Rightarrow> bool \<Rightarrow> service \<Rightarrow> outcome option \<times> service" where
  "serve_next x c send_ok v =
     (case channel v of
        [] \<Rightarrow> (None, v)
      | (data, from) # rest \<Rightarrow>
          if closed v then (None, v)
          else
            (let (out, s) = handle_packet x c data from (sv v);
                 v = v\<lparr>channel := rest, sv := s\<rparr>
             in case out of
                  Silent \<Rightarrow> (Some out, v)
                | Reply _ _ \<Rightarrow> (Some out, if send_ok then v else v\<lparr>closed := True\<rparr>)
                | Panicked \<Rightarrow> (Some out, v\<lparr>closed := True\<rparr>)))"

text \<open>The delay before the next announcement, and how \<open>terminated\<close> names the task that ended.\<close>

definition announcement_delay :: "'e + unit \<Rightarrow> duration" where
  "announcement_delay result = (case result of Inr _ \<Rightarrow> secs 600 | Inl _ \<Rightarrow> secs 30)"

datatype task_result = JoinFailed | ReturnedOk | ReturnedShutdown
datatype terminated_error =
  ServiceTask | Transport | ServiceStopped | AnnouncementTask | AnnouncementStopped
datatype stopped_task = StoppedService task_result | StoppedAnnouncement task_result

fun terminated :: "stopped_task \<Rightarrow> terminated_error" where
  "terminated (StoppedService JoinFailed) = ServiceTask"
| "terminated (StoppedService ReturnedShutdown) = Transport"
| "terminated (StoppedService ReturnedOk) = ServiceStopped"
| "terminated (StoppedAnnouncement JoinFailed) = AnnouncementTask"
| "terminated (StoppedAnnouncement _) = AnnouncementStopped"

end
