(* ===== verification/Server_Correct.thy ===== *)
theory Server_Correct
  imports Server
begin

text \<open>
  Correctness of the address index server: tokens prove that their holder received a datagram
  at the address within the last two periods; a datagram changes the store only as its token
  allows; replies go to the sender, answer its transaction, and are never larger than the
  request; the handler never panics; and what was published is what a query returns.
\<close>

section \<open>What the server relies on\<close>

locale server_env =
  fixes x :: externals and vlen :: "nat \<Rightarrow> nat"
  assumes codec: "proto_wire (serialize x) (deserialize x) vlen"
    and hash_length: "length (keyed_hash x key input) = 32"

definition server_inv :: "server \<Rightarrow> bool" where
  "server_inv s \<longleftrightarrow> store_inv (sv_store s) \<and> store_bounded (sv_limits s) (sv_store s)"

lemma server_inv_new: "server_inv (server_new l key now)"
  by (simp add: server_inv_def server_new_def)

section \<open>Tokens\<close>

lemma fold_or_zero:
  "foldl (\<lambda>d (l, r). or d (xor l r)) acc (zip ls rs) = (0 :: u8) \<longleftrightarrow>
     acc = 0 \<and> (\<forall>(l, r) \<in> set (zip ls rs). l = r)"
proof (induction ls arbitrary: acc rs)
  case Nil
  then show ?case by simp
next
  case (Cons l ls)
  have "xor l r = 0 \<longleftrightarrow> l = r" for r :: u8
    by (metis xor_self_eq xor.right_neutral xor.assoc)
  with Cons show ?case by (cases rs) (auto simp: or_eq_0_iff)
qed

lemma token_eq_iff:
  assumes "length left = length right"
  shows "token_eq left right \<longleftrightarrow> left = right"
proof -
  have "(\<forall>(l, r) \<in> set (zip left right). l = r) \<longleftrightarrow> left = right"
    using assms by (auto simp: list_eq_iff_nth_eq set_zip)
  then show ?thesis by (simp add: token_eq_def fold_or_zero)
qed

lemma token_input_inj: "token_input a b = token_input a' b' \<longleftrightarrow> a = a' \<and> b = b'"
  by (cases a; cases a') (auto simp: token_input_def ip_octets_def)

context server_env
begin

lemma length_token: "length (token_for x s addr b) = 16"
  by (simp add: token_for_def hash_length)

lemma verify_token_iff:
  assumes "length token = 16"
  shows "verify_token x s addr token now \<longleftrightarrow>
    token = token_for x s addr (token_bucket s now) \<or>
    token_bucket s now \<noteq> 0 \<and> token = token_for x s addr (token_bucket s now - 1)"
  using assms length_token
  by (auto simp: verify_token_def Let_def token_eq_iff checked_sub_def word_le_nat_alt
      Suc_le_eq unat_gt_0 split: option.splits)

end

text \<open>Two readings at most one period apart fall into the same period or into neighbours.\<close>

lemma div_window:
  assumes "(a::nat) \<le> b" "b - a \<le> p" "0 < p"
  shows "b div p = a div p \<or> b div p = Suc (a div p)"
proof -
  have "b \<le> a + p" using assms by simp
  then have "b div p \<le> (a + p) div p" by (rule div_le_mono)
  moreover have "a div p \<le> b div p" using assms(1) by (rule div_le_mono)
  ultimately show ?thesis using assms(3) by (auto simp: le_Suc_eq)
qed

lemma unat_token_bucket:
  "unat (token_bucket s now) = unat now div max (unat (token_bucket_secs (sv_limits s))) 1"
  by (auto simp: token_bucket_def unat_div max_def word_le_nat_alt)

lemma token_bucket_window:
  assumes "now \<le> now'" "unat now' - unat now \<le> unat (token_bucket_secs (sv_limits s))"
  shows "token_bucket s now' = token_bucket s now \<or>
    token_bucket s now' \<noteq> 0 \<and> token_bucket s now' - 1 = token_bucket s now"
proof -
  let ?p = "max (unat (token_bucket_secs (sv_limits s))) 1"
  have "unat now \<le> unat now'" using assms(1) by (simp add: word_le_nat_alt)
  then have "unat now' div ?p = unat now div ?p \<or> unat now' div ?p = Suc (unat now div ?p)"
    using assms(2) by (intro div_window) auto
  then consider "unat (token_bucket s now') = unat (token_bucket s now)"
    | "unat (token_bucket s now') = Suc (unat (token_bucket s now))"
    by (auto simp: unat_token_bucket)
  then show ?thesis
  proof cases
    case 1
    then show ?thesis by (simp add: word_unat_eq_iff)
  next
    case 2
    then have "(1 :: u64) \<le> token_bucket s now'" by (simp add: word_le_nat_alt)
    then have "unat (token_bucket s now' - 1) = unat (token_bucket s now)"
      using 2 by (simp add: unat_sub)
    then show ?thesis using 2 by (auto simp: word_unat_eq_iff)
  qed
qed

section \<open>Handling a request\<close>

lemma count_simps [simp]:
  "sv_store (count f s) = sv_store s" "sv_limits (count f s) = sv_limits s"
  "token_key (count f s) = token_key s"
  by (simp_all add: count_def)

lemma allow_request_simps [simp]:
  "sv_store (snd (allow_request x ip i i' s)) = sv_store s"
  "sv_limits (snd (allow_request x ip i i' s)) = sv_limits s"
  "token_key (snd (allow_request x ip i i' s)) = token_key s"
  by (simp_all add: allow_request_def split: prod.split)

lemma local_simps [simp]:
  "sv_limits (snd (put_local a v now s)) = sv_limits s"
  "token_key (snd (put_local a v now s)) = token_key s"
  "sv_store (snd (put_local a v now s)) = snd (put a v now (sv_limits s) (sv_store s))"
  "fst (put_local a v now s) = fst (put a v now (sv_limits s) (sv_store s))"
  "sv_limits (snd (get_local a now s)) = sv_limits s"
  "token_key (snd (get_local a now s)) = token_key s"
  "sv_store (snd (get_local a now s)) = snd (store_get a now (sv_store s))"
  "fst (get_local a now s) = fst (store_get a now (sv_store s))"
  by (simp_all add: put_local_def get_local_def split: prod.split)

lemma token_cong:
  "sv_limits s = sv_limits s' \<Longrightarrow> token_key s = token_key s' \<Longrightarrow> issue_token x s a now = issue_token x s' a now"
  by (simp add: issue_token_def token_for_def token_bucket_def)

text \<open>The store and the response after a request, by kind and branch.\<close>

lemma handle_prepare:
  "sv_store (snd (handle_request x c from (Prepare tx padding) s)) = sv_store s"
  "fst (handle_request x c from (Prepare tx padding) s) =
     (if fst (allow_request x (sa_ip from) (inst c) (inst' c) s)
      then Some (Prepared tx from (issue_token x s from (unix_now c))) else None)"
  by (auto simp: Let_def case_prod_unfold token_cong
      issue_token_def token_for_def token_bucket_def)

lemma handle_put:
  "sv_store (snd (handle_request x c from (Put tx token v) s)) =
     (if verify_token x s from token (unix_now c) \<and> fst (allow_request x (sa_ip from) (inst c) (inst' c) s)
      then snd (put from v (unix_now' c) (sv_limits s) (sv_store s)) else sv_store s)"
  "fst (handle_request x c from (Put tx token v) s) =
     (if verify_token x s from token (unix_now c) \<and>
         fst (allow_request x (sa_ip from) (inst c) (inst' c) s) \<and>
         fst (put from v (unix_now' c) (sv_limits s) (sv_store s)) = Inr ()
      then Some (Stored tx from) else None)"
  by (auto simp: Let_def case_prod_unfold split: sum.split)

lemma handle_get:
  "sv_store (snd (handle_request x c from (Get tx addr) s)) =
     (if fst (allow_request x (sa_ip from) (inst c) (inst' c) s)
      then snd (store_get addr (unix_now' c) (sv_store s)) else sv_store s)"
  "fst (handle_request x c from (Get tx addr) s) =
     (if fst (allow_request x (sa_ip from) (inst c) (inst' c) s)
      then Some (Value tx addr (fst (store_get addr (unix_now' c) (sv_store s)))) else None)"
  by (auto simp: Let_def case_prod_unfold count_def [of "gets_update _"])

lemma handle_limits:
  "sv_limits (snd (handle_request x c from r s)) = sv_limits s"
  "token_key (snd (handle_request x c from r s)) = token_key s"
  by (cases r; simp add: Let_def case_prod_unfold split: sum.split)+

lemmas handle_branches = handle_prepare handle_put handle_get

lemma handle_request_inv: "server_inv s \<Longrightarrow> server_inv (snd (handle_request x c from r s))"
  by (cases r)
    (auto simp: server_inv_def handle_branches handle_limits put_inv put_bounded get_inv get_bounded
      simp del: handle_request.simps)

lemma handle_request_view:
  assumes "server_inv s" "store_view (sv_store (snd (handle_request x c from r s))) t a = Some v"
  shows "store_view (sv_store s) t a = Some v \<or>
    (\<exists>tx token. r = Put tx token v \<and> a = from \<and> verify_token x s from token (unix_now c) \<and>
       fst (handle_request x c from r s) = Some (Stored tx from))"
proof (cases r)
  case (Prepare tx padding)
  with assms show ?thesis by (simp add: handle_branches del: handle_request.simps)
next
  case (Get tx addr)
  with assms st.get_frame show ?thesis
    by (auto simp: handle_branches server_inv_def simp del: handle_request.simps split: if_splits)
next
  case (Put tx token w)
  obtain res st' where p: "put from w (unix_now' c) (sv_limits s) (sv_store s) = (res, st')" by fastforce
  have inv: "store_inv (sv_store s)" using assms(1) by (simp add: server_inv_def)
  show ?thesis
  proof (cases "a \<noteq> from \<or> res \<noteq> Inr ()")
    case True
    with assms(2) st.put_frame [OF inv p] show ?thesis
      by (auto simp: Put handle_branches p simp del: handle_request.simps split: if_splits)
  next
    case False
    with assms(2) st.put_new [OF inv] p show ?thesis
      by (auto simp: Put handle_branches simp del: handle_request.simps split: if_splits)
  qed
qed

section \<open>Handling a packet\<close>

text \<open>The request a datagram carries, if any.\<close>

definition packet_request :: "externals \<Rightarrow> bytes \<Rightarrow> request_v1 option" where
  "packet_request x data =
     (case proto_decode (deserialize x) data of Some (Request (ReqV1 r)) \<Rightarrow> Some r | _ \<Rightarrow> None)"

lemma packet_request_Some:
  "packet_request x data = Some r \<longleftrightarrow> proto_decode (deserialize x) data = Some (Request (ReqV1 r))"
  by (auto simp: packet_request_def split: option.splits proto.splits request.splits)

lemma packet_request_bounds:
  "packet_request x data = Some r \<Longrightarrow> data \<noteq> [] \<and> length data \<le> MAX_DGRAM"
  by (auto simp: packet_request_Some proto_decode_Some MAGIC_def)

lemma handle_packet_server:
  "snd (handle_packet x c data from s) =
     (case packet_request x data of None \<Rightarrow> s | Some r \<Rightarrow> snd (handle_request x c from r s))"
  using packet_request_bounds [of x data]
  by (cases "proto_decode (deserialize x) data" rule: option.exhaust)
    (auto simp: handle_packet_def packet_request_def Let_def case_prod_unfold not_less
      split: option.splits proto.splits request.splits sum.splits simp del: handle_request.simps)

lemma handle_packet_outcome:
  "fst (handle_packet x c data from s) =
     (case packet_request x data of None \<Rightarrow> Silent
      | Some r \<Rightarrow>
          (case fst (handle_request x c from r s) of None \<Rightarrow> Silent
           | Some a \<Rightarrow>
               (case proto_encode (serialize x) (Response (RespV1 a)) of
                  Inl e \<Rightarrow> Panicked | Inr out \<Rightarrow> Reply out from)))"
  using packet_request_bounds [of x data]
  by (cases "proto_decode (deserialize x) data" rule: option.exhaust)
    (auto simp: handle_packet_def packet_request_def Let_def case_prod_unfold not_less
      split: option.splits proto.splits request.splits sum.splits simp del: handle_request.simps)

lemma handle_packet_ReplyE:
  assumes "fst (handle_packet x c data from s) = Reply d to"
  obtains r a where "packet_request x data = Some r" "fst (handle_request x c from r s) = Some a"
    "to = from" "proto_encode (serialize x) (Response (RespV1 a)) = Inr d"
proof (cases "packet_request x data")
  case None
  with assms show ?thesis by (simp add: handle_packet_outcome)
next
  case (Some r)
  define ans where "ans = fst (handle_request x c from r s)"
  have "(case ans of None \<Rightarrow> Silent | Some a \<Rightarrow>
      (case proto_encode (serialize x) (Response (RespV1 a)) of
         Inl e \<Rightarrow> Panicked | Inr out \<Rightarrow> Reply out from)) = Reply d to"
    using assms Some by (simp only: handle_packet_outcome option.case ans_def)
  with that [OF Some, folded ans_def] show ?thesis
    by (auto split: option.splits sum.splits)
qed

lemma handle_packet_inv: "server_inv s \<Longrightarrow> server_inv (snd (handle_packet x c data from s))"
  by (simp add: handle_packet_server handle_request_inv split: option.split)

text \<open>The values the store hands out respect the limit, so every answer can be encoded.\<close>

lemma view_bounded:
  "server_inv s \<Longrightarrow> fst (store_get a now (sv_store s)) = Some v \<Longrightarrow> length v \<le> MAX_VALUE_LEN"
  by (auto simp: server_inv_def store_get_def Let_def gc_lookup store_bounded_def
      split: option.splits if_splits)

context server_env
begin

lemma response_encodable:
  assumes "server_inv s" "fst (handle_request x c from r s) = Some a"
  shows "proto_valid (Response (RespV1 a))" "value_bounded (Response (RespV1 a))"
proof -
  have "proto_valid (Response (RespV1 a)) \<and> value_bounded (Response (RespV1 a))"
  proof (cases r)
    case (Get tx addr)
    show ?thesis
      using assms view_bounded [OF assms(1), of addr "unix_now' c"]
      by (cases "fst (store_get addr (unix_now' c) (sv_store s))")
        (auto simp: Get handle_branches MAX_VALUE_LEN_def simp del: handle_request.simps split: if_splits)
  qed (use assms in \<open>auto simp: handle_branches issue_token_def length_token
      simp del: handle_request.simps split: if_splits\<close>)
  then show "proto_valid (Response (RespV1 a))" "value_bounded (Response (RespV1 a))" by simp_all
qed

text \<open>
  The answer to a request is no longer than the datagram that carried the request: the padding
  of \<open>Prepare\<close> pays for the token, the token of \<open>Put\<close> for the address, and \<open>Get\<close> fills the
  datagram.
\<close>

lemma response_no_longer:
  assumes inv: "server_inv s" and rq: "packet_request x data = Some r"
    and a: "fst (handle_request x c from r s) = Some a"
    and out: "proto_encode (serialize x) (Response (RespV1 a)) = Inr d"
  shows "length d \<le> length data"
proof -
  from rq have dec: "proto_decode (deserialize x) data = Some (Request (ReqV1 r))"
    by (simp add: packet_request_Some)
  then obtain body where body: "data = MAGIC @ body" "deserialize x body = Some (Request (ReqV1 r))"
    by (auto simp: proto_decode_Some)
  have pc: "postcard (serialize x) (deserialize x) proto_valid" using codec by (rule proto_wire.axioms(1))
  have len: "length (serialize x (Request (ReqV1 r))) + 8 \<le> length data"
    using postcard.de_length [OF pc body(2)] body(1) by simp
  have valid: "proto_valid (Request (ReqV1 r))" using postcard.de_valid [OF pc body(2)] .
  have d: "length d = 8 + length (serialize x (Response (RespV1 a)))"
    using proto_encode_length(3) [OF out] by simp
  have port: "vlen (unat (sa_port from)) \<le> 3" using proto_wire.vlen_port [OF codec] .
  note sizes = proto_wire.wire_sizes [OF codec]
  show ?thesis
  proof (cases r)
    case (Prepare tx padding)
    with a have "a = Prepared tx from (issue_token x s from (unix_now c))"
      by (simp add: handle_branches del: handle_request.simps split: if_splits)
    with len d valid port Prepare show ?thesis by (simp add: sizes issue_token_def length_token)
  next
    case (Put tx token v)
    with a have "a = Stored tx from"
      by (simp add: handle_branches del: handle_request.simps split: if_splits)
    with len d valid port Put show ?thesis by (simp add: sizes)
  next
    case (Get tx addr)
    with dec have "length data = MAX_DGRAM" by (simp add: proto_decode_Some)
    with proto_encode_length(1) [OF out] show ?thesis by simp
  qed
qed

lemma handle_packet_reply:
  assumes "server_inv s"
  shows "fst (handle_packet x c data from s) \<noteq> Panicked"
    and "fst (handle_packet x c data from s) = Reply d to \<Longrightarrow>
      \<exists>r a. packet_request x data = Some r \<and> fst (handle_request x c from r s) = Some a \<and>
        to = from \<and> length d \<le> length data \<and>
        proto_decode (deserialize x) d = Some (Response (RespV1 a))"
proof -
  have enc: "\<exists>d. proto_encode (serialize x) (Response (RespV1 a)) = Inr d \<and>
      proto_decode (deserialize x) d = Some (Response (RespV1 a))"
    if "fst (handle_request x c from r s) = Some a" for r a
    using proto_wire.encode_total [OF codec response_encodable [OF assms that]]
      proto_wire.decode_encode [OF codec response_encodable(1) [OF assms that]] by blast
  show "fst (handle_packet x c data from s) \<noteq> Panicked"
  proof (cases "packet_request x data")
    case (Some r)
    show ?thesis
    proof (cases "fst (handle_request x c from r s)")
      case (Some a)
      with enc [OF Some] \<open>packet_request x data = Some r\<close> show ?thesis
        by (auto simp: handle_packet_outcome simp del: handle_request.simps)
    qed (simp add: handle_packet_outcome \<open>packet_request x data = Some r\<close> del: handle_request.simps)
  qed (simp add: handle_packet_outcome)
  show "\<exists>r a. packet_request x data = Some r \<and> fst (handle_request x c from r s) = Some a \<and>
        to = from \<and> length d \<le> length data \<and>
        proto_decode (deserialize x) d = Some (Response (RespV1 a))"
    if "fst (handle_packet x c data from s) = Reply d to"
  proof -
    from that obtain r a where ra: "packet_request x data = Some r"
        "fst (handle_request x c from r s) = Some a" "to = from"
        "proto_encode (serialize x) (Response (RespV1 a)) = Inr d"
      by (rule handle_packet_ReplyE)
    have "proto_decode (deserialize x) d = Some (Response (RespV1 a))"
      using enc [OF ra(2)] ra(4) by (simp del: handle_request.simps)
    with ra response_no_longer [OF assms ra(1,2,4)] show ?thesis by blast
  qed
qed

end

context server_env
begin

lemma handle_packet_answers:
  assumes "server_inv s" "packet_request x data = Some r" "fst (handle_request x c from r s) = Some a"
  shows "\<exists>d. fst (handle_packet x c data from s) = Reply d from \<and>
    proto_decode (deserialize x) d = Some (Response (RespV1 a))"
proof -
  obtain d where d: "proto_encode (serialize x) (Response (RespV1 a)) = Inr d"
    using proto_wire.encode_total [OF codec response_encodable [OF assms(1,3)]] by blast
  with assms proto_wire.decode_encode [OF codec response_encodable(1) [OF assms(1,3)] d]
  show ?thesis by (simp add: handle_packet_outcome del: handle_request.simps)
qed

text \<open>An issued token is accepted for a period by any server state with the same key and limits.\<close>

lemma verify_issued:
  assumes "sv_limits s' = sv_limits s" "token_key s' = token_key s" "now \<le> now'"
    "unat now' - unat now \<le> unat (token_bucket_secs (sv_limits s))"
  shows "verify_token x s' addr (issue_token x s addr now) now'"
proof -
  have same: "token_for x s' addr b = token_for x s addr b" "token_bucket s' t = token_bucket s t" for b t
    using assms(1,2) by (simp_all add: token_for_def token_bucket_def)
  have len: "length (issue_token x s addr now) = 16" by (simp add: issue_token_def length_token)
  from token_bucket_window [OF assms(3,4)] show ?thesis
    by (auto simp: verify_token_iff [OF len] same) (auto simp: issue_token_def)
qed

end

section \<open>A run of the server\<close>

type_synonym packet = "clocks \<times> bytes \<times> socket_addr_v4"

fun server_run :: "externals \<Rightarrow> packet list \<Rightarrow> server \<Rightarrow> server" where
  "server_run x [] s = s"
| "server_run x ((c, data, from) # ps) s = server_run x ps (snd (handle_packet x c data from s))"

lemma server_run_append: "server_run x (ps @ qs) s = server_run x qs (server_run x ps s)"
  by (induction x ps s rule: server_run.induct) auto

lemma server_run_inv: "server_inv s \<Longrightarrow> server_inv (server_run x ps s)"
  by (induction x ps s rule: server_run.induct) (auto simp: handle_packet_inv)

lemma handle_packet_limits:
  "sv_limits (snd (handle_packet x c data from s)) = sv_limits s"
  "token_key (snd (handle_packet x c data from s)) = token_key s"
  by (simp_all add: handle_packet_server handle_limits split: option.split)

lemma server_run_limits:
  "sv_limits (server_run x ps s) = sv_limits s" "token_key (server_run x ps s) = token_key s"
  by (induction x ps s rule: server_run.induct) (auto simp: handle_packet_limits)

lemma server_run_view:
  "server_inv s \<Longrightarrow> store_view (sv_store (server_run x ps s)) t a = Some v \<Longrightarrow>
     store_view (sv_store s) t a = Some v \<or>
     (\<exists>before c data after tx token. ps = before @ (c, data, a) # after \<and>
        packet_request x data = Some (Put tx token v) \<and>
        verify_token x (server_run x before s) a token (unix_now c))"
proof (induction ps rule: rev_induct)
  case (snoc p ps)
  obtain c data a' where p: "p = (c, data, a')" by (cases p)
  let ?s = "server_run x ps s"
  have inv: "server_inv ?s" using snoc.prems(1) by (rule server_run_inv)
  have "store_view (sv_store (snd (handle_packet x c data a' ?s))) t a = Some v"
    using snoc.prems(2) by (simp add: server_run_append p)
  then consider "store_view (sv_store ?s) t a = Some v"
    | tx token where "packet_request x data = Some (Put tx token v)" "a = a'"
        "verify_token x ?s a' token (unix_now c)"
    by (auto simp: handle_packet_server simp del: handle_request.simps split: option.splits
        dest!: handle_request_view [OF inv])
  then show ?case
  proof cases
    case 1
    with snoc.IH snoc.prems(1) show ?thesis by (metis append_Cons append_assoc)
  next
    case 2
    with p show ?thesis by blast
  qed
qed simp

end
