(* ===== verification/Server_Props.thy ===== *)
theory Server_Props
  imports Server_Correct
begin

text \<open>
  The properties of the address index server, stated over its packet handler and over runs of
  it, with a concrete instance of the outside functions for the witnesses.
\<close>

section \<open>A concrete environment\<close>

definition sample_ext :: externals where
  "sample_ext = \<lparr>keyed_hash = (\<lambda>key input. take 32 (drop 23 input @ key @ replicate 32 0)),
     ip_hash = (\<lambda>_. 0), round_f64 = id, serialize = proto_ser, deserialize = proto_de\<rparr>"

interpretation sample: server_env sample_ext "\<lambda>n. length (enc_var n)"
  by (rule server_env.intro) (simp_all add: sample_ext_def wire.proto_wire_axioms)

definition sample_server :: server where
  "sample_server = server_new limits_default [1, 2, 3] 0"

definition sample_addr :: socket_addr_v4 where
  "sample_addr = SocketAddrV4 16909060 6881"

definition sample_clocks :: clocks where
  "sample_clocks = \<lparr>unix_now = 100, unix_now' = 100, inst = 0, inst' = 0\<rparr>"

lemma sample_inv: "server_inv sample_server"
  by (simp add: sample_server_def server_inv_new)

lemma sample_allows: "fst (allow_request sample_ext ip 0 0 sample_server)"
  by (simp add: allow_request_def allow_def bucket_allow_def take_token_def Let_def sample_ext_def
      sample_server_def server_new_def rate_limiters_default_def limits_default_def as_secs_f64_def)

lemma sample_request:
  assumes "proto_valid (Request (ReqV1 r))" "value_bounded (Request (ReqV1 r))"
  obtains d where "packet_request sample_ext d = Some r"
proof -
  obtain d where d: "proto_encode proto_ser (Request (ReqV1 r)) = Inr d"
    using wire.encode_total [OF assms] by blast
  have "packet_request sample_ext d = Some r"
    using wire.decode_encode [OF assms(1) d] by (simp add: packet_request_Some sample_ext_def)
  then show ?thesis by (rule that)
qed

lemma sample_put_ok: "fst (put sample_addr [7, 8] 100 limits_default store_new) = Inr ()"
  by (simp add: put_def gc.simps store_new_def ip_count_def limits_default_def MAX_VALUE_LEN_def)

lemma sample_published:
  obtains d tx where
    "packet_request sample_ext d = Some (Put tx (issue_token sample_ext sample_server sample_addr 100) [7, 8])"
    "fst (get_local sample_addr 100 (snd (handle_packet sample_ext sample_clocks d sample_addr sample_server))) =
      Some [7, 8]"
proof -
  let ?tok = "issue_token sample_ext sample_server sample_addr 100"
  have len: "length ?tok = 16" by (simp add: issue_token_def sample.length_token)
  obtain d where d: "packet_request sample_ext d = Some (Put 1 ?tok [7, 8])"
    by (rule sample_request [of "Put 1 ?tok [7, 8]"]) (simp_all add: len MAX_VALUE_LEN_def)
  have lim: "sv_limits sample_server = limits_default" "sv_store sample_server = store_new"
    by (simp_all add: sample_server_def server_new_def)
  have ok: "verify_token sample_ext sample_server sample_addr ?tok (unix_now sample_clocks)"
    by (rule sample.verify_issued) (simp_all add: sample_clocks_def lim limits_default_def)
  obtain st' where p: "put sample_addr [7, 8] 100 limits_default store_new = (Inr (), st')"
    using sample_put_ok by (metis prod.collapse)
  have "sv_store (snd (handle_packet sample_ext sample_clocks d sample_addr sample_server)) = st'"
    using ok sample_allows p lim
    by (simp only: handle_packet_server d option.case handle_put(1)) (simp add: sample_clocks_def)
  moreover have "store_view st' 100 sample_addr = Some [7, 8]"
    using st.put_new [OF store_inv_new p] by (simp add: saturating_add_def limits_default_def)
  moreover have "store_inv st'" using put_inv [OF store_inv_new] p by (metis snd_conv)
  ultimately show ?thesis using that [OF d] st.get_view by simp
qed

section \<open>Properties\<close>

text \<open>
  C9: a token that the server issued to an address is accepted from that address for at least
  one token period, whatever packets the server handles in between.
\<close>

theorem token_accepted:
  assumes "server_env x vlen" "now \<le> now'"
    "unat now' - unat now \<le> unat (token_bucket_secs (sv_limits s))"
  shows "verify_token x (server_run x ps s) addr (issue_token x s addr now) now'"
  by (rule server_env.verify_issued [OF assms(1) _ _ assms(2,3)]) (simp_all add: server_run_limits)

lemma token_accepted_witness:
  "verify_token sample_ext (server_run sample_ext [] sample_server) sample_addr
     (issue_token sample_ext sample_server sample_addr 100) 130"
  by (rule token_accepted [OF sample.server_env_axioms])
    (simp_all add: sample_server_def server_new_def limits_default_def)

text \<open>
  C10: a token is bound to its address and its time. If the server accepts, from one address, a
  token it issued at some time to some address, then the addresses are the same and the token
  is of the current or the previous period, or the truncated keyed hash collides on two
  different inputs, which are given.
\<close>

theorem token_bound:
  assumes "server_env x vlen" "verify_token x s addr (issue_token x s addr' t) now"
  shows "addr' = addr \<and> (token_bucket s t = token_bucket s now \<or>
       token_bucket s now \<noteq> 0 \<and> token_bucket s t = token_bucket s now - 1) \<or>
    (\<exists>b. (b = token_bucket s now \<or> b = token_bucket s now - 1) \<and>
       token_input addr' (token_bucket s t) \<noteq> token_input addr b \<and>
       take 16 (keyed_hash x (token_key s) (token_input addr' (token_bucket s t))) =
       take 16 (keyed_hash x (token_key s) (token_input addr b)))"
proof -
  have len: "length (issue_token x s addr' t) = 16"
    by (simp add: issue_token_def server_env.length_token [OF assms(1)])
  from assms(2) obtain b where b: "issue_token x s addr' t = token_for x s addr b"
      "b = token_bucket s now \<or> token_bucket s now \<noteq> 0 \<and> b = token_bucket s now - 1"
    unfolding server_env.verify_token_iff [OF assms(1) len] by blast
  show ?thesis
  proof (cases "token_input addr' (token_bucket s t) = token_input addr b")
    case True
    with b(2) show ?thesis by (auto simp: token_input_inj)
  next
    case False
    with b show ?thesis by (auto simp: issue_token_def token_for_def)
  qed
qed

lemma token_bound_witness:
  "sample_addr = sample_addr \<and> (token_bucket sample_server 100 = token_bucket sample_server 110 \<or>
       token_bucket sample_server 110 \<noteq> 0 \<and>
       token_bucket sample_server 100 = token_bucket sample_server 110 - 1) \<or>
    (\<exists>b. (b = token_bucket sample_server 110 \<or> b = token_bucket sample_server 110 - 1) \<and>
       token_input sample_addr (token_bucket sample_server 100) \<noteq> token_input sample_addr b \<and>
       take 16 (keyed_hash sample_ext (token_key sample_server)
         (token_input sample_addr (token_bucket sample_server 100))) =
       take 16 (keyed_hash sample_ext (token_key sample_server) (token_input sample_addr b)))"
proof (rule token_bound [OF sample.server_env_axioms])
  have len: "length (issue_token sample_ext sample_server sample_addr 100) = 16"
    by (simp add: issue_token_def sample.length_token)
  have "token_bucket sample_server 110 = token_bucket sample_server 100"
    by (simp add: token_bucket_def sample_server_def server_new_def limits_default_def max_def word_le_nat_alt)
  then show "verify_token sample_ext sample_server sample_addr
      (issue_token sample_ext sample_server sample_addr 100) 110"
    unfolding sample.verify_token_iff [OF len] by (simp add: issue_token_def)
qed

text \<open>
  C11: the answer to a datagram. The handler never panics; a reply goes to the sender of the
  datagram, is not longer than it (so the server amplifies nothing), and is the encoding of
  the response to the request the datagram carried: the decoder of any client reads exactly that
  response.
\<close>

theorem reply_sound:
  assumes "server_env x vlen"
  shows "fst (handle_packet x c data sender (server_run x ps (server_new l key t))) \<noteq> Panicked \<and>
    (\<forall>d to. fst (handle_packet x c data sender (server_run x ps (server_new l key t))) = Reply d to \<longrightarrow>
       to = sender \<and> length d \<le> length data \<and>
       (\<exists>r a. packet_request x data = Some r \<and>
          fst (handle_request x c sender r (server_run x ps (server_new l key t))) = Some a \<and>
          proto_decode (deserialize x) d = Some (Response (RespV1 a))))"
proof -
  let ?s = "server_run x ps (server_new l key t)"
  have inv: "server_inv ?s" by (rule server_run_inv [OF server_inv_new])
  show ?thesis
    using server_env.handle_packet_reply(1) [OF assms inv, of c data sender]
      server_env.handle_packet_reply(2) [OF assms inv, of c data sender] by blast
qed

lemma reply_sound_witness:
  "\<exists>data d to. fst (handle_packet sample_ext sample_clocks data sample_addr
       (server_run sample_ext [] (server_new limits_default [1, 2, 3] 0))) = Reply d to \<and>
     to = sample_addr \<and> length d \<le> length data"
proof -
  obtain data where data: "packet_request sample_ext data = Some (Prepare 5 (replicate 24 0))"
    by (rule sample_request [of "Prepare 5 (replicate 24 0)"]) simp_all
  let ?s = "server_run sample_ext [] (server_new limits_default [1, 2, 3] 0)"
  have s: "?s = sample_server" by (simp add: sample_server_def)
  have "fst (handle_request sample_ext sample_clocks sample_addr (Prepare 5 (replicate 24 0)) ?s) \<noteq> None"
    using sample_allows unfolding s handle_prepare(2) by (simp add: sample_clocks_def)
  moreover have "fst (handle_packet sample_ext sample_clocks data sample_addr ?s) \<noteq> Panicked"
    using reply_sound [OF sample.server_env_axioms] by blast
  ultimately obtain d to where
    "fst (handle_packet sample_ext sample_clocks data sample_addr ?s) = Reply d to"
    unfolding handle_packet_outcome data by (auto split: option.splits sum.splits)
  then show ?thesis using reply_sound [OF sample.server_env_axioms] by blast
qed

text \<open>
  C12: who can write where. A value that a server hands out for an address came in a \<open>Put\<close>
  datagram from that address, with a token the server accepted from that address at that
  time. No datagram from another address can place or change it.
\<close>

theorem server_provenance:
  assumes "fst (get_local addr now (server_run x ps (server_new l key t))) = Some v"
  shows "\<exists>before c data after tx token. ps = before @ (c, data, addr) # after \<and>
    packet_request x data = Some (Put tx token v) \<and>
    verify_token x (server_run x before (server_new l key t)) addr token (unix_now c)"
proof -
  let ?s = "server_run x ps (server_new l key t)"
  have "store_inv (sv_store ?s)"
    using server_run_inv [OF server_inv_new] by (simp add: server_inv_def)
  then have "store_view (sv_store ?s) now addr = Some v" using assms st.get_view by simp
  moreover have "store_view (sv_store (server_new l key t)) now addr = None"
    by (simp add: server_new_def store_new_def store_view_def live_def contents_of_def)
  ultimately show ?thesis using server_run_view [OF server_inv_new] by fastforce
qed

lemma server_provenance_witness:
  "\<exists>ps before c data after tx token. ps = before @ (c, data, sample_addr) # after \<and>
     packet_request sample_ext data = Some (Put tx token [7, 8]) \<and>
     verify_token sample_ext (server_run sample_ext before (server_new limits_default [1, 2, 3] 0))
       sample_addr token (unix_now c)"
proof -
  obtain d where d: "fst (get_local sample_addr 100
      (snd (handle_packet sample_ext sample_clocks d sample_addr sample_server))) = Some [7, 8]"
    by (rule sample_published)
  have "fst (get_local sample_addr 100 (server_run sample_ext [(sample_clocks, d, sample_addr)]
      (server_new limits_default [1, 2, 3] 0))) = Some [7, 8]"
    using d by (simp add: sample_server_def)
  from server_provenance [OF this] show ?thesis by blast
qed

text \<open>
  Publishing and querying. When an address sends a \<open>Put\<close> with a token the server issued to it
  at most one period before, within the limits and not rate limited, the server answers
  \<open>Stored\<close>, and a \<open>Get\<close> for that address from anyone, handled next and before the time to live
  is over, is answered with exactly that value.
\<close>

theorem publish_then_query:
  assumes x: "server_env x vlen" and inv: "server_inv s"
    and put: "packet_request x d1 = Some (Put tx1 (issue_token x s0 publisher t0) v)"
    and same: "s = server_run x ps s0"
    and fresh: "t0 \<le> unix_now c1" "unat (unix_now c1) - unat t0 \<le> unat (token_bucket_secs (sv_limits s0))"
    and rate: "fst (allow_request x (sa_ip publisher) (inst c1) (inst' c1) s)"
    and room: "fst (put publisher v (unix_now' c1) (sv_limits s) (sv_store s)) = Inr ()"
    and s1: "s1 = snd (handle_packet x c1 d1 publisher s)"
    and get: "packet_request x d2 = Some (Get tx2 publisher)"
    and rate2: "fst (allow_request x (sa_ip reader) (inst c2) (inst' c2) s1)"
    and alive: "unix_now' c2 < saturating_add (unix_now' c1) (value_ttl_secs (sv_limits s))"
  shows "(\<exists>r1. fst (handle_packet x c1 d1 publisher s) = Reply r1 publisher \<and>
      proto_decode (deserialize x) r1 = Some (Response (RespV1 (Stored tx1 publisher)))) \<and>
    (\<exists>r2. fst (handle_packet x c2 d2 reader s1) = Reply r2 reader \<and>
      proto_decode (deserialize x) r2 = Some (Response (RespV1 (Value tx2 publisher (Some v)))))"
proof -
  have lim: "sv_limits s = sv_limits s0" "token_key s = token_key s0"
    using same by (simp_all add: server_run_limits)
  have ok: "verify_token x s publisher (issue_token x s0 publisher t0) (unix_now c1)"
    by (rule server_env.verify_issued [OF x lim fresh])
  have stored: "fst (handle_request x c1 publisher (Put tx1 (issue_token x s0 publisher t0) v) s) =
      Some (Stored tx1 publisher)"
    using ok rate room unfolding handle_put(2) by simp
  have inv1: "server_inv s1" unfolding s1 using inv by (rule handle_packet_inv)
  obtain st' where p: "put publisher v (unix_now' c1) (sv_limits s) (sv_store s) = (Inr (), st')"
    using room by (metis prod.collapse)
  have "sv_store s1 = st'"
    using ok rate p by (simp only: s1 handle_packet_server put option.case handle_put(1)) simp
  then have "store_view (sv_store s1) (unix_now' c2) publisher = Some v"
    using st.put_new [OF _ p] inv alive by (simp add: server_inv_def)
  then have "fst (store_get publisher (unix_now' c2) (sv_store s1)) = Some v"
    using st.get_view inv1 by (simp add: server_inv_def)
  then have found: "fst (handle_request x c2 reader (Get tx2 publisher) s1) =
      Some (Value tx2 publisher (Some v))"
    using rate2 unfolding handle_get(2) by simp
  show ?thesis
    using server_env.handle_packet_answers [OF x inv put stored]
      server_env.handle_packet_answers [OF x inv1 get found] by blast
qed

text \<open>A first publication at a new server, and a query for it.\<close>

lemma sample_rate_after_put:
  "sv_rate (snd (handle_request x c a (Put tx token v) s)) =
     (if verify_token x s a token (unix_now c)
      then sv_rate (snd (allow_request x (sa_ip a) (inst c) (inst' c) s)) else sv_rate s)"
  by (auto simp: Let_def case_prod_unfold count_def put_local_def split: sum.split)

lemma sample_second_allowed:
  assumes "sv_rate s = sv_rate (snd (allow_request sample_ext ip 0 0 sample_server))"
    "sv_limits s = limits_default"
  shows "fst (allow_request sample_ext ip' 0 0 s)"
  using assms
  by (simp add: allow_request_def allow_def bucket_allow_def take_token_def Let_def sample_ext_def
      sample_server_def server_new_def rate_limiters_default_def limits_default_def as_secs_f64_def
      bucket_index_def)

lemma publish_then_query_witness:
  "\<exists>d1 d2 s1 r1 r2.
     fst (handle_packet sample_ext sample_clocks d1 sample_addr sample_server) = Reply r1 sample_addr \<and>
     s1 = snd (handle_packet sample_ext sample_clocks d1 sample_addr sample_server) \<and>
     fst (handle_packet sample_ext sample_clocks d2 (SocketAddrV4 9 9) s1) = Reply r2 (SocketAddrV4 9 9) \<and>
     proto_decode proto_de r2 = Some (Response (RespV1 (Value 2 sample_addr (Some [7, 8]))))"
proof -
  let ?tok = "issue_token sample_ext sample_server sample_addr 90"
  have len: "length ?tok = 16" by (simp add: issue_token_def sample.length_token)
  obtain d1 where d1: "packet_request sample_ext d1 = Some (Put 1 ?tok [7, 8])"
    by (rule sample_request [of "Put 1 ?tok [7, 8]"]) (simp_all add: len MAX_VALUE_LEN_def)
  obtain d2 where d2: "packet_request sample_ext d2 = Some (Get 2 sample_addr)"
    by (rule sample_request [of "Get 2 sample_addr"]) simp_all
  define s1 where "s1 = snd (handle_packet sample_ext sample_clocks d1 sample_addr sample_server)"
  have lim: "sv_limits sample_server = limits_default" "sv_store sample_server = store_new"
    by (simp_all add: sample_server_def server_new_def)
  have ok: "verify_token sample_ext sample_server sample_addr ?tok (unix_now sample_clocks)"
    by (rule sample.verify_issued) (simp_all add: sample_clocks_def lim limits_default_def)
  have c: "inst sample_clocks = 0" "inst' sample_clocks = 0" "unix_now sample_clocks = 100"
    "unix_now' sample_clocks = 100" by (simp_all add: sample_clocks_def)
  have "sv_rate s1 = sv_rate (snd (allow_request sample_ext (sa_ip sample_addr) 0 0 sample_server))"
    using ok unfolding s1_def handle_packet_server d1 option.case sample_rate_after_put c by simp
  moreover have "sv_limits s1 = limits_default" by (simp add: s1_def handle_packet_limits lim)
  ultimately have "fst (allow_request sample_ext (sa_ip (SocketAddrV4 9 9)) 0 0 s1)"
    by (rule sample_second_allowed)
  with publish_then_query [OF sample.server_env_axioms sample_inv d1, of "[]" sample_clocks s1 d2 2
      "SocketAddrV4 9 9" sample_clocks] d2 s1_def sample_allows sample_put_ok
  show ?thesis
    by (auto simp: c lim limits_default_def saturating_add_def) (simp add: sample_ext_def, blast)
qed

section \<open>The shared socket\<close>

text \<open>The service and the socket: datagrams arrive at the hook, the task serves the queue.\<close>

inductive service_step :: "externals \<Rightarrow> service \<Rightarrow> service \<Rightarrow> bool" for x where
  arrive: "server_hook data sender v = (taken, v') \<Longrightarrow> service_step x v v'"
| serve: "serve_next x c sent v = (out, v') \<Longrightarrow> service_step x v v'"

definition service_new :: "limits \<Rightarrow> bytes \<Rightarrow> instant \<Rightarrow> service" where
  "service_new l key t = \<lparr>channel = [], closed = False, sv = server_new l key t\<rparr>"

definition service_inv :: "service \<Rightarrow> bool" where
  "service_inv v \<longleftrightarrow> length (channel v) \<le> QUEUE_CAPACITY \<and>
     (\<forall>(d, _) \<in> set (channel v). starts_with d MAGIC \<and> length d \<le> MAX_DGRAM) \<and> server_inv (sv v)"

lemma hook_inv: "service_inv v \<Longrightarrow> server_hook data sender v = (taken, v') \<Longrightarrow> service_inv v'"
  by (auto simp: service_inv_def server_hook_def server_inv_def not_less split: if_splits)

lemma serve_inv:
  assumes "service_inv v" "serve_next x c sent v = (out, v')"
  shows "service_inv v'"
proof (cases "channel v = [] \<or> closed v")
  case True
  with assms show ?thesis by (auto simp: serve_next_def split: list.splits)
next
  case False
  then obtain d a rest where ch: "channel v = (d, a) # rest" by (cases "channel v") auto
  have "channel v' = rest" "sv v' = snd (handle_packet x c d a (sv v))"
    using assms(2) ch False
    by (auto simp: serve_next_def Let_def case_prod_unfold split: outcome.splits if_splits)
  then show ?thesis using assms(1) ch by (auto simp: service_inv_def handle_packet_inv)
qed

lemma service_reach_inv: "(service_step x)\<^sup>*\<^sup>* v v' \<Longrightarrow> service_inv v \<Longrightarrow> service_inv v'"
  by (induction rule: rtranclp_induct) (auto elim!: service_step.cases intro: hook_inv serve_inv)

text \<open>
  Sharing the socket. In every state the service can reach, at most 256 datagrams are
  queued, all of them carry the discriminator and are at most 1200 bytes, and the server's
  invariant holds; a datagram without the discriminator is never consumed and changes nothing,
  and one that does not fit the queue is consumed and counted as dropped.
\<close>

theorem service_queue:
  assumes "(service_step x)\<^sup>*\<^sup>* (service_new l key t) v"
  shows "service_inv v \<and>
    (\<forall>data sender. \<not> starts_with data MAGIC \<longrightarrow> server_hook data sender v = (False, v)) \<and>
    (\<forall>data sender. starts_with data MAGIC \<and> length data \<le> MAX_DGRAM \<and> \<not> closed v \<longrightarrow>
       fst (server_hook data sender v) \<and>
       (let v' = snd (server_hook data sender v) in
        channel v' = channel v @ [(data, sender)] \<and> sv v' = sv v \<or>
        length (channel v) = QUEUE_CAPACITY \<and> channel v' = channel v \<and>
        queue_drops (sv_metrics (sv v')) = queue_drops (sv_metrics (sv v)) + 1))"
proof -
  have "service_inv (service_new l key t)"
    by (simp add: service_inv_def service_new_def server_inv_new)
  with assms have inv: "service_inv v" by (rule service_reach_inv)
  then have "length (channel v) \<le> QUEUE_CAPACITY" by (simp add: service_inv_def)
  with inv show ?thesis by (auto simp: server_hook_def Let_def count_def)
qed

lemma service_queue_witness:
  "service_inv (service_new limits_default [] 0) \<and>
   server_hook [100, 49] sample_addr (service_new limits_default [] 0) =
     (False, service_new limits_default [] 0)"
proof -
  have "(service_step sample_ext)\<^sup>*\<^sup>* (service_new limits_default [] 0) (service_new limits_default [] 0)"
    by simp
  from service_queue [OF this] show ?thesis by (simp add: starts_with_def MAGIC_def)
qed

end
