(* ===== verification/Udp_Client.thy ===== *)
theory Udp_Client
  imports Wire_Correct "HOL-Library.Multiset"
begin

text \<open>
  The address index client, \<open>iroh-mainline-endpoint-discovery/src/udp.rs\<close>: an actor that owns
  the server set and the operations in flight, and turns messages, datagrams and its timer
  into sends and answers. A caller waiting on a oneshot channel is a number; what the actor
  does is a list of events. Random transaction ids and clock readings are arguments; the
  serializer is \<open>ser\<close> and \<open>de\<close> as in \<open>Wire\<close>. The order in which a hash set is iterated is not
  specified by the source; the model uses the sorted order.
\<close>

section \<open>State\<close>

definition DEFAULT_TIMEOUT :: duration where "DEFAULT_TIMEOUT = secs 2"

datatype udp_error = Attach | Timeout | TooLargeValue | NoServers | Closed

type_synonym caller = nat
type_synonym value_for = "socket_addr_v4 \<Rightarrow> bytes"
type_synonym accept = "bytes \<Rightarrow> bool"

datatype actor_msg =
    AddServer socket_addr_v4
  | ReplaceServers "socket_addr_v4 fset"
  | RemoveServer socket_addr_v4
  | Publish value_for caller
  | Resolve socket_addr_v4 "accept option" caller

datatype event =
    Send bytes socket_addr_v4
  | Published caller "udp_error + socket_addr_v4 list"
  | Resolved caller "udp_error + bytes list"
  | Dropped caller

record pending_publish =
  pp_value :: value_for
  too_large :: bool
  pp_awaiting :: "socket_addr_v4 fset"
  prepared :: "socket_addr_v4 fset"
  stored :: "socket_addr_v4 fset"
  pp_response :: caller
  pp_deadline :: instant

record pending_resolve =
  pr_addr :: socket_addr_v4
  pr_accept :: "accept option"
  pr_awaiting :: "socket_addr_v4 fset"
  pr_values :: "bytes fset"
  responded :: bool
  pr_response :: caller
  pr_deadline :: instant

record actor =
  servers :: "socket_addr_v4 fset"
  publishes :: "(transaction_id, pending_publish) fmap"
  resolves :: "(transaction_id, pending_resolve) fmap"
  timeout :: duration

definition actor_new :: "duration \<Rightarrow> actor" where
  "actor_new t = \<lparr>servers = {||}, publishes = fmempty, resolves = fmempty, timeout = t\<rparr>"

section \<open>Operations\<close>

definition encode_request :: "(proto \<Rightarrow> bytes) \<Rightarrow> request_v1 \<Rightarrow> bytes option" where
  "encode_request ser r =
     (case proto_encode ser (Request (ReqV1 r)) of Inl _ \<Rightarrow> None | Inr b \<Rightarrow> Some b)"

definition finish_publish :: "transaction_id \<Rightarrow> actor \<Rightarrow> event list \<times> actor" where
  "finish_publish tx a =
     (case fmlookup (publishes a) tx of
        None \<Rightarrow> ([], a)
      | Some p \<Rightarrow>
          (let a = a\<lparr>publishes := fmdrop tx (publishes a)\<rparr>;
               result =
                 (if stored p = {||} then
                    (if too_large p then Inl TooLargeValue else Inl Timeout)
                  else Inr (sorted_list_of_fset (stored p)))
           in ([Published (pp_response p) result], a)))"

definition finish_resolve :: "transaction_id \<Rightarrow> actor \<Rightarrow> event list \<times> actor" where
  "finish_resolve tx a =
     (case fmlookup (resolves a) tx of
        None \<Rightarrow> ([], a)
      | Some p \<Rightarrow>
          (let a = a\<lparr>resolves := fmdrop tx (resolves a)\<rparr>;
               result =
                 (if \<not> responded p then Inl Timeout
                  else Inr (sorted_list_of_fset (pr_values p)))
           in ([Resolved (pr_response p) result], a)))"

text \<open>
  Inserting under a transaction id that is in use drops the older operation, and with it its
  sender: that caller sees a closed channel.
\<close>

definition insert_publish :: "transaction_id \<Rightarrow> pending_publish \<Rightarrow> actor \<Rightarrow> event list \<times> actor" where
  "insert_publish tx p a =
     ((case fmlookup (publishes a) tx of None \<Rightarrow> [] | Some old \<Rightarrow> [Dropped (pp_response old)]),
      a\<lparr>publishes := fmupd tx p (publishes a)\<rparr>)"

definition insert_resolve :: "transaction_id \<Rightarrow> pending_resolve \<Rightarrow> actor \<Rightarrow> event list \<times> actor" where
  "insert_resolve tx p a =
     ((case fmlookup (resolves a) tx of None \<Rightarrow> [] | Some old \<Rightarrow> [Dropped (pr_response old)]),
      a\<lparr>resolves := fmupd tx p (resolves a)\<rparr>)"

definition send_all :: "bytes \<Rightarrow> socket_addr_v4 fset \<Rightarrow> event list" where
  "send_all b ss = map (Send b) (sorted_list_of_fset ss)"

fun handle_message :: "(proto \<Rightarrow> bytes) \<Rightarrow> transaction_id \<Rightarrow> instant \<Rightarrow> actor_msg \<Rightarrow> actor \<Rightarrow> event list \<times> actor" where
  "handle_message ser tx now (ReplaceServers ss) a = ([], a\<lparr>servers := ss\<rparr>)"
| "handle_message ser tx now (AddServer s) a = ([], a\<lparr>servers := finsert s (servers a)\<rparr>)"
| "handle_message ser tx now (RemoveServer s) a = ([], a\<lparr>servers := servers a |-| {|s|}\<rparr>)"
| "handle_message ser tx now (Publish v response) a =
     (if servers a = {||} then ([Published response (Inl NoServers)], a)
      else case encode_request ser (Prepare tx (replicate 24 0)) of
        Some b \<Rightarrow>
          (let (dropped, a') = insert_publish tx
                 \<lparr>pp_value = v, too_large = False, pp_awaiting = servers a, prepared = {||},
                  stored = {||}, pp_response = response, pp_deadline = now + timeout a\<rparr> a
           in (send_all b (servers a) @ dropped, a'))
      | None \<Rightarrow> ([Published response (Inl TooLargeValue)], a))"
| "handle_message ser tx now (Resolve addr acc response) a =
     (if servers a = {||} then ([Resolved response (Inl NoServers)], a)
      else case encode_request ser (Get tx addr) of
        Some b \<Rightarrow>
          (let (dropped, a') = insert_resolve tx
                 \<lparr>pr_addr = addr, pr_accept = acc, pr_awaiting = servers a, pr_values = {||},
                  responded = False, pr_response = response, pr_deadline = now + timeout a\<rparr> a
           in (send_all b (servers a) @ dropped, a'))
      | None \<Rightarrow> ([Resolved response (Inl TooLargeValue)], a))"

fun handle_response :: "(proto \<Rightarrow> bytes) \<Rightarrow> socket_addr_v4 \<Rightarrow> response_v1 \<Rightarrow> actor \<Rightarrow> event list \<times> actor" where
  "handle_response ser from (Prepared tx addr token) a =
     (case fmlookup (publishes a) tx of
        None \<Rightarrow> ([], a)
      | Some p \<Rightarrow>
          if from |\<notin>| pp_awaiting p \<or> from |\<in>| prepared p then ([], a)
          else
            (let p = p\<lparr>prepared := finsert from (prepared p)\<rparr>;
                 value = pp_value p addr
             in if length value > MAX_VALUE_LEN then
                  (let p = p\<lparr>too_large := True, pp_awaiting := pp_awaiting p |-| {|from|}\<rparr>;
                       a = a\<lparr>publishes := fmupd tx p (publishes a)\<rparr>
                   in if pp_awaiting p = {||} then finish_publish tx a else ([], a))
                else
                  (let a = a\<lparr>publishes := fmupd tx p (publishes a)\<rparr>
                   in case encode_request ser (Put tx token value) of
                        Some b \<Rightarrow> ([Send b from], a)
                      | None \<Rightarrow> ([], a))))"
| "handle_response ser from (Stored tx addr) a =
     (case fmlookup (publishes a) tx of
        None \<Rightarrow> ([], a)
      | Some p \<Rightarrow>
          if from |\<notin>| pp_awaiting p then ([], a)
          else
            (let p = p\<lparr>pp_awaiting := pp_awaiting p |-| {|from|}, stored := finsert addr (stored p)\<rparr>;
                 a = a\<lparr>publishes := fmupd tx p (publishes a)\<rparr>
             in if pp_awaiting p = {||} then finish_publish tx a else ([], a)))"
| "handle_response ser from (Value tx addr value) a =
     (case fmlookup (resolves a) tx of
        None \<Rightarrow> ([], a)
      | Some p \<Rightarrow>
          if pr_addr p \<noteq> addr \<or> from |\<notin>| pr_awaiting p then ([], a)
          else
            (let p = p\<lparr>pr_awaiting := pr_awaiting p |-| {|from|}, responded := True\<rparr>;
                 (accepted, p) =
                   (case value of
                      Some v \<Rightarrow>
                        if length v \<le> MAX_VALUE_LEN then
                          ((case pr_accept p of None \<Rightarrow> False | Some acc \<Rightarrow> acc v),
                           p\<lparr>pr_values := finsert v (pr_values p)\<rparr>)
                        else (False, p)
                    | None \<Rightarrow> (False, p));
                 a = a\<lparr>resolves := fmupd tx p (resolves a)\<rparr>
             in if accepted \<or> pr_awaiting p = {||} then finish_resolve tx a else ([], a)))"

definition client_handle_packet :: "(proto \<Rightarrow> bytes) \<Rightarrow> (bytes \<Rightarrow> proto option) \<Rightarrow> bytes \<Rightarrow> socket_addr_v4 \<Rightarrow>
    actor \<Rightarrow> event list \<times> actor" where
  "client_handle_packet ser de data from a =
     (case proto_decode de data of
        Some (Response (RespV1 r)) \<Rightarrow> handle_response ser from r a
      | _ \<Rightarrow> ([], a))"

text \<open>The earliest deadline of the operations in flight.\<close>

definition next_deadline :: "actor \<Rightarrow> instant option" where
  "next_deadline a =
     fset_first (pp_deadline |`| fmran (publishes a) |\<union>| pr_deadline |`| fmran (resolves a))"

fun each_tx :: "(transaction_id \<Rightarrow> actor \<Rightarrow> event list \<times> actor) \<Rightarrow> transaction_id list \<Rightarrow> actor \<Rightarrow>
    event list \<times> actor" where
  "each_tx f [] a = ([], a)"
| "each_tx f (tx # txs) a =
     (let (es, a) = f tx a; (es', a) = each_tx f txs a in (es @ es', a))"

definition expired_txs :: "instant \<Rightarrow> ('p \<Rightarrow> instant) \<Rightarrow> (transaction_id, 'p) fmap \<Rightarrow> transaction_id list" where
  "expired_txs now deadline m =
     sorted_list_of_fset (ffilter (\<lambda>tx. case fmlookup m tx of None \<Rightarrow> False | Some p \<Rightarrow> deadline p \<le> now) (fmdom m))"

definition flush_expired :: "instant \<Rightarrow> actor \<Rightarrow> event list \<times> actor" where
  "flush_expired now a =
     (let (es, a) = each_tx finish_publish (expired_txs now pp_deadline (publishes a)) a;
          (es', a) = each_tx finish_resolve (expired_txs now pr_deadline (resolves a)) a
      in (es @ es', a))"

text \<open>One turn of \<open>run\<close>: a message, a datagram, or the timer at the next deadline.\<close>

datatype input =
    Message actor_msg transaction_id instant
  | Packet bytes socket_addr_v4
  | Timer instant

fun actor_step :: "(proto \<Rightarrow> bytes) \<Rightarrow> (bytes \<Rightarrow> proto option) \<Rightarrow> input \<Rightarrow> actor \<Rightarrow> event list \<times> actor" where
  "actor_step ser de (Message m tx now) a = handle_message ser tx now m a"
| "actor_step ser de (Packet data from) a = client_handle_packet ser de data from a"
| "actor_step ser de (Timer now) a = flush_expired now a"

fun actor_run :: "(proto \<Rightarrow> bytes) \<Rightarrow> (bytes \<Rightarrow> proto option) \<Rightarrow> input list \<Rightarrow> actor \<Rightarrow> event list \<times> actor" where
  "actor_run ser de [] a = ([], a)"
| "actor_run ser de (i # is) a =
     (let (es, a) = actor_step ser de i a; (es', a) = actor_run ser de is a in (es @ es', a))"

text \<open>The datagram hook of \<open>attach_with_timeout\<close>: a queue of 256, drops when it is full.\<close>

definition client_hook :: "bytes \<Rightarrow> socket_addr_v4 \<Rightarrow> bool \<Rightarrow> (bytes \<times> socket_addr_v4) list \<Rightarrow>
    bool \<times> (bytes \<times> socket_addr_v4) list" where
  "client_hook data from is_closed q =
     (if \<not> starts_with data MAGIC then (False, q)
      else if is_closed then (False, q)
      else if length q < 256 then (True, q @ [(data, from)])
      else (True, q))"

end
