(* ===== verification/Udp_Client_Correct.thy ===== *)
theory Udp_Client_Correct
  imports Udp_Client
begin

text \<open>
  Correctness of the address index client: every caller is answered exactly once, a value is
  sent to a server at most once per operation, answers come from the servers that were
  asked, and the timer leaves no expired operation behind.
\<close>

section \<open>Values of a finite map as a multiset\<close>

definition vals_mset :: "('v \<Rightarrow> 'b) \<Rightarrow> ('k, 'v) fmap \<Rightarrow> 'b multiset" where
  "vals_mset f m = image_mset (\<lambda>k. f (the (fmlookup m k))) (mset_set (fset (fmdom m)))"

lemma vals_mset_empty [simp]: "vals_mset f fmempty = {#}"
  by (simp add: vals_mset_def)

lemma vals_mset_insert:
  assumes "fmlookup m k = Some v"
  shows "vals_mset f m = add_mset (f v) (vals_mset f (fmdrop k m))"
proof -
  have k: "k |\<in>| fmdom m" using assms by (rule fmdomI)
  have "fset (fmdom m) = insert k (fset (fmdom m) - {k})" using k by auto
  then have "mset_set (fset (fmdom m)) = add_mset k (mset_set (fset (fmdom m) - {k}))"
    by (metis finite_Diff finite_fset mset_set.insert_remove Diff_idemp insert_Diff_single)
  moreover have "image_mset (\<lambda>j. f (the (fmlookup m j))) (mset_set (fset (fmdom m) - {k})) =
      image_mset (\<lambda>j. f (the (fmlookup (fmdrop k m) j))) (mset_set (fset (fmdom m) - {k}))"
    by (rule image_mset_cong) auto
  ultimately show ?thesis using assms by (simp add: vals_mset_def minus_fset.rep_eq)
qed

lemma vals_mset_upd: "vals_mset f (fmupd k v m) = add_mset (f v) (vals_mset f (fmdrop k m))"
proof -
  have "fmdrop k (fmupd k v m) = fmdrop k m" by (rule fmap_ext) simp
  then show ?thesis using vals_mset_insert [of "fmupd k v m" k v f] by simp
qed

section \<open>Callers\<close>

definition pending :: "actor \<Rightarrow> caller multiset" where
  "pending a = vals_mset pp_response (publishes a) + vals_mset pr_response (resolves a)"

fun event_caller :: "event \<Rightarrow> caller multiset" where
  "event_caller (Published c r) = {#c#}"
| "event_caller (Resolved c r) = {#c#}"
| "event_caller (Dropped c) = {#c#}"
| "event_caller (Send b s) = {#}"

definition answered :: "event list \<Rightarrow> caller multiset" where
  "answered es = sum_list (map event_caller es)"

fun asked :: "input \<Rightarrow> caller multiset" where
  "asked (Message (Publish v c) tx now) = {#c#}"
| "asked (Message (Resolve addr acc c) tx now) = {#c#}"
| "asked _ = {#}"

lemma answered_simps [simp]:
  "answered [] = {#}" "answered (e # es) = event_caller e + answered es"
  "answered (es @ es') = answered es + answered es'" "answered (send_all b ss) = {#}"
proof -
  have "sum_list (map event_caller (map (Send b) xs)) = {#}" for xs by (induction xs) auto
  then show "answered (send_all b ss) = {#}" by (simp add: answered_def send_all_def)
qed (simp_all add: answered_def)

lemma finish_publish_pending:
  "finish_publish tx a = (es, a') \<Longrightarrow> answered es + pending a' = pending a"
  by (auto simp: finish_publish_def pending_def Let_def vals_mset_insert split: option.splits)

lemma finish_resolve_pending:
  "finish_resolve tx a = (es, a') \<Longrightarrow> answered es + pending a' = pending a"
  by (auto simp: finish_resolve_def pending_def Let_def vals_mset_insert split: option.splits)

lemma each_tx_pending:
  assumes "\<And>tx a es a'. f tx a = (es, a') \<Longrightarrow> answered es + pending a' = pending a"
  shows "each_tx f txs a = (es, a') \<Longrightarrow> answered es + pending a' = pending a"
proof (induction txs arbitrary: a es)
  case (Cons tx txs)
  obtain es1 a1 where 1: "f tx a = (es1, a1)" by fastforce
  obtain es2 a2 where 2: "each_tx f txs a1 = (es2, a2)" by fastforce
  from Cons.prems 1 2 have "es = es1 @ es2" "a' = a2" by auto
  with assms [OF 1] Cons.IH [of a1 es2] 2 show ?case by (simp add: add.assoc)
qed simp

lemma flush_pending: "flush_expired now a = (es, a') \<Longrightarrow> answered es + pending a' = pending a"
proof -
  assume f: "flush_expired now a = (es, a')"
  obtain es1 a1 where 1: "each_tx finish_publish (expired_txs now pp_deadline (publishes a)) a = (es1, a1)"
    by fastforce
  obtain es2 a2 where 2: "each_tx finish_resolve (expired_txs now pr_deadline (resolves a1)) a1 = (es2, a2)"
    by fastforce
  from f 1 2 have "es = es1 @ es2" "a' = a2" by (auto simp: flush_expired_def)
  with each_tx_pending [OF finish_publish_pending 1] each_tx_pending [OF finish_resolve_pending 2]
  show ?thesis by (simp add: add.assoc)
qed

text \<open>Replacing an operation in flight by one with the same caller keeps the callers.\<close>

lemma pending_upd_publish:
  "fmlookup (publishes a) tx = Some p \<Longrightarrow> pp_response q = pp_response p \<Longrightarrow>
     pending (a\<lparr>publishes := fmupd tx q (publishes a)\<rparr>) = pending a"
  by (simp add: pending_def vals_mset_upd vals_mset_insert)

lemma pending_upd_resolve:
  "fmlookup (resolves a) tx = Some p \<Longrightarrow> pr_response q = pr_response p \<Longrightarrow>
     pending (a\<lparr>resolves := fmupd tx q (resolves a)\<rparr>) = pending a"
  by (simp add: pending_def vals_mset_upd vals_mset_insert)

lemma handle_response_pending:
  "handle_response ser from r a = (es, a') \<Longrightarrow> answered es + pending a' = pending a"
proof (induction ser "from" r a rule: handle_response.induct)
  case (1 ser a0 tx addr token a)
  then show ?case
    by (auto simp: Let_def pending_upd_publish dest!: finish_publish_pending
        split: option.splits if_splits)
next
  case (2 ser a0 tx addr a)
  then show ?case
    by (auto simp: Let_def pending_upd_publish dest!: finish_publish_pending
        split: option.splits if_splits)
next
  case (3 ser a0 tx addr v a)
  then show ?case
    by (auto simp: Let_def pending_upd_resolve dest!: finish_resolve_pending
        split: option.splits if_splits)
qed

lemma handle_message_pending:
  "handle_message ser tx now m a = (es, a') \<Longrightarrow>
     answered es + pending a' = asked (Message m tx now) + pending a"
  by (cases m)
    (auto simp: Let_def insert_publish_def insert_resolve_def pending_def vals_mset_upd
      vals_mset_insert fmdrop_absent split: option.splits if_splits)

lemma actor_step_pending:
  "actor_step ser de i a = (es, a') \<Longrightarrow> answered es + pending a' = asked i + pending a"
  by (cases i)
    (auto simp: handle_message_pending client_handle_packet_def flush_pending
      dest!: handle_response_pending split: option.splits proto.splits response.splits)

lemma actor_run_pending:
  "actor_run ser de is a = (es, a') \<Longrightarrow>
     answered es + pending a' = sum_list (map asked is) + pending a"
proof (induction "is" arbitrary: a es)
  case (Cons i is')
  obtain es1 a1 where 1: "actor_step ser de i a = (es1, a1)" by fastforce
  obtain es2 a2 where 2: "actor_run ser de is' a1 = (es2, a2)" by fastforce
  from Cons.prems 1 2 have "es = es1 @ es2" "a' = a2" by auto
  with actor_step_pending [OF 1] Cons.IH [of a1 es2] 2 show ?case by (simp add: ac_simps)
qed simp

section \<open>One put per server\<close>

definition is_put :: "(bytes \<Rightarrow> proto option) \<Rightarrow> transaction_id \<Rightarrow> socket_addr_v4 \<Rightarrow> event \<Rightarrow> bool" where
  "is_put de tx s e \<longleftrightarrow>
     (case e of Send b s' \<Rightarrow> s' = s \<and>
        (case proto_decode de b of Some (Request (ReqV1 (Put tx' token v))) \<Rightarrow> tx' = tx | _ \<Rightarrow> False)
      | _ \<Rightarrow> False)"

definition puts_to :: "(bytes \<Rightarrow> proto option) \<Rightarrow> transaction_id \<Rightarrow> socket_addr_v4 \<Rightarrow> event list \<Rightarrow> nat" where
  "puts_to de tx s es = length (filter (is_put de tx s) es)"

lemma puts_to_simps [simp]:
  "puts_to de tx s [] = 0" "puts_to de tx s (es @ es') = puts_to de tx s es + puts_to de tx s es'"
  "puts_to de tx s (e # es) = of_bool (is_put de tx s e) + puts_to de tx s es"
  by (simp_all add: puts_to_def)

lemma is_put_other [simp]:
  "\<not> is_put de tx s (Published c r)" "\<not> is_put de tx s (Resolved c r')" "\<not> is_put de tx s (Dropped c)"
  by (simp_all add: is_put_def)

text \<open>How many puts the operation may still send to a server, when \<open>F\<close> are the ids to come.\<close>

definition budget :: "actor \<Rightarrow> transaction_id set \<Rightarrow> transaction_id \<Rightarrow> socket_addr_v4 \<Rightarrow> nat" where
  "budget a F tx s =
     (case fmlookup (publishes a) tx of
        Some p \<Rightarrow> of_bool (s |\<notin>| prepared p) | None \<Rightarrow> of_bool (tx \<in> F))"

fun publish_ids :: "input \<Rightarrow> transaction_id list" where
  "publish_ids (Message (Publish v c) tx now) = [tx]"
| "publish_ids _ = []"

lemma finish_publish_eq:
  "publishes (snd (finish_publish tx a)) = fmdrop tx (publishes a)"
  "puts_to de t s (fst (finish_publish tx a)) = 0"
  by (simp_all add: finish_publish_def Let_def fmdrop_absent split: option.split)

lemma finish_resolve_eq:
  "publishes (snd (finish_resolve tx a)) = publishes a"
  "puts_to de t s (fst (finish_resolve tx a)) = 0"
  by (simp_all add: finish_resolve_def Let_def split: option.split)

text \<open>\<open>shrinks\<close>: no put is sent and operations only end.\<close>

definition shrinks :: "actor \<Rightarrow> event list \<times> actor \<Rightarrow> bool" where
  "shrinks a r \<longleftrightarrow>
     (\<forall>tx p. fmlookup (publishes (snd r)) tx = Some p \<longrightarrow> fmlookup (publishes a) tx = Some p) \<and>
     (\<forall>de tx s. puts_to de tx s (fst r) = 0)"

lemma shrinks_refl [simp]: "shrinks a ([], a)"
  by (simp add: shrinks_def)

lemma shrinks_finish: "shrinks a (finish_publish tx a)" "shrinks a (finish_resolve tx a)"
  by (simp_all add: shrinks_def finish_publish_eq finish_resolve_eq)

lemma shrinks_trans: "shrinks a (es, b) \<Longrightarrow> shrinks b (es', c) \<Longrightarrow> shrinks a (es @ es', c)"
  unfolding shrinks_def fst_conv snd_conv puts_to_simps by blast

lemma shrinks_each: "(\<And>tx a. shrinks a (f tx a)) \<Longrightarrow> shrinks a (each_tx f txs a)"
proof (induction txs arbitrary: a)
  case (Cons tx txs)
  obtain es b where 1: "f tx a = (es, b)" by fastforce
  obtain es' c where 2: "each_tx f txs b = (es', c)" by fastforce
  from Cons.prems [of a tx] Cons.IH [OF Cons.prems, of b] 1 2 show ?case
    by (auto intro: shrinks_trans)
qed simp

lemma shrinks_flush: "shrinks a (flush_expired now a)"
proof -
  obtain es b where 1: "each_tx finish_publish (expired_txs now pp_deadline (publishes a)) a = (es, b)"
    by fastforce
  obtain es' c where 2: "each_tx finish_resolve (expired_txs now pr_deadline (resolves b)) b = (es', c)"
    by fastforce
  have "shrinks a (es, b)" 
    unfolding 1 [symmetric] by (rule shrinks_each) (rule shrinks_finish)
  moreover have "shrinks b (es', c)" 
    unfolding 2 [symmetric] by (rule shrinks_each) (rule shrinks_finish)
  ultimately show ?thesis using 1 2 by (simp add: flush_expired_def shrinks_trans)
qed

lemma shrinks_budget:
  assumes "shrinks a (es, a')" "F \<inter> fset (fmdom (publishes a)) = {}"
  shows "puts_to de tx s es + budget a' F tx s \<le> budget a F tx s"
proof (cases "fmlookup (publishes a') tx")
  case None
  with assms show ?thesis
    by (auto simp: shrinks_def budget_def fmlookup_dom_iff split: option.splits)
next
  case (Some p)
  with assms(1) have "fmlookup (publishes a) tx = Some p" "puts_to de tx s es = 0"
    by (auto simp: shrinks_def)
  with Some show ?thesis by (simp add: budget_def)
qed

text \<open>What the client encodes is read back as what it encoded.\<close>

lemma encode_request_decode:
  assumes "proto_wire ser de vlen" "proto_valid (Request (ReqV1 r))" "encode_request ser r = Some b"
  shows "proto_decode de b = Some (Request (ReqV1 r))"
  using assms proto_wire.decode_encode [OF assms(1,2)]
  by (auto simp: encode_request_def split: sum.splits)

lemma puts_to_send_all:
  assumes "proto_decode de b = Some (Request (ReqV1 r))" "\<And>token v. r \<noteq> Put tx token v"
  shows "puts_to de tx s (send_all b ss) = 0"
  using assms by (auto simp: puts_to_def send_all_def is_put_def filter_empty_conv split: request_v1.splits)

lemma budget_upd:
  "budget (a\<lparr>publishes := fmupd t p (publishes a)\<rparr>) F tx s =
     (if tx = t then of_bool (s |\<notin>| prepared p) else budget a F tx s)"
  by (simp add: budget_def)

lemma budget_finish:
  "budget (snd (finish_publish t a)) F tx s = (if tx = t then of_bool (tx \<in> F) else budget a F tx s)"
  by (simp add: budget_def finish_publish_eq)

lemma handle_response_budget:
  assumes de: "proto_wire ser de vlen" and F: "F \<inter> fset (fmdom (publishes a)) = {}"
  shows "proto_valid (Response (RespV1 r)) \<Longrightarrow>
    puts_to de tx s (fst (handle_response ser sender r a)) +
      budget (snd (handle_response ser sender r a)) F tx s \<le> budget a F tx s"
proof (cases r)
  case (Prepared t addr token)
  assume valid: "proto_valid (Response (RespV1 r))"
  show ?thesis
  proof (cases "fmlookup (publishes a) t")
    case None
    with Prepared show ?thesis by simp
  next
    case (Some p)
    then have t: "t \<notin> F" using F by (auto simp: fmlookup_dom_iff)
    let ?v = "pp_value p addr" and ?q = "p\<lparr>prepared := finsert sender (prepared p)\<rparr>"
    have put: "is_put de tx s (Send b sender) \<longleftrightarrow> tx = t \<and> s = sender"
      if "encode_request ser (Put t token ?v) = Some b" "length ?v \<le> MAX_VALUE_LEN" for b
      using encode_request_decode [OF de _ that(1)] that(2) valid Prepared
      by (auto simp: is_put_def MAX_VALUE_LEN_def)
    show ?thesis
      using Some t Prepared put
      by (auto simp: Let_def budget_upd budget_finish finish_publish_eq not_less budget_def
          split: option.splits)
  qed
next
  case (Stored t addr)
  show ?thesis
  proof (cases "fmlookup (publishes a) t")
    case None
    with Stored show ?thesis by simp
  next
    case (Some p)
    then have t: "t \<notin> F" using F by (auto simp: fmlookup_dom_iff)
    show ?thesis
      using Some t Stored by (auto simp: Let_def budget_upd budget_finish finish_publish_eq budget_def)
  qed
next
  case (Value t addr v)
  have "publishes (snd (handle_response ser sender r a)) = publishes a \<and>
      puts_to de tx s (fst (handle_response ser sender r a)) = 0"
    using Value by (auto simp: Let_def finish_resolve_eq case_prod_unfold split: option.split)
  then show ?thesis by (simp add: budget_def)
qed

lemma handle_message_budget:
  assumes de: "proto_wire ser de vlen"
    and F: "F \<inter> fset (fmdom (publishes a)) = {}" "\<And>v c. m = Publish v c \<Longrightarrow> t \<notin> fset (fmdom (publishes a))"
  shows "puts_to de tx s (fst (handle_message ser t now m a)) +
    budget (snd (handle_message ser t now m a)) F tx s \<le>
      budget a (F \<union> set (publish_ids (Message m t now))) tx s"
proof (cases m)
  case (Publish v c)
  then have "fmlookup (publishes a) t = None" using F(2) by (simp add: fmdom_notD)
  moreover have "puts_to de tx s (send_all b ss) = 0"
    if "encode_request ser (Prepare t (replicate 24 0)) = Some b" for b ss
    by (rule puts_to_send_all [OF encode_request_decode [OF de _ that]]) simp_all
  ultimately show ?thesis using Publish
    by (auto simp: Let_def insert_publish_def budget_def split: option.split)
next
  case (Resolve addr acc c)
  moreover have "puts_to de tx s (send_all b ss) = 0"
    if "encode_request ser (Get t addr) = Some b" for b ss
    by (rule puts_to_send_all [OF encode_request_decode [OF de _ that]]) simp_all
  ultimately show ?thesis
    by (auto simp: Let_def insert_resolve_def budget_def split: option.split)
qed (simp_all add: budget_def)

lemma actor_step_dom:
  "fset (fmdom (publishes (snd (actor_step ser de i a)))) \<subseteq>
     fset (fmdom (publishes a)) \<union> set (publish_ids i)"
proof (cases i)
  case (Message m tx now)
  then show ?thesis
    by (cases m) (auto simp: Let_def insert_publish_def insert_resolve_def split: option.split)
next
  case (Packet data sender)
  have "fset (fmdom (publishes (snd (handle_response ser sender r a)))) \<subseteq> fset (fmdom (publishes a))" for r
    by (cases r)
      (auto simp: Let_def case_prod_unfold finish_publish_eq finish_resolve_eq fmdomI split: option.splits)
  with Packet show ?thesis
    by (auto simp: client_handle_packet_def split: option.splits proto.splits response.splits)
next
  case (Timer now)
  with shrinks_flush [of a now] show ?thesis by (auto simp: shrinks_def fmlookup_dom_iff)
qed

lemma actor_step_budget:
  assumes de: "proto_wire ser de vlen"
    and F: "F \<inter> fset (fmdom (publishes a)) = {}"
      "set (publish_ids i) \<inter> fset (fmdom (publishes a)) = {}"
  shows "puts_to de tx s (fst (actor_step ser de i a)) + budget (snd (actor_step ser de i a)) F tx s \<le>
    budget a (F \<union> set (publish_ids i)) tx s"
proof (cases i)
  case (Message m t now)
  then have "t |\<notin>| fmdom (publishes a)" if "m = Publish v c" for v c using F(2) that by simp
  with Message handle_message_budget [OF de F(1), of m t tx s now] show ?thesis by simp
next
  case (Packet data sender)
  have "proto_valid p" if "proto_decode de data = Some p" for p
    using that postcard.de_valid [OF proto_wire.axioms(1) [OF de]] by (auto simp: proto_decode_Some)
  with Packet handle_response_budget [OF de F(1), of _ tx s sender] show ?thesis
    by (auto simp: client_handle_packet_def split: option.split proto.split response.split
        simp del: handle_response.simps)
next
  case (Timer now)
  with shrinks_budget [OF _ F(1), of "fst (flush_expired now a)" "snd (flush_expired now a)" de tx s]
    shrinks_flush [of a now] show ?thesis by simp
qed

lemma actor_run_budget:
  assumes de: "proto_wire ser de vlen"
  shows "distinct (concat (map publish_ids is)) \<Longrightarrow>
    set (concat (map publish_ids is)) \<inter> fset (fmdom (publishes a)) = {} \<Longrightarrow>
    puts_to de tx s (fst (actor_run ser de is a)) \<le> budget a (set (concat (map publish_ids is))) tx s"
proof (induction "is" arbitrary: a)
  case (Cons i is')
  let ?F = "set (concat (map publish_ids is'))"
  obtain es a1 where 1: "actor_step ser de i a = (es, a1)" by fastforce
  have "?F \<inter> fset (fmdom (publishes a1)) = {}"
    using actor_step_dom [of ser de i a] 1 Cons.prems by auto
  with Cons have "puts_to de tx s (fst (actor_run ser de is' a1)) \<le> budget a1 ?F tx s" by simp
  moreover have "puts_to de tx s es + budget a1 ?F tx s \<le> budget a (?F \<union> set (publish_ids i)) tx s"
    using actor_step_budget [OF de, of ?F a i tx s] 1 Cons.prems by auto
  ultimately show ?case using 1 by (simp add: case_prod_unfold Let_def Un_commute)
qed simp

section \<open>Where values come from\<close>

lemma actor_run_snoc:
  "actor_run ser de (is @ [i]) a =
     (let (es, b) = actor_run ser de is a; (es', c) = actor_step ser de i b in (es @ es', c))"
  by (induction "is" arbitrary: a) (auto simp: case_prod_unfold Let_def)

definition asked_for :: "(bytes \<Rightarrow> proto option) \<Rightarrow> event list \<Rightarrow> transaction_id \<Rightarrow> socket_addr_v4 \<Rightarrow>
    socket_addr_v4 \<Rightarrow> bool" where
  "asked_for de es tx addr s \<longleftrightarrow>
     (\<exists>b. Send b s \<in> set es \<and> proto_decode de b = Some (Request (ReqV1 (Get tx addr))))"

text \<open>A value has a source: a datagram with it, from a server that was sent that query.\<close>

definition has_source :: "(bytes \<Rightarrow> proto option) \<Rightarrow> input list \<Rightarrow> event list \<Rightarrow> bytes \<Rightarrow> bool" where
  "has_source de is es v \<longleftrightarrow> length v \<le> MAX_VALUE_LEN \<and>
     (\<exists>data s tx addr. Packet data s \<in> set is \<and>
        proto_decode de data = Some (Response (RespV1 (Value tx addr (Some v)))) \<and>
        asked_for de es tx addr s)"

definition resolves_ok :: "(bytes \<Rightarrow> proto option) \<Rightarrow> input list \<Rightarrow> event list \<Rightarrow> actor \<Rightarrow> bool" where
  "resolves_ok de is es a \<longleftrightarrow>
     (\<forall>tx p. fmlookup (resolves a) tx = Some p \<longrightarrow>
        (\<forall>s. s |\<in>| pr_awaiting p \<longrightarrow> asked_for de es tx (pr_addr p) s) \<and>
        (\<forall>v. v |\<in>| pr_values p \<longrightarrow> has_source de is es v)) \<and>
     (\<forall>c vs. Resolved c (Inr vs) \<in> set es \<longrightarrow>
        sorted vs \<and> distinct vs \<and> (\<forall>v \<in> set vs. has_source de is es v))"

lemma asked_for_mono: "asked_for de es tx addr s \<Longrightarrow> asked_for de (es @ es') tx addr s"
  by (auto simp: asked_for_def)

lemma has_source_mono: "has_source de is es v \<Longrightarrow> has_source de (is @ is') (es @ es') v"
  unfolding has_source_def using asked_for_mono by (metis UnI1 set_append)

lemma resolves_ok_grow:
  assumes "resolves_ok de is es a" "resolves a' = resolves a" "\<And>c vs. Resolved c (Inr vs) \<notin> set es'"
  shows "resolves_ok de (is @ [i]) (es @ es') a'"
  using assms by (auto simp: resolves_ok_def asked_for_mono has_source_mono)

lemma resolves_ok_finish:
  assumes "resolves_ok de is es a"
  shows "resolves_ok de is (es @ fst (finish_resolve tx a)) (snd (finish_resolve tx a))"
proof (cases "fmlookup (resolves a) tx")
  case None
  with assms show ?thesis by (simp add: finish_resolve_def)
next
  case (Some p)
  have mono: "has_source de is es v \<Longrightarrow> has_source de is (es @ es') v" for v es'
    using has_source_mono [of de "is" es v "[]" es'] by simp
  show ?thesis
    using assms Some
    by (auto simp: resolves_ok_def finish_resolve_def Let_def asked_for_mono mono split: if_splits)
qed

lemma resolves_ok_each:
  "resolves_ok de is es a \<Longrightarrow>
     resolves_ok de is (es @ fst (each_tx finish_resolve txs a)) (snd (each_tx finish_resolve txs a))"
proof (induction txs arbitrary: es a)
  case (Cons tx txs)
  from Cons.IH [OF resolves_ok_finish [OF Cons.prems, of tx]] show ?case
    by (simp add: case_prod_unfold Let_def)
qed simp

text \<open>Ending publications touches no lookup.\<close>

lemma finish_publish_resolves:
  "resolves (snd (finish_publish tx a)) = resolves a"
  "Resolved c r \<notin> set (fst (finish_publish tx a))"
  by (simp_all add: finish_publish_def Let_def split: option.split)

lemma each_publish_resolves:
  "resolves (snd (each_tx finish_publish txs a)) = resolves a \<and>
     Resolved c r \<notin> set (fst (each_tx finish_publish txs a))"
  by (induction txs arbitrary: a) (auto simp: case_prod_unfold Let_def finish_publish_resolves)

lemma send_all_no_resolved [simp]: "Resolved c r \<notin> set (send_all b ss)"
  by (auto simp: send_all_def)

lemma resolves_ok_message:
  assumes de: "proto_wire ser de vlen" and ok: "resolves_ok de is es a"
  shows "resolves_ok de (is @ [i]) (es @ fst (handle_message ser tx now m a)) (snd (handle_message ser tx now m a))"
proof (cases m)
  case (Resolve addr acc c)
  show ?thesis
  proof (cases "servers a = {||} \<or> encode_request ser (Get tx addr) = None")
    case True
    with Resolve show ?thesis by (intro resolves_ok_grow [OF ok]) (auto split: option.split)
  next
    case False
    then obtain b where b: "encode_request ser (Get tx addr) = Some b" by auto
    let ?es = "fst (handle_message ser tx now m a)" and ?a = "snd (handle_message ser tx now m a)"
    have dec: "proto_decode de b = Some (Request (ReqV1 (Get tx addr)))"
      by (rule encode_request_decode [OF de _ b]) simp
    have "asked_for de (es @ ?es) tx addr s" if "s |\<in>| servers a" for s
      using that b dec False Resolve
      by (auto simp: asked_for_def send_all_def Let_def insert_resolve_def)
    moreover have "Resolved c' r \<notin> set ?es" for c' r
      using b False Resolve by (auto simp: Let_def insert_resolve_def split: option.split)
    ultimately show ?thesis
      using ok b False Resolve
      by (auto simp: resolves_ok_def Let_def insert_resolve_def asked_for_mono has_source_mono
          split: if_splits)
  qed
next
  case (Publish v c)
  show ?thesis unfolding Publish
    by (rule resolves_ok_grow [OF ok]) (auto simp: Let_def insert_publish_def split: option.split)
qed (use resolves_ok_grow [OF ok, of _ "[]"] in auto)

lemma resolves_ok_response:
  assumes ok: "resolves_ok de is es a"
    and data: "proto_decode de data = Some (Response (RespV1 r))"
  shows "resolves_ok de (is @ [Packet data s]) (es @ fst (handle_response ser s r a))
    (snd (handle_response ser s r a))"
proof (cases r)
  case (Value tx addr v)
  have grown: "resolves_ok de (is @ [Packet data s]) (es @ []) a"
    by (rule resolves_ok_grow [OF ok]) simp_all
  show ?thesis
  proof (cases "fmlookup (resolves a) tx")
    case None
    with Value grown show ?thesis by simp
  next
    case (Some p)
    show ?thesis
    proof (cases "pr_addr p = addr \<and> s |\<in>| pr_awaiting p")
      case False
      with Value Some grown show ?thesis by auto
    next
      case True
      then have src: "has_source de (is @ [Packet data s]) es w" if "v = Some w" "length w \<le> MAX_VALUE_LEN" for w
        using ok Some that data Value unfolding has_source_def resolves_ok_def by fastforce
      define q where "q = (let p = p\<lparr>pr_awaiting := pr_awaiting p |-| {|s|}, responded := True\<rparr> in
        case v of Some w \<Rightarrow> if length w \<le> MAX_VALUE_LEN then p\<lparr>pr_values := finsert w (pr_values p)\<rparr> else p
          | None \<Rightarrow> p)"
      let ?a = "a\<lparr>resolves := fmupd tx q (resolves a)\<rparr>"
      have q: "pr_addr q = pr_addr p" "pr_awaiting q |\<subseteq>| pr_awaiting p"
        by (auto simp: q_def Let_def split: option.splits if_splits)
      have vals: "has_source de (is @ [Packet data s]) es w" if "w |\<in>| pr_values q" for w
      proof (cases "w |\<in>| pr_values p")
        case True
        with grown Some show ?thesis by (auto simp: resolves_ok_def)
      next
        case False
        with that have "v = Some w" "length w \<le> MAX_VALUE_LEN"
          by (auto simp: q_def Let_def split: option.splits if_splits)
        then show ?thesis by (rule src)
      qed
      with grown q Some have ok': "resolves_ok de (is @ [Packet data s]) es ?a"
        unfolding resolves_ok_def by (auto 0 3 split: if_splits)
      have "handle_response ser s r a = ([], ?a) \<or> handle_response ser s r a = finish_resolve tx ?a"
        using Value Some True by (auto simp: q_def Let_def split: option.split)
      with ok' resolves_ok_finish [OF ok', of tx] show ?thesis by auto
    qed
  qed
next
  case (Prepared tx addr token)
  show ?thesis unfolding Prepared
    by (rule resolves_ok_grow [OF ok])
      (auto simp: Let_def finish_publish_resolves split: option.split)
next
  case (Stored tx addr)
  show ?thesis unfolding Stored
    by (rule resolves_ok_grow [OF ok])
      (auto simp: Let_def finish_publish_resolves split: option.split)
qed

lemma resolves_ok_run:
  assumes de: "proto_wire ser de vlen"
  shows "resolves_ok de is (fst (actor_run ser de is (actor_new t))) (snd (actor_run ser de is (actor_new t)))"
proof (induction "is" rule: rev_induct)
  case Nil
  then show ?case by (simp add: resolves_ok_def actor_new_def)
next
  case (snoc i is')
  let ?es = "fst (actor_run ser de is' (actor_new t))" and ?a = "snd (actor_run ser de is' (actor_new t))"
  have "resolves_ok de (is' @ [i]) (?es @ fst (actor_step ser de i ?a)) (snd (actor_step ser de i ?a))"
  proof (cases i)
    case (Message m tx now)
    then show ?thesis using resolves_ok_message [OF de snoc] by simp
  next
    case (Packet data s)
    have "resolves_ok de (is' @ [i]) (?es @ []) ?a" by (rule resolves_ok_grow [OF snoc]) simp_all
    with Packet resolves_ok_response [OF snoc, of data _ s ser] show ?thesis
      by (auto simp: client_handle_packet_def simp del: handle_response.simps
          split: option.split proto.split response.split)
  next
    case (Timer now)
    let ?p = "each_tx finish_publish (expired_txs now pp_deadline (publishes ?a)) ?a"
    have "resolves_ok de (is' @ [i]) (?es @ fst ?p) (snd ?p)"
      by (rule resolves_ok_grow [OF snoc]) (use each_publish_resolves in blast)+
    from resolves_ok_each [OF this] Timer show ?thesis
      by (simp add: flush_expired_def case_prod_unfold Let_def)
  qed
  then show ?case by (simp add: actor_run_snoc case_prod_unfold Let_def)
qed

section \<open>The timer\<close>

lemma each_publish_lookup:
  "fmlookup (publishes (snd (each_tx finish_publish txs a))) tx =
     (if tx \<in> set txs then None else fmlookup (publishes a) tx)"
  by (induction txs arbitrary: a) (auto simp: case_prod_unfold Let_def finish_publish_eq)

lemma finish_resolve_lookup: "resolves (snd (finish_resolve tx a)) = fmdrop tx (resolves a)"
  by (simp add: finish_resolve_def Let_def fmdrop_absent split: option.split)

lemma each_resolve_lookup:
  "fmlookup (resolves (snd (each_tx finish_resolve txs a))) tx =
     (if tx \<in> set txs then None else fmlookup (resolves a) tx) \<and>
   publishes (snd (each_tx finish_resolve txs a)) = publishes a"
  by (induction txs arbitrary: a)
    (auto simp: case_prod_unfold Let_def finish_resolve_lookup finish_resolve_eq)

lemma set_expired_txs:
  "tx \<in> set (expired_txs now deadline m) \<longleftrightarrow> (\<exists>p. fmlookup m tx = Some p \<and> deadline p \<le> now)"
  by (auto simp: expired_txs_def fmlookup_dom_iff split: option.splits)

lemma flush_publishes:
  "fmlookup (publishes (snd (flush_expired now a))) tx =
     (case fmlookup (publishes a) tx of None \<Rightarrow> None
      | Some p \<Rightarrow> if pp_deadline p \<le> now then None else Some p)"
  by (auto simp: flush_expired_def case_prod_unfold Let_def each_publish_lookup each_resolve_lookup
      set_expired_txs split: option.split)

lemma flush_resolves:
  "fmlookup (resolves (snd (flush_expired now a))) tx =
     (case fmlookup (resolves a) tx of None \<Rightarrow> None
      | Some p \<Rightarrow> if pr_deadline p \<le> now then None else Some p)"
  using each_publish_resolves
  by (auto simp: flush_expired_def case_prod_unfold Let_def each_resolve_lookup
      set_expired_txs split: option.split)

lemma next_deadline_Some:
  assumes "next_deadline a = Some t"
  shows "(\<exists>tx p. fmlookup (publishes a) tx = Some p \<and> pp_deadline p = t) \<or>
    (\<exists>tx p. fmlookup (resolves a) tx = Some p \<and> pr_deadline p = t)"
proof -
  have "t |\<in>| pp_deadline |`| fmran (publishes a) |\<union>| pr_deadline |`| fmran (resolves a)"
    using fset_first_SomeD [OF assms [unfolded next_deadline_def]] by simp
  then show ?thesis by (fastforce simp: fmlookup_ran_iff)
qed

section \<open>Properties\<close>

text \<open>
  C15: every caller of \<open>publish\<close> and \<open>resolve\<close> is answered exactly once. In any run of the actor,
  the callers answered so far (or dropped because their transaction id was drawn again)
  together with those of the operations still in flight are exactly the callers that
  asked, with multiplicity.
\<close>

theorem callers_conserved:
  "answered (fst (actor_run ser de is (actor_new t))) + pending (snd (actor_run ser de is (actor_new t))) =
     sum_list (map asked is)"
  using actor_run_pending [of ser de "is" "actor_new t"]
  by (simp add: actor_new_def pending_def prod_eq_iff)

text \<open>
  C16: one put per server per operation. Whatever datagrams arrive, repeated and forged
  \<open>Prepared\<close> included, the client sends at most one \<open>Put\<close> for a transaction to a server, as
  long as the transaction ids of its publications are distinct.
\<close>

theorem one_put_per_server:
  assumes "proto_wire ser de vlen" "distinct (concat (map publish_ids is))"
  shows "puts_to de tx s (fst (actor_run ser de is (actor_new t))) \<le> 1"
proof -
  have "puts_to de tx s (fst (actor_run ser de is (actor_new t))) \<le>
      budget (actor_new t) (set (concat (map publish_ids is))) tx s"
    by (rule actor_run_budget [OF assms]) (simp add: actor_new_def)
  also have "\<dots> \<le> 1" by (simp add: budget_def actor_new_def)
  finally show ?thesis .
qed

definition client_server :: socket_addr_v4 where "client_server = SocketAddrV4 7 8"

lemma one_put_per_server_witness:
  "puts_to proto_de 5 client_server (fst (actor_run proto_ser proto_de
     [Message (AddServer client_server) 0 0, Message (Publish (\<lambda>_. [1]) 3) 5 0] (actor_new DEFAULT_TIMEOUT))) \<le> 1"
  by (rule one_put_per_server [OF wire.proto_wire_axioms]) simp

text \<open>
  C17: the values a lookup returns are sorted, without duplicates, at most 1024 bytes each, and
  each came in a datagram, for the transaction and the address that were asked for, from a
  server to which this client had sent that very query.
\<close>

theorem resolve_sources:
  assumes "proto_wire ser de vlen" "Resolved c (Inr vs) \<in> set (fst (actor_run ser de is (actor_new t)))"
  shows "sorted vs \<and> distinct vs \<and>
    (\<forall>v \<in> set vs. has_source de is (fst (actor_run ser de is (actor_new t))) v)"
  using resolves_ok_run [OF assms(1), of "is" t] assms(2) by (simp add: resolves_ok_def)

lemma resolve_sources_witness:
  "\<exists>is. Resolved 3 (Inr [[7]]) \<in> set (fst (actor_run proto_ser proto_de is (actor_new DEFAULT_TIMEOUT))) \<and>
     has_source proto_de is (fst (actor_run proto_ser proto_de is (actor_new DEFAULT_TIMEOUT))) [7]"
proof -
  let ?v = "Response (RespV1 (Value 9 client_server (Some [7])))"
  have v: "proto_valid ?v" "value_bounded ?v" by (simp_all add: MAX_VALUE_LEN_def)
  obtain d where d: "proto_encode proto_ser ?v = Inr d" using wire.encode_total [OF v] by blast
  have dec: "proto_decode proto_de d = Some ?v" using wire.decode_encode [OF v(1) d] .
  obtain b where b: "encode_request proto_ser (Get 9 client_server) = Some b"
    using wire.encode_total [of "Request (ReqV1 (Get 9 client_server))"] by (auto simp: encode_request_def)
  define ins where "ins = [Message (AddServer client_server) 0 0,
    Message (Resolve client_server None 3) 9 0, Packet d client_server]"
  have "Resolved 3 (Inr [[7]]) \<in> set (fst (actor_run proto_ser proto_de ins (actor_new DEFAULT_TIMEOUT)))"
    by (simp add: ins_def actor_new_def b dec Let_def insert_resolve_def client_handle_packet_def
        finish_resolve_def MAX_VALUE_LEN_def sorted_list_of_fset.rep_eq)
  with resolve_sources [OF wire.proto_wire_axioms this] show ?thesis by auto
qed

text \<open>
  The timer ends exactly the operations whose deadline has passed and leaves the others
  as they are, and afterwards the next deadline is in the future: the loop sleeps again
  instead of spinning.
\<close>

theorem timer_flushes:
  "(\<forall>tx. fmlookup (publishes (snd (flush_expired now a))) tx =
     (case fmlookup (publishes a) tx of None \<Rightarrow> None
      | Some p \<Rightarrow> if pp_deadline p \<le> now then None else Some p)) \<and>
   (\<forall>tx. fmlookup (resolves (snd (flush_expired now a))) tx =
     (case fmlookup (resolves a) tx of None \<Rightarrow> None
      | Some p \<Rightarrow> if pr_deadline p \<le> now then None else Some p)) \<and>
   (case next_deadline (snd (flush_expired now a)) of None \<Rightarrow> True | Some t \<Rightarrow> now < t)"
proof -
  have "now < t" if "next_deadline (snd (flush_expired now a)) = Some t" for t
    using next_deadline_Some [OF that]
    by (auto simp: flush_publishes flush_resolves split: option.splits if_splits)
  then show ?thesis by (auto simp: flush_publishes flush_resolves split: option.split)
qed

end
