(* ===== verification/Server_List.thy ===== *)
theory Server_List
  imports Text
begin

text \<open>
  Curated lists of index servers, \<open>iroh-mainline-endpoint-discovery/src/server_list.rs\<close>: validation,
  and the encoding as TXT records of a DNS packet. Socket addresses are printed and parsed as the
  standard library does; the DNS packet codec and the z-base-32 name of a key are outside the
  repository and enter as the fields of \<open>dns_ext\<close>.
\<close>

section \<open>Socket addresses as text\<close>

definition show_ip :: "ipv4_addr \<Rightarrow> string" where
  "show_ip ip =
     (case map (decimal \<circ> unat) (ip_octets ip) of
        [a, b, c, d] \<Rightarrow> a @ ''.'' @ b @ ''.'' @ c @ ''.'' @ d | _ \<Rightarrow> [])"

definition show_socket :: "socket_addr_v4 \<Rightarrow> string" where
  "show_socket a = show_ip (sa_ip a) @ '':'' @ decimal (unat (sa_port a))"

text \<open>An octet has one to three digits, no leading zero, and is at most 255.\<close>

definition parse_octet :: "string \<Rightarrow> nat option" where
  "parse_octet s =
     (if s = [] \<or> length s > 3 \<or> \<not> list_all is_digit s \<or> (length s > 1 \<and> hd s = CHR ''0'') then None
      else if read_decimal s \<le> 255 then Some (read_decimal s) else None)"

definition parse_ip :: "string \<Rightarrow> ipv4_addr option" where
  "parse_ip s =
     (case map parse_octet (split_on CHR ''.'' s) of
        [Some a, Some b, Some c, Some d] \<Rightarrow> Some (of_nat (from_be [of_nat a, of_nat b, of_nat c, of_nat d]))
      | _ \<Rightarrow> None)"

definition parse_port :: "string \<Rightarrow> u16 option" where
  "parse_port s =
     (if s = [] \<or> \<not> list_all is_digit s \<or> read_decimal s \<ge> 2 ^ 16 then None
      else Some (of_nat (read_decimal s)))"

definition parse_socket :: "string \<Rightarrow> socket_addr_v4 option" where
  "parse_socket s =
     (case split_once CHR '':'' s of
        None \<Rightarrow> None
      | Some (ip, port) \<Rightarrow>
          (case (parse_ip ip, parse_port port) of
             (Some i, Some p) \<Rightarrow> Some (SocketAddrV4 i p) | _ \<Rightarrow> None))"

section \<open>Lists\<close>

datatype list_error = TooManyServers | InvalidSocket

definition valid_address :: "socket_addr_v4 \<Rightarrow> bool" where
  "valid_address a \<longleftrightarrow> sa_port a \<noteq> 0 \<and> \<not> ip_is_unspecified (sa_ip a) \<and>
     \<not> ip_is_multicast (sa_ip a) \<and> \<not> ip_is_broadcast (sa_ip a)"

fun dedup :: "'a list \<Rightarrow> 'a list \<Rightarrow> 'a list" where
  "dedup unique [] = unique"
| "dedup unique (x # xs) = dedup (if x \<in> set unique then unique else unique @ [x]) xs"

definition server_list_new :: "socket_addr_v4 list \<Rightarrow> list_error + socket_addr_v4 list" where
  "server_list_new addresses =
     (if length addresses > 2 then Inl TooManyServers
      else if \<not> list_all valid_address addresses then Inl InvalidSocket
      else Inr (dedup [] addresses))"

section \<open>DNS packets\<close>

text \<open>The answers of a packet. A TXT record's text is missing when it is not valid UTF-8.\<close>

datatype rdata = TXT "string option" | OtherData bytes

record dns_record =
  rr_name :: string
  rr_in :: bool
  rr_ttl :: nat
  rr_data :: rdata

record dns_ext =
  dns_build :: "dns_record list \<Rightarrow> bytes"
  dns_parse :: "bytes \<Rightarrow> dns_record list option"
  dns_name :: "bytes \<Rightarrow> string"

definition server_list_answers :: "dns_ext \<Rightarrow> bytes \<Rightarrow> socket_addr_v4 list \<Rightarrow> dns_record list" where
  "server_list_answers x key l =
     (let vals = (if l = [] then [[]] else map show_socket l)
      in map (\<lambda>v. \<lparr>rr_name = dns_name x key, rr_in = True, rr_ttl = 300, rr_data = TXT (Some v)\<rparr>) vals)"

definition server_list_encode :: "dns_ext \<Rightarrow> bytes \<Rightarrow> socket_addr_v4 list \<Rightarrow> bytes" where
  "server_list_encode x key l = dns_build x (server_list_answers x key l)"

fun apex_sockets :: "string \<Rightarrow> dns_record list \<Rightarrow> socket_addr_v4 list \<Rightarrow> socket_addr_v4 list option" where
  "apex_sockets name [] addresses = Some addresses"
| "apex_sockets name (r # rs) addresses =
     (if \<not> rr_in r \<or> rr_name r \<noteq> name then apex_sockets name rs addresses
      else case rr_data r of
        OtherData _ \<Rightarrow> apex_sockets name rs addresses
      | TXT None \<Rightarrow> None
      | TXT (Some text) \<Rightarrow>
          if text = [] then apex_sockets name rs addresses
          else (case parse_socket text of
                  None \<Rightarrow> None
                | Some a \<Rightarrow> apex_sockets name rs (addresses @ [a])))"

definition server_list_decode :: "dns_ext \<Rightarrow> bytes \<Rightarrow> bytes \<Rightarrow> socket_addr_v4 list option" where
  "server_list_decode x v key =
     (if length v > 1000 then None
      else case dns_parse x v of
        None \<Rightarrow> None
      | Some answers \<Rightarrow>
          (case apex_sockets (dns_name x key) answers [] of
             None \<Rightarrow> None
           | Some addresses \<Rightarrow>
               (case server_list_new addresses of Inl _ \<Rightarrow> None | Inr l \<Rightarrow> Some l)))"

text \<open>A BEP44 item, and signing a list; the signature is not modelled, the item is what it covers.\<close>

record mutable_item =
  mi_key :: bytes
  mi_seq :: int
  mi_value :: bytes
  mi_salt :: "bytes option"

definition server_list_sign :: "dns_ext \<Rightarrow> bytes \<Rightarrow> int \<Rightarrow> socket_addr_v4 list \<Rightarrow> mutable_item option" where
  "server_list_sign x key sequence l =
     (if sequence < 0 then None
      else Some \<lparr>mi_key = key, mi_seq = sequence, mi_value = server_list_encode x key l, mi_salt = None\<rparr>)"

section \<open>Lemmas\<close>

lemma dedup_props:
  "distinct acc \<Longrightarrow> distinct (dedup acc xs)" "set (dedup acc xs) = set acc \<union> set xs"
  by (induction acc xs rule: dedup.induct) auto

lemma length_dedup: "length (dedup acc xs) \<le> length acc + length xs"
  by (induction acc xs rule: dedup.induct) (auto split: if_splits)

lemma dedup_id: "distinct (acc @ xs) \<Longrightarrow> dedup acc xs = acc @ xs"
  by (induction acc xs rule: dedup.induct) auto

lemma server_list_new_sound:
  "server_list_new as = Inr l \<Longrightarrow> length l \<le> 2 \<and> distinct l \<and> list_all valid_address l \<and> set l = set as"
  using dedup_props [of "[]" as] length_dedup [of "[]" as]
  by (auto simp: server_list_new_def list_all_iff split: if_splits)

lemma server_list_decode_sound:
  "server_list_decode x v key = Some l \<Longrightarrow> length l \<le> 2 \<and> distinct l \<and> list_all valid_address l"
  using server_list_new_sound
  by (auto simp: server_list_decode_def split: if_splits option.splits sum.splits)

lemma decimal_length: "n < 10 ^ k \<Longrightarrow> 0 < k \<Longrightarrow> length (decimal n) \<le> k"
proof (induction n arbitrary: k rule: decimal.induct)
  case (1 n)
  show ?case
  proof (cases "n < 10")
    case True
    with 1 show ?thesis by (subst decimal.simps) simp
  next
    case False
    then obtain j where k: "k = Suc j" "0 < j"
      using "1.prems" by (cases k; cases "k - 1") auto
    then have "n div 10 < 10 ^ j" using "1.prems" by (simp add: less_mult_imp_div_less mult.commute)
    with 1 False k show ?thesis by (subst decimal.simps) simp
  qed
qed

lemma hd_decimal: "0 < n \<Longrightarrow> hd (decimal n) \<noteq> CHR ''0''"
proof (induction n rule: decimal.induct)
  case (1 n)
  show ?case
  proof (cases "n < 10")
    case True
    have "digit_value (digit n) = n" using True by (rule digit_props)
    moreover have "digit_value CHR ''0'' = 0" by (simp add: digit_value_def)
    ultimately show ?thesis using 1 True by (subst decimal.simps) auto
  next
    case False
    with 1 show ?thesis by (subst decimal.simps) (auto simp: hd_append)
  qed
qed

lemma parse_octet_decimal:
  assumes "n \<le> 255"
  shows "parse_octet (decimal n) = Some n"
proof -
  have "length (decimal n) \<le> 3" using assms by (intro decimal_length) auto
  moreover have "\<not> (length (decimal n) > 1 \<and> hd (decimal n) = CHR ''0'')"
    using hd_decimal [of n] by (cases "n = 0") (auto simp: decimal.simps [of 0])
  moreover have "list_all is_digit (decimal n)" using decimal_digits by (auto simp: list_all_iff)
  ultimately show ?thesis using assms by (auto simp: parse_octet_def read_decimal_decimal)
qed

lemma digits_no_sep: "CHR ''.'' \<notin> set (decimal n)" "CHR '':'' \<notin> set (decimal n)"
proof -
  have "\<not> is_digit CHR ''.''" "\<not> is_digit CHR '':''" by (simp_all add: is_digit_def)
  then show "CHR ''.'' \<notin> set (decimal n)" "CHR '':'' \<notin> set (decimal n)" using decimal_digits by blast+
qed

lemma parse_ip_show: "parse_ip (show_ip ip) = Some ip" "CHR '':'' \<notin> set (show_ip ip)"
proof -
  obtain a b c d where o: "ip_octets ip = [a, b, c, d]"
    using length_ip_octets [of ip] by (auto simp: length_Suc_conv numeral_eq_Suc simp del: length_ip_octets)
  have le: "unat x \<le> 255" for x :: u8 using unat_less [of x] by simp
  have s: "show_ip ip = decimal (unat a) @ CHR ''.'' # decimal (unat b) @ CHR ''.'' # decimal (unat c) @
      CHR ''.'' # decimal (unat d)"
    by (simp add: show_ip_def o)
  have "of_nat (from_be [a, b, c, d]) = ip" using from_be_ip_octets [of ip] o by simp
  then show "parse_ip (show_ip ip) = Some ip"
    by (simp add: parse_ip_def s split_on_append split_on_single digits_no_sep parse_octet_decimal le)
  show "CHR '':'' \<notin> set (show_ip ip)" by (simp add: s digits_no_sep)
qed

lemma parse_port_decimal: "parse_port (decimal (unat p)) = Some p"
  using unat_less [of p] decimal_digits [of _ "unat p"]
  by (auto simp: parse_port_def read_decimal_decimal list_all_iff)

lemma parse_show_socket: "parse_socket (show_socket a) = Some a"
  by (cases a)
    (simp add: parse_socket_def show_socket_def split_once_append parse_ip_show parse_port_decimal)

lemma show_socket_ne: "show_socket a \<noteq> []"
  by (simp add: show_socket_def)

lemma apex_sockets_shown:
  "apex_sockets name (map (\<lambda>v. \<lparr>rr_name = name, rr_in = True, rr_ttl = 300, rr_data = TXT (Some v)\<rparr>)
     (map show_socket l)) acc = Some (acc @ l)"
  by (induction l arbitrary: acc) (auto simp: parse_show_socket show_socket_ne)

section \<open>Properties\<close>

text \<open>
  C29: a list of index servers survives its encoding. A valid list (at most two distinct valid
  sockets, possibly none) is decoded, under the key it was encoded for, to itself, when the DNS
  codec reads back what it wrote and the packet fits the limit of 1000 bytes; and whatever is
  decoded is such a list.
\<close>

theorem server_list_roundtrip:
  assumes "server_list_new addresses = Inr l" 
    "dns_parse x (dns_build x (server_list_answers x key l)) = Some (server_list_answers x key l)"
    "length (server_list_encode x key l) \<le> 1000"
  shows "server_list_decode x (server_list_encode x key l) key = Some l \<and>
    (\<forall>v l'. server_list_decode x v key = Some l' \<longrightarrow>
       length l' \<le> 2 \<and> distinct l' \<and> list_all valid_address l')"
proof -
  have l: "length l \<le> 2" "distinct l" "list_all valid_address l"
    using server_list_new_sound [OF assms(1)] by auto
  then have "server_list_new l = Inr l" by (simp add: server_list_new_def dedup_id)
  moreover have "apex_sockets (dns_name x key) (server_list_answers x key l) [] = Some l"
    using apex_sockets_shown [of "dns_name x key" l "[]"]
    by (cases "l = []") (simp_all add: server_list_answers_def)
  ultimately show ?thesis
    using assms(2,3) server_list_decode_sound by (auto simp: server_list_decode_def server_list_encode_def)
qed

definition sample_answers :: "dns_record list" where
  "sample_answers = [\<lparr>rr_name = ''key'', rr_in = True, rr_ttl = 300,
     rr_data = TXT (Some (show_socket (SocketAddrV4 16909060 443)))\<rparr>]"

definition sample_dns :: dns_ext where
  "sample_dns = \<lparr>dns_build = (\<lambda>rs. if rs = sample_answers then [1] else []),
     dns_parse = (\<lambda>v. if v = [1] then Some sample_answers else None), dns_name = (\<lambda>_. ''key'')\<rparr>"

lemma server_list_roundtrip_witness:
  "server_list_decode sample_dns (server_list_encode sample_dns [9] [SocketAddrV4 16909060 443]) [9] =
     Some [SocketAddrV4 16909060 443]"
proof -
  have a: "server_list_answers sample_dns [9] [SocketAddrV4 16909060 443] = sample_answers"
    by (simp add: server_list_answers_def sample_answers_def sample_dns_def)
  have "server_list_new [SocketAddrV4 16909060 443] = Inr [SocketAddrV4 16909060 443]"
    by (simp add: server_list_new_def valid_address_def ip_is_unspecified_def ip_is_multicast_def
        ip_is_broadcast_def)
  moreover have "length (server_list_encode sample_dns [9] [SocketAddrV4 16909060 443]) \<le> 1000"
    by (simp add: server_list_encode_def a sample_dns_def)
  ultimately show ?thesis
    using server_list_roundtrip [of "[SocketAddrV4 16909060 443]" "[SocketAddrV4 16909060 443]" sample_dns "[9]"]
    by (simp add: a) (simp add: sample_dns_def)
qed

end
