(* ===== verification/Lru.thy ===== *)
theory Lru
  imports Prelude
begin

text \<open>
  The interface of \<open>lru::LruCache\<close>, which several components use and which is not part of the
  repository: its operations as a record of functions, what its documentation promises of them
  as a locale, and a reference implementation (a list, most recently used first) that
  satisfies it.
\<close>

section \<open>Interface\<close>

record ('c, 'k, 'v) lru_ops =
  lru_peek :: "'c \<Rightarrow> 'k \<Rightarrow> 'v option"
  lru_touch :: "'k \<Rightarrow> 'c \<Rightarrow> 'c"
  lru_set :: "'k \<Rightarrow> 'v \<Rightarrow> 'c \<Rightarrow> 'c"
  lru_put :: "'k \<Rightarrow> 'v \<Rightarrow> 'c \<Rightarrow> 'c"
  lru_pop :: "'k \<Rightarrow> 'c \<Rightarrow> 'c"

text \<open>
  \<open>get\<close> reads a value and marks it as used. \<open>get_mut\<close> also updates it in place. \<open>get_or_insert_mut\<close>
  inserts a default first when the key is absent.
\<close>

definition lru_get :: "('c, 'k, 'v) lru_ops \<Rightarrow> 'k \<Rightarrow> 'c \<Rightarrow> 'v option \<times> 'c" where
  "lru_get L k c =
     (case lru_peek L c k of None \<Rightarrow> (None, c) | Some v \<Rightarrow> (Some v, lru_touch L k c))"

definition lru_get_mut :: "('c, 'k, 'v) lru_ops \<Rightarrow> 'k \<Rightarrow> ('v \<Rightarrow> 'v) \<Rightarrow> 'c \<Rightarrow> 'c" where
  "lru_get_mut L k f c =
     (case lru_peek L c k of None \<Rightarrow> c | Some v \<Rightarrow> lru_set L k (f v) (lru_touch L k c))"

definition lru_upsert :: "('c, 'k, 'v) lru_ops \<Rightarrow> 'k \<Rightarrow> 'v \<Rightarrow> ('v \<Rightarrow> 'v) \<Rightarrow> 'c \<Rightarrow> 'c" where
  "lru_upsert L k d f c =
     (case lru_peek L c k of
        None \<Rightarrow> lru_set L k (f d) (lru_put L k d c)
      | Some v \<Rightarrow> lru_set L k (f v) (lru_touch L k c))"

locale lru_cache =
  fixes L :: "('c, 'k, 'v) lru_ops" and empty_cache :: 'c
  assumes peek_empty: "lru_peek L empty_cache k = None"
    and peek_touch: "lru_peek L (lru_touch L k c) = lru_peek L c"
    and peek_set: "lru_peek L c k \<noteq> None \<Longrightarrow> lru_peek L (lru_set L k v c) j = (if j = k then Some v else lru_peek L c j)"
    and peek_put: "lru_peek L (lru_put L k v c) k = Some v"
    and peek_put_other: "j \<noteq> k \<Longrightarrow> lru_peek L (lru_put L k v c) j = Some w \<Longrightarrow> lru_peek L c j = Some w"
    and peek_pop: "lru_peek L (lru_pop L k c) j = (if j = k then None else lru_peek L c j)"
begin

lemma get_value: "fst (lru_get L k c) = lru_peek L c k"
  by (simp add: lru_get_def split: option.split)

lemma get_keeps: "lru_peek L (snd (lru_get L k c)) = lru_peek L c"
  by (simp add: lru_get_def peek_touch split: option.split)

lemma get_mut_peek:
  "lru_peek L (lru_get_mut L k f c) j = (if j = k then map_option f (lru_peek L c k) else lru_peek L c j)"
  by (auto simp: lru_get_mut_def peek_touch peek_set split: option.split)

lemma upsert_peek:
  "lru_peek L (lru_upsert L k d f c) k = Some (f (case lru_peek L c k of None \<Rightarrow> d | Some v \<Rightarrow> v))"
  by (auto simp: lru_upsert_def peek_touch peek_set peek_put split: option.split)

lemma upsert_other:
  "j \<noteq> k \<Longrightarrow> lru_peek L (lru_upsert L k d f c) j = Some w \<Longrightarrow> lru_peek L c j = Some w"
  by (auto simp: lru_upsert_def peek_touch peek_set peek_put dest: peek_put_other split: option.splits)

end

section \<open>Reference implementation\<close>

type_synonym ('k, 'v) lru_list = "nat \<times> ('k \<times> 'v) list"

definition list_remove :: "'k \<Rightarrow> ('k \<times> 'v) list \<Rightarrow> ('k \<times> 'v) list" where
  "list_remove k xs = filter (\<lambda>(j, _). j \<noteq> k) xs"

definition list_lru :: "(('k, 'v) lru_list, 'k, 'v) lru_ops" where
  "list_lru =
     \<lparr>lru_peek = (\<lambda>(n, xs) k. map_of xs k),
      lru_touch = (\<lambda>k (n, xs). (n, case map_of xs k of None \<Rightarrow> xs | Some v \<Rightarrow> (k, v) # list_remove k xs)),
      lru_set = (\<lambda>k v (n, xs). (n, map (\<lambda>(j, w). (j, if j = k then v else w)) xs)),
      lru_put = (\<lambda>k v (n, xs). (n, take (Suc n) ((k, v) # list_remove k xs))),
      lru_pop = (\<lambda>k (n, xs). (n, list_remove k xs))\<rparr>"

text \<open>The capacity is one more than the first component: an LRU cache holds at least one entry.\<close>

lemma map_of_list_remove: "map_of (list_remove k xs) j = (if j = k then None else map_of xs j)"
  by (induction xs) (auto simp: list_remove_def)

lemma map_of_set: "map_of (map (\<lambda>(j, w). (j, if j = k then v else w)) xs) j =
    (if j = k then map_option (\<lambda>_. v) (map_of xs j) else map_of xs j)"
  by (induction xs) auto

lemma map_of_take: "map_of (take n xs) j = Some w \<Longrightarrow> map_of xs j = Some w"
  by (metis append_take_drop_id map_add_Some_iff map_of_append)

interpretation list_lru: lru_cache list_lru "(n, [])" for n
proof
  fix k j :: 'a and v w :: 'b and c :: "('a, 'b) lru_list"
  obtain n xs where c: "c = (n, xs)" by (cases c)
  show "lru_peek list_lru (lru_touch list_lru k c) = lru_peek list_lru c"
    by (rule ext) (auto simp: c list_lru_def map_of_list_remove split: option.split)
  show "lru_peek list_lru (lru_set list_lru k v c) j = (if j = k then Some v else lru_peek list_lru c j)"
    if "lru_peek list_lru c k \<noteq> None"
    using that by (auto simp: c list_lru_def map_of_set)
  show "lru_peek list_lru c j = Some w" if "j \<noteq> k" "lru_peek list_lru (lru_put list_lru k v c) j = Some w"
    using that by (auto simp: c list_lru_def map_of_list_remove dest: map_of_take)
qed (auto simp: list_lru_def map_of_list_remove split: prod.split)

end
