(* ===== verification/Signed_Record.thy ===== *)
theory Signed_Record
  imports Postcard_Format
begin

text \<open>
  The signed endpoint record, \<open>iroh-mainline-endpoint-discovery/src/record.rs\<close>. Keys, signatures
  and the postcard encoding of the payload and of the record are outside the repository and
  enter as the fields of \<open>record_ext\<close>; the clock reading of \<open>sign\<close> is an argument. Not every 32
  bytes are a public key: \<open>re_key\<close> says which are, and a record with another endpoint identifier does not decode.
\<close>

section \<open>Model\<close>

record record_payload_v1 =
  rp_addr :: socket_addr_v4
  rp_ts :: u64

datatype record_payload = PayloadV1 record_payload_v1

fun payload_v1 :: "record_payload \<Rightarrow> record_payload_v1" where
  "payload_v1 (PayloadV1 p) = p"

record signed_record =
  endpoint_id :: bytes
  payload :: record_payload
  sig :: bytes

record record_ext =
  re_key :: "bytes \<Rightarrow> bool"
  re_public :: "bytes \<Rightarrow> bytes"
  re_sign :: "bytes \<Rightarrow> bytes \<Rightarrow> bytes"
  re_verify :: "bytes \<Rightarrow> bytes \<Rightarrow> bytes \<Rightarrow> bool"
  re_payload :: "record_payload \<Rightarrow> bytes"
  re_ser :: "signed_record \<Rightarrow> bytes"
  re_de :: "bytes \<Rightarrow> signed_record option"

definition record_sign :: "record_ext \<Rightarrow> bytes \<Rightarrow> socket_addr_v4 \<Rightarrow> u64 \<Rightarrow> signed_record" where
  "record_sign e secret addr now =
     (let p = PayloadV1 \<lparr>rp_addr = addr, rp_ts = now\<rparr>
      in \<lparr>endpoint_id = re_public e secret, payload = p, sig = re_sign e secret (re_payload e p)\<rparr>)"

definition record_addr :: "signed_record \<Rightarrow> socket_addr_v4" where
  "record_addr r = rp_addr (payload_v1 (payload r))"

definition record_verify :: "record_ext \<Rightarrow> signed_record \<Rightarrow> bool" where
  "record_verify e r = re_verify e (endpoint_id r) (re_payload e (payload r)) (sig r)"

definition record_encode :: "record_ext \<Rightarrow> signed_record \<Rightarrow> bytes" where
  "record_encode e r = re_ser e r"

definition record_decode :: "record_ext \<Rightarrow> bytes \<Rightarrow> socket_addr_v4 \<Rightarrow> signed_record option" where
  "record_decode e v addr =
     (case re_de e v of
        None \<Rightarrow> None
      | Some r \<Rightarrow> if record_addr r = addr \<and> record_verify e r then Some r else None)"

text \<open>
  What the record relies on: the encoding of records is a postcard codec for the records whose endpoint
  identifier is a public key, and a signature by a secret key verifies under its public key, which is one.
\<close>

definition signs_correctly :: "record_ext \<Rightarrow> bool" where
  "signs_correctly e \<longleftrightarrow> (\<forall>sk m. re_key e (re_public e sk) \<and> re_verify e (re_public e sk) m (re_sign e sk m))"

definition record_valid :: "record_ext \<Rightarrow> signed_record \<Rightarrow> bool" where
  "record_valid e r \<longleftrightarrow> length (endpoint_id r) = 32 \<and> re_key e (endpoint_id r) \<and> length (sig r) = 64"

section \<open>The encoding of a record\<close>

text \<open>The published postcard format of the record: key, payload, signature. \<open>is_key\<close> is the check of the key.\<close>

definition enc_payload :: "record_payload \<Rightarrow> bytes" where
  "enc_payload p = 0 # enc_socket (rp_addr (payload_v1 p)) @ enc_u64 (rp_ts (payload_v1 p))"

definition dec_payload :: "record_payload parser" where
  "dec_payload = dec_enum [dec_map (\<lambda>(a, t). PayloadV1 \<lparr>rp_addr = a, rp_ts = t\<rparr>)
     (dec_pair dec_socket dec_u64)]"

lemma codec_payload: "codec enc_payload dec_payload (\<lambda>_. True)"
  unfolding dec_payload_def
proof (rule codec_one_variant [OF codec_pair [OF codec_socket codec_u64],
      where g = "\<lambda>p. (rp_addr (payload_v1 p), rp_ts (payload_v1 p))"])
  fix b
  show "True \<longleftrightarrow> (\<exists>a. b = (case a of (a, t) \<Rightarrow> PayloadV1 \<lparr>rp_addr = a, rp_ts = t\<rparr>) \<and>
      (case a of (a, b) \<Rightarrow> True \<and> True))"
    by (cases b rule: payload_v1.cases) (auto intro: record_payload_v1.cases)
qed (auto simp: enc_payload_def split: prod.split)

definition enc_record :: "signed_record \<Rightarrow> bytes" where
  "enc_record r = endpoint_id r @ enc_payload (payload r) @ sig r"

definition dec_record :: "(bytes \<Rightarrow> bool) \<Rightarrow> signed_record parser" where
  "dec_record is_key = dec_map (\<lambda>(i, p, s). \<lparr>endpoint_id = i, payload = p, sig = s\<rparr>)
     (dec_pair (dec_filter is_key (dec_raw 32)) (dec_pair dec_payload (dec_raw 64)))"

lemma codec_record:
  assumes "\<And>r. valid r \<longleftrightarrow> length (endpoint_id r) = 32 \<and> is_key (endpoint_id r) \<and> length (sig r) = 64"
  shows "codec enc_record (dec_record is_key) valid"
  unfolding dec_record_def
proof (rule codec_map [OF codec_pair [OF codec_filter [OF codec_raw] codec_pair [OF codec_payload codec_raw]],
      where g = "\<lambda>r. (endpoint_id r, payload r, sig r)"])
  fix b :: signed_record
  show "valid b \<longleftrightarrow> (\<exists>a. b = (case a of (i, p, s) \<Rightarrow> \<lparr>endpoint_id = i, payload = p, sig = s\<rparr>) \<and>
      (case a of (a, b) \<Rightarrow> (length a = 32 \<and> is_key a) \<and> (case b of (a, b) \<Rightarrow> True \<and> length b = 64)))"
    by (cases b) (auto simp: assms)
qed (auto simp: enc_record_def)

section \<open>Properties\<close>

text \<open>
  C27: a record is bound to its slot. The record an endpoint signs for a socket is accepted when
  it is read back from the slot of that socket, and from no other slot: copying it elsewhere
  makes it worthless. Whatever is accepted from a slot carries that socket, a public key as its endpoint, and a signature
  that verifies under that key.
\<close>

theorem record_bound_to_slot:
  assumes "postcard (re_ser e) (re_de e) (record_valid e)" "signs_correctly e"
    "record_valid e (record_sign e secret addr now)"
  shows "record_decode e (record_encode e (record_sign e secret addr now)) slot =
      (if slot = addr then Some (record_sign e secret addr now) else None) \<and>
    (\<forall>v r. record_decode e v slot = Some r \<longrightarrow> record_addr r = slot \<and> re_key e (endpoint_id r) \<and>
       re_verify e (endpoint_id r) (re_payload e (payload r)) (sig r))"
proof -
  have "re_de e (re_ser e (record_sign e secret addr now)) = Some (record_sign e secret addr now)"
    using postcard.de_ser_exact [OF assms(1,3)] .
  moreover have "re_key e (endpoint_id r)" if "re_de e v = Some r" for v r
    using postcard.de_valid [OF assms(1) that] by (simp add: record_valid_def)
  moreover have "record_verify e (record_sign e secret addr now)"
    using assms(2) by (simp add: record_verify_def record_sign_def Let_def signs_correctly_def)
  moreover have "record_addr (record_sign e secret addr now) = addr"
    by (simp add: record_addr_def record_sign_def Let_def)
  ultimately show ?thesis
    by (auto simp: record_decode_def record_encode_def record_verify_def split: option.splits if_splits)
qed

text \<open>A small instance: keys are the strings of 32 bytes that end in zero.\<close>

definition sample_public :: "bytes \<Rightarrow> bytes" where "sample_public sk = take 31 (sk @ replicate 31 0) @ [0]"

definition sample_record_ext :: record_ext where
  "sample_record_ext = \<lparr>re_key = (\<lambda>k. last k = 0), re_public = sample_public,
     re_sign = (\<lambda>sk m. take 64 (sample_public sk @ m @ replicate 32 0)),
     re_verify = (\<lambda>pk m s. s = take 64 (pk @ m @ replicate 32 0)),
     re_payload = enc_payload, re_ser = enc_record, re_de = (\<lambda>bs. map_option fst (dec_record (\<lambda>k. last k = 0) bs))\<rparr>"

lemma sample_public_key [simp]: "length (sample_public sk) = 32" "last (sample_public sk) = 0"
  by (simp_all add: sample_public_def)

lemma record_valid_sample:
  "record_valid sample_record_ext r \<longleftrightarrow> length (endpoint_id r) = 32 \<and> last (endpoint_id r) = 0 \<and> length (sig r) = 64"
  by (simp add: record_valid_def sample_record_ext_def)

interpretation rec_codec: codec enc_record "dec_record (\<lambda>k. last k = 0)" "record_valid sample_record_ext"
  by (rule codec_record [OF record_valid_sample])

lemma sample_record_codec:
  "postcard (re_ser sample_record_ext) (re_de sample_record_ext) (record_valid sample_record_ext)"
  "signs_correctly sample_record_ext" "record_valid sample_record_ext (record_sign sample_record_ext sk addr now)"
proof -
  show "postcard (re_ser sample_record_ext) (re_de sample_record_ext) (record_valid sample_record_ext)"
    using rec_codec.pc.postcard_axioms by (simp add: sample_record_ext_def)
  show "signs_correctly sample_record_ext" by (simp add: signs_correctly_def sample_record_ext_def)
  show "record_valid sample_record_ext (record_sign sample_record_ext sk addr now)"
    by (simp add: record_valid_sample record_sign_def Let_def) (simp add: sample_record_ext_def)
qed

text \<open>The check of the key is not empty: a record that is valid but for its endpoint does not decode.\<close>

lemma sample_no_key:
  "re_de sample_record_ext (re_ser sample_record_ext
     \<lparr>endpoint_id = replicate 32 1, payload = PayloadV1 \<lparr>rp_addr = SocketAddrV4 1 2, rp_ts = 9\<rparr>, sig = replicate 64 0\<rparr>) = None"
  by (simp add: sample_record_ext_def enc_record_def dec_record_def dec_map_def dec_pair_def dec_filter_def dec_raw_def)

lemma record_bound_to_slot_witness:
  "record_decode sample_record_ext
     (record_encode sample_record_ext (record_sign sample_record_ext [5] (SocketAddrV4 1 2) 9))
     (SocketAddrV4 1 3) = None"
  using record_bound_to_slot [OF sample_record_codec] by simp

end
