(* ===== verification/Lookup_Cache.thy ===== *)
theory Lookup_Cache
  imports Lru Signed_Record
begin

text \<open>
  The cache of index lookups, \<open>iroh-mainline-endpoint-discovery/src/lookup_cache.rs\<close>, over the LRU
  interface. The clock is an argument; a lock in the map of pending lookups is a number, and
  \<open>alive\<close> says whether a lookup still holds it.
\<close>

section \<open>Model\<close>

definition CAPACITY :: usize where "CAPACITY = 4096"
definition LOOKUP_MISS_TTL :: duration where "LOOKUP_MISS_TTL = secs 30"

record 'c lookup_cache =
  lc_ttl :: duration
  lc_entries :: 'c
  lc_pending :: "(socket_addr_v4, nat) fmap"

type_synonym 'c lookup_lru = "('c, socket_addr_v4, instant \<times> signed_record list) lru_ops"

definition lookup_cache_new :: "'c \<Rightarrow> duration \<Rightarrow> 'c lookup_cache" where
  "lookup_cache_new empty_cache ttl = \<lparr>lc_ttl = ttl, lc_entries = empty_cache, lc_pending = fmempty\<rparr>"

definition cache_get :: "'c lookup_lru \<Rightarrow> socket_addr_v4 \<Rightarrow> instant \<Rightarrow> 'c lookup_cache \<Rightarrow>
    signed_record list option \<times> 'c lookup_cache" where
  "cache_get L addr now c =
     (if (case lru_peek L (lc_entries c) addr of None \<Rightarrow> False | Some (expires, _) \<Rightarrow> expires \<le> now)
      then (None, c\<lparr>lc_entries := lru_pop L addr (lc_entries c)\<rparr>)
      else
        (let (r, es) = lru_get L addr (lc_entries c)
         in (map_option snd r, c\<lparr>lc_entries := es\<rparr>)))"

definition cache_insert :: "'c lookup_lru \<Rightarrow> socket_addr_v4 \<Rightarrow> signed_record list \<Rightarrow> instant \<Rightarrow>
    'c lookup_cache \<Rightarrow> 'c lookup_cache" where
  "cache_insert L addr records now c =
     (let ttl = (if records = [] then min (lc_ttl c) LOOKUP_MISS_TTL else lc_ttl c)
      in if ttl = 0 then c
         else c\<lparr>lc_entries := lru_put L addr (now + ttl, records) (lc_entries c)\<rparr>)"

definition cache_pending :: "(nat \<Rightarrow> bool) \<Rightarrow> nat \<Rightarrow> socket_addr_v4 \<Rightarrow> 'c lookup_cache \<Rightarrow> nat \<times> 'c lookup_cache" where
  "cache_pending alive fresh addr c =
     (case fmlookup (lc_pending c) addr of
        Some lock \<Rightarrow>
          if alive lock then (lock, c)
          else (fresh, c\<lparr>lc_pending := fmupd addr fresh
                 (fmfilter (\<lambda>a. case fmlookup (lc_pending c) a of Some l \<Rightarrow> alive l | None \<Rightarrow> False) (lc_pending c))\<rparr>)
      | None \<Rightarrow>
          (fresh, c\<lparr>lc_pending := fmupd addr fresh
             (fmfilter (\<lambda>a. case fmlookup (lc_pending c) a of Some l \<Rightarrow> alive l | None \<Rightarrow> False) (lc_pending c))\<rparr>))"

section \<open>Sequences of operations\<close>

datatype cache_op = CacheGet socket_addr_v4 instant | CacheInsert socket_addr_v4 "signed_record list" instant

fun cache_step :: "'c lookup_lru \<Rightarrow> cache_op \<Rightarrow> 'c lookup_cache \<Rightarrow> 'c lookup_cache" where
  "cache_step L (CacheGet a now) c = snd (cache_get L a now c)"
| "cache_step L (CacheInsert a rs now) c = cache_insert L a rs now c"

definition lookup_ttl :: "duration \<Rightarrow> signed_record list \<Rightarrow> duration" where
  "lookup_ttl ttl rs = (if rs = [] then min ttl LOOKUP_MISS_TTL else ttl)"

lemma step_ttl [simp]: "lc_ttl (cache_step L x c) = lc_ttl c"
  by (cases x) (auto simp: cache_get_def cache_insert_def Let_def case_prod_unfold)

lemma run_ttl: "lc_ttl (fold (cache_step L) xs c) = lc_ttl c"
  by (induction xs arbitrary: c) auto

text \<open>What is cached was inserted, with the expiry its time to live gives.\<close>

lemma cached_inserted:
  fixes M :: "('c, socket_addr_v4, instant \<times> signed_record list) lru_ops"
  assumes M: "lru_cache M e"
  shows "lru_peek M (lc_entries (fold (cache_step M) xs (lookup_cache_new e ttl))) a = Some (t, rs) \<Longrightarrow>
    \<exists>now. CacheInsert a rs now \<in> set xs \<and> t = now + lookup_ttl ttl rs"
proof (induction xs rule: rev_induct)
  case Nil
  then show ?case using lru_cache.peek_empty [OF M] by (simp add: lookup_cache_new_def)
next
  case (snoc x xs)
  let ?c = "fold (cache_step M) xs (lookup_cache_new e ttl)"
  have ttl: "lc_ttl ?c = ttl" by (simp add: run_ttl lookup_cache_new_def)
  have "lru_peek M (lc_entries ?c) a = Some (t, rs) \<or> (\<exists>now. x = CacheInsert a rs now \<and> t = now + lookup_ttl ttl rs)"
  proof (cases x)
    case (CacheGet b now)
    with snoc.prems show ?thesis
      by (auto simp: cache_get_def Let_def case_prod_unfold lru_cache.peek_pop [OF M]
          lru_cache.get_keeps [OF M] split: if_splits)
  next
    case (CacheInsert b rs' now)
    with snoc.prems ttl show ?thesis
      by (cases "a = b")
        (auto simp: cache_insert_def Let_def lookup_ttl_def lru_cache.peek_put [OF M]
          dest: lru_cache.peek_put_other [OF M] split: if_splits)
  qed
  with snoc.IH show ?case by auto
qed

section \<open>Properties\<close>

text \<open>
  The cache is sound and useful. A result it returns was inserted for that socket and its
  time to live, at most thirty seconds for an empty result, is not over; and a result that was
  just inserted is returned until then, when it is to be remembered at all.
\<close>

theorem lookup_cache_fresh:
  assumes "lru_cache L e"
  shows "(\<forall>rs. fst (cache_get L a now (fold (cache_step L) xs (lookup_cache_new e ttl))) = Some rs \<longrightarrow>
      (\<exists>t. CacheInsert a rs t \<in> set xs \<and> now < t + lookup_ttl ttl rs)) \<and>
    (\<forall>rs t. lookup_ttl ttl rs \<noteq> 0 \<and> now < t + lookup_ttl ttl rs \<longrightarrow>
      fst (cache_get L a now (fold (cache_step L) (xs @ [CacheInsert a rs t]) (lookup_cache_new e ttl))) =
        Some rs)"
proof (intro conjI allI impI)
  let ?c = "fold (cache_step L) xs (lookup_cache_new e ttl)"
  fix rs
  assume "fst (cache_get L a now ?c) = Some rs"
  then obtain t where "lru_peek L (lc_entries ?c) a = Some (t, rs)" "now < t"
    by (auto simp: cache_get_def Let_def case_prod_unfold lru_cache.get_value [OF assms]
        split: if_splits option.splits)
  with cached_inserted [OF assms] show "\<exists>t. CacheInsert a rs t \<in> set xs \<and> now < t + lookup_ttl ttl rs"
    by blast
next
  let ?c = "fold (cache_step L) xs (lookup_cache_new e ttl)"
  fix rs t
  assume *: "lookup_ttl ttl rs \<noteq> 0 \<and> now < t + lookup_ttl ttl rs"
  have "lc_ttl ?c = ttl" by (simp add: run_ttl lookup_cache_new_def)
  with * have "lru_peek L (lc_entries (cache_insert L a rs t ?c)) a = Some (t + lookup_ttl ttl rs, rs)"
    by (auto simp: cache_insert_def Let_def lookup_ttl_def lru_cache.peek_put [OF assms])
  with * show "fst (cache_get L a now (fold (cache_step L) (xs @ [CacheInsert a rs t]) (lookup_cache_new e ttl))) =
      Some rs"
    by (simp add: cache_get_def Let_def case_prod_unfold lru_cache.get_value [OF assms])
qed

lemma lookup_cache_fresh_witness:
  "fst (cache_get list_lru (SocketAddrV4 1 2) (secs 29) (fold (cache_step list_lru)
     ([] @ [CacheInsert (SocketAddrV4 1 2) [] 0]) (lookup_cache_new (4095, []) (secs 300)))) = Some []"
  using lookup_cache_fresh [OF list_lru.lru_cache_axioms, of "SocketAddrV4 1 2" "secs 29" "[]" 4095 "secs 300"]
  by (simp add: lookup_ttl_def LOOKUP_MISS_TTL_def secs_def)

end
