(* ===== verification/Index_Keeper.thy ===== *)
theory Index_Keeper
  imports Prelude
begin

text \<open>
  The keeper of the endpoint's index record and the gate for announcements,
  \<open>iroh-mainline-endpoint-discovery/src/index_keeper.rs\<close>. The keeper's loop is one function per
  turn: what it reads (the address Mainline reports, the servers in use, the clock) and what
  the publication returns are arguments, and the next time it wakes up by itself is a result.
  \<open>announce_indexed\<close> is one function per pass of its loop.
\<close>

section \<open>Constants\<close>

definition INDEX_REFRESH :: duration where "INDEX_REFRESH = secs (30 * 60)"
definition RETRY :: duration where "RETRY = secs 30"
definition INDEX_TTL :: duration where "INDEX_TTL = secs (60 * 60)"
definition RESTART_JITTER :: duration where "RESTART_JITTER = secs 60"

lemmas keeper_times = INDEX_REFRESH_def RETRY_def INDEX_TTL_def RESTART_JITTER_def secs_def

section \<open>State\<close>

record index_record =
  rec_public :: "socket_addr_v4 option"
  rec_mapping :: socket_addr_v4
  rec_at :: instant
  rec_servers :: "socket_addr_v4 fset"

definition record_is_live :: "index_record \<Rightarrow> socket_addr_v4 option \<Rightarrow> socket_addr_v4 fset \<Rightarrow> instant \<Rightarrow> bool" where
  "record_is_live r public servers now \<longleftrightarrow>
     rec_public r = public \<and>
     (rec_servers r = servers \<or> rec_servers r |\<inter>| servers \<noteq> {||}) \<and>
     now - rec_at r < INDEX_TTL"

record keeper =
  k_record :: "index_record option"
  k_servers :: "socket_addr_v4 fset"
  k_reported :: bool

definition keeper_default :: keeper where
  "keeper_default = \<lparr>k_record = None, k_servers = {||}, k_reported = False\<rparr>"

definition mapping :: "keeper \<Rightarrow> socket_addr_v4 option" where
  "mapping k = map_option rec_mapping (k_record k)"

definition is_live :: "keeper \<Rightarrow> socket_addr_v4 option \<Rightarrow> instant \<Rightarrow> bool" where
  "is_live k public now =
     (case k_record k of None \<Rightarrow> False | Some r \<Rightarrow> record_is_live r public (k_servers k) now)"

definition report :: "socket_addr_v4 option \<Rightarrow> keeper \<Rightarrow> keeper" where
  "report public k =
     (if (case k_record k of None \<Rightarrow> True | Some r \<Rightarrow> rec_public r \<noteq> public)
      then k\<lparr>k_reported := True\<rparr> else k)"

section \<open>The keeper's loop\<close>

definition due :: "index_record option \<Rightarrow> socket_addr_v4 fset \<Rightarrow> socket_addr_v4 option \<Rightarrow> instant \<Rightarrow> bool" where
  "due r servers public now =
     (case r of None \<Rightarrow> True
      | Some r \<Rightarrow> rec_servers r \<noteq> servers \<or> rec_public r \<noteq> public \<or> now \<ge> rec_at r + INDEX_REFRESH)"

definition backing_off :: "instant option \<Rightarrow> instant \<Rightarrow> bool" where
  "backing_off failed now = (case failed of None \<Rightarrow> False | Some f \<Rightarrow> now < f + RETRY)"

text \<open>
  One turn while active. \<open>result\<close> is what \<open>publish\<close> returns and \<open>done\<close> the clock after it;
  both only matter when the turn publishes. \<open>keeper_begin\<close> is what announcements see while the publication is
  under way: the servers of this turn with the record of an earlier one. The turn reports whether it attempted a
  publication and when it wakes up unless something is reported or changes before.
\<close>

record turn_input =
  ti_public :: "socket_addr_v4 option"
  ti_servers :: "socket_addr_v4 fset"
  ti_now :: instant
  ti_result :: "socket_addr_v4 option"
  ti_done :: instant

definition keeper_begin :: "turn_input \<Rightarrow> keeper \<Rightarrow> keeper" where
  [simp]: "keeper_begin i k = k\<lparr>k_servers := ti_servers i\<rparr>"

definition keeper_turn :: "turn_input \<Rightarrow> keeper \<times> instant option \<Rightarrow>
    bool \<times> instant option \<times> keeper \<times> instant option" where
  "keeper_turn i s =
     (let (k, failed) = s;
          k = keeper_begin i k;
          attempt = due (k_record k) (ti_servers i) (ti_public i) (ti_now i) \<and>
                    \<not> backing_off failed (ti_now i);
          (k, failed) =
            (if attempt then
               (case ti_result i of
                  Some m \<Rightarrow>
                    (k\<lparr>k_record := Some \<lparr>rec_public = ti_public i, rec_mapping = m,
                         rec_at = ti_now i, rec_servers = ti_servers i\<rparr>\<rparr>, None)
                | None \<Rightarrow> (k, Some (ti_done i)))
             else (k, failed));
          wake = (case failed of
                    Some f \<Rightarrow> Some (f + RETRY)
                  | None \<Rightarrow> map_option (\<lambda>r. rec_at r + INDEX_REFRESH) (k_record k))
      in (attempt, wake, k, failed))"

text \<open>While no infohash is registered the loop waits for \<open>active\<close> and does nothing else.\<close>

definition keeper_loop :: "bool \<Rightarrow> turn_input \<Rightarrow> keeper \<times> instant option \<Rightarrow>
    bool \<times> instant option \<times> keeper \<times> instant option" where
  "keeper_loop active i s =
     (if \<not> active then (False, None, s) else keeper_turn i s)"

section \<open>Announcing\<close>

datatype 'e pass = PassFailed 'e | Announce | AwaitRecord

definition announce_pass :: "'e + socket_addr_v4 option \<Rightarrow> instant \<Rightarrow> keeper \<Rightarrow> 'e pass \<times> keeper" where
  "announce_pass closest now k =
     (case closest of
        Inl err \<Rightarrow> (PassFailed err, k)
      | Inr public \<Rightarrow>
          (let k = report public k in
           if is_live k public now then (Announce, k) else (AwaitRecord, k)))"

definition restart_jitter :: "nat \<Rightarrow> duration" where
  "restart_jitter random = millis (random mod (RESTART_JITTER div millis 1 + 1))"

definition resume_delay :: "duration \<Rightarrow> nat \<Rightarrow> duration" where
  "resume_delay waited random = (if waited \<ge> RETRY then restart_jitter random else 0)"

section \<open>Lemmas\<close>

lemma keeper_turn_cases:
  assumes "keeper_turn i (k, failed) = (attempt, wake, k', failed')"
  shows "attempt \<longleftrightarrow> due (k_record k) (ti_servers i) (ti_public i) (ti_now i) \<and> \<not> backing_off failed (ti_now i)"
    and "attempt \<Longrightarrow> ti_result i = Some m \<Longrightarrow> failed' = None \<and>
      k_record k' = Some \<lparr>rec_public = ti_public i, rec_mapping = m, rec_at = ti_now i, rec_servers = ti_servers i\<rparr>"
    and "attempt \<Longrightarrow> ti_result i = None \<Longrightarrow> failed' = Some (ti_done i) \<and> k_record k' = k_record k"
    and "\<not> attempt \<Longrightarrow> failed' = failed \<and> k_record k' = k_record k"
    and "k_servers k' = ti_servers i" "k_reported k' = k_reported k"
    and "wake = (case failed' of Some f \<Rightarrow> Some (f + RETRY)
      | None \<Rightarrow> map_option (\<lambda>r. rec_at r + INDEX_REFRESH) (k_record k'))"
  using assms by (auto simp: keeper_turn_def Let_def split: option.splits if_splits)

lemma report_simps [simp]: "k_record (report p k) = k_record k" "k_servers (report p k) = k_servers k"
  by (simp_all add: report_def)

lemma is_live_report [simp]: "is_live (report p k) q now = is_live k q now"
  by (simp add: is_live_def split: option.split)

lemma restart_jitter_le: "restart_jitter r \<le> RESTART_JITTER"
proof -
  have "r mod (RESTART_JITTER div millis 1 + 1) \<le> RESTART_JITTER div millis 1"
    by (simp add: less_Suc_eq_le [symmetric])
  then have "millis (r mod (RESTART_JITTER div millis 1 + 1)) \<le> millis (RESTART_JITTER div millis 1)"
    by (simp only: millis_def mult_le_mono1)
  then show ?thesis by (simp add: restart_jitter_def millis_def keeper_times)
qed

section \<open>Runs\<close>

text \<open>A run of the keeper: the turns, the attempts they made and the state after them.\<close>

fun keeper_run :: "turn_input list \<Rightarrow> keeper \<times> instant option \<Rightarrow> bool list \<times> keeper \<times> instant option" where
  "keeper_run [] s = ([], s)"
| "keeper_run (i # is) s =
     (let (attempt, wake, s) = keeper_turn i s; (attempts, s) = keeper_run is s in (attempt # attempts, s))"

lemma keeper_run_snoc:
  "keeper_run (is @ [i]) s =
     (let (attempts, s) = keeper_run is s; (attempt, wake, s) = keeper_turn i s in (attempts @ [attempt], s))"
  by (induction "is" arbitrary: s) (auto simp: case_prod_unfold Let_def)

lemma keeper_run_length: "length (fst (keeper_run is s)) = length is"
  by (induction "is" arbitrary: s) (auto simp: case_prod_unfold Let_def)

text \<open>A record in hand was published by a turn of the run.\<close>

lemma keeper_run_record:
  "k_record (fst (snd (keeper_run is (keeper_default, None)))) = Some r \<Longrightarrow>
     \<exists>i \<in> set is. ti_result i = Some (rec_mapping r) \<and> ti_public i = rec_public r \<and>
       ti_servers i = rec_servers r \<and> ti_now i = rec_at r"
proof (induction "is" rule: rev_induct)
  case Nil
  then show ?case by (simp add: keeper_default_def)
next
  case (snoc i is')
  obtain as k f where 1: "keeper_run is' (keeper_default, None) = (as, k, f)" by (metis prod_cases3)
  obtain a w k' f' where 2: "keeper_turn i (k, f) = (a, w, k', f')" by (metis prod_cases4)
  from snoc.prems 1 2 have r: "k_record k' = Some r" by (simp add: keeper_run_snoc)
  show ?case
  proof (cases "a \<and> ti_result i \<noteq> None")
    case True
    then show ?thesis using keeper_turn_cases(2) [OF 2] r by force
  next
    case False
    then have "k_record k' = k_record k" using keeper_turn_cases(3,4) [OF 2] by auto
    with r 1 snoc.IH show ?thesis by auto
  qed
qed

lemma keeper_run_servers:
  "is \<noteq> [] \<Longrightarrow> k_servers (fst (snd (keeper_run is s))) = ti_servers (last is)"
proof (induction "is" rule: rev_induct)
  case (snoc i is')
  obtain as k f where 1: "keeper_run is' s = (as, k, f)" by (metis prod_cases3)
  obtain a w k' f' where 2: "keeper_turn i (k, f) = (a, w, k', f')" by (metis prod_cases4)
  from 1 2 keeper_turn_cases(5) [OF 2] show ?case by (simp add: keeper_run_snoc)
qed simp

text \<open>An announcement that is allowed rests on a turn of the run, whether or not a publication is under way.\<close>

lemma live_record_published:
  assumes "snd (keeper_run is (keeper_default, None)) = (k, failed)" "is_live (k\<lparr>k_servers := servers\<rparr>) public now"
  shows "\<exists>i \<in> set is. ti_result i \<noteq> None \<and> ti_public i = public \<and> now - ti_now i < INDEX_TTL \<and>
    (ti_servers i = servers \<or> ti_servers i |\<inter>| servers \<noteq> {||})"
proof -
  from assms(2) obtain r where r: "k_record k = Some r" "record_is_live r public servers now"
    by (auto simp: is_live_def split: option.splits)
  obtain i where "i \<in> set is" "ti_result i = Some (rec_mapping r)" "ti_public i = rec_public r"
      "ti_servers i = rec_servers r" "ti_now i = rec_at r"
    using keeper_run_record [of "is" r] r(1) assms(1) by auto
  with r(2) show ?thesis unfolding record_is_live_def by (metis option.distinct(1))
qed

lemma announce_gated_pending:
  assumes "snd (keeper_run is (keeper_default, None)) = (k, failed)"
    "announce_pass (Inr public) now (keeper_begin i k) = (Announce, k')"
  shows "\<exists>j \<in> set is. ti_result j \<noteq> None \<and> ti_public j = public \<and> now - ti_now j < INDEX_TTL \<and>
    (ti_servers j = ti_servers i \<or> ti_servers j |\<inter>| ti_servers i \<noteq> {||})"
  using assms(2) by (intro live_record_published [OF assms(1)]) (auto simp: announce_pass_def Let_def split: if_splits)

text \<open>While a failure is on record, nothing is attempted before the retry time.\<close>

lemma keeper_run_backoff:
  "sorted (map ti_now is) \<Longrightarrow> j < length is \<Longrightarrow> fst (keeper_run is (k, Some f)) ! j \<Longrightarrow>
     f + RETRY \<le> ti_now (is ! j)"
proof (induction "is" arbitrary: k j)
  case (Cons i is')
  obtain a w k' f' where turn: "keeper_turn i (k, Some f) = (a, w, k', f')" by (metis prod_cases4)
  show ?case
  proof (cases "a")
    case True
    then have "f + RETRY \<le> ti_now i"
      using keeper_turn_cases(1) [OF turn] by (simp add: backing_off_def)
    also have "\<dots> \<le> ti_now ((i # is') ! j)"
      using Cons.prems(1,2) by (cases j) auto
    finally show ?thesis .
  next
    case False
    then have f: "f' = Some f" using keeper_turn_cases(4) [OF turn] by blast
    with False turn Cons.prems Cons.IH show ?thesis
      by (cases j) (auto simp: case_prod_unfold Let_def)
  qed
qed simp

lemma keeper_run_drop:
  assumes "n \<le> length is"
  shows "drop n (fst (keeper_run is s)) = fst (keeper_run (drop n is) (snd (keeper_run (take n is) s)))"
  using assms
proof (induction n arbitrary: "is" s)
  case (Suc n)
  then obtain i is' where "is = i # is'" by (cases "is") auto
  with Suc show ?case by (auto simp: case_prod_unfold Let_def)
qed simp

lemma keeper_run_failed:
  assumes "j < length is" "fst (keeper_run is s) ! j" "ti_result (is ! j) = None"
  obtains k where "snd (keeper_run (take (Suc j) is) s) = (k, Some (ti_done (is ! j)))"
proof -
  obtain as k f where 1: "keeper_run (take j is) s = (as, k, f)" by (metis prod_cases3)
  obtain a w k' f' where 2: "keeper_turn (is ! j) (k, f) = (a, w, k', f')" by (metis prod_cases4)
  have "fst (keeper_run is s) ! j = hd (drop j (fst (keeper_run is s)))"
    using assms(1) by (simp add: hd_drop_conv_nth keeper_run_length)
  also have "\<dots> = a"
    using assms(1) 1 2 by (simp add: keeper_run_drop Cons_nth_drop_Suc [symmetric] case_prod_unfold Let_def)
  finally have "a" using assms(2) by simp
  then have "f' = Some (ti_done (is ! j))" using keeper_turn_cases(3) [OF 2] assms(3) by blast
  then show ?thesis using that [of k'] assms(1) 1 2 by (simp add: take_Suc_conv_app_nth keeper_run_snoc)
qed

section \<open>Properties\<close>

text \<open>
  C19: an announcement goes ahead only while it can be resolved. If a pass announces from an
  address, then some turn of the keeper stored the record for exactly that address less than
  the servers' time to live ago, on the servers in use now or on a set that shares a server
  with them.
\<close>

theorem announce_gated:
  assumes "is \<noteq> []" "snd (keeper_run is (keeper_default, None)) = (k, failed)"
    "announce_pass (Inr public) now k = (Announce, k')"
  shows "\<exists>i \<in> set is. ti_result i \<noteq> None \<and> ti_public i = public \<and> now - ti_now i < INDEX_TTL \<and>
    (ti_servers i = ti_servers (last is) \<or> ti_servers i |\<inter>| ti_servers (last is) \<noteq> {||})"
proof -
  from assms(3) have "is_live k public now"
    by (auto simp: announce_pass_def Let_def split: if_splits)
  moreover have "k\<lparr>k_servers := ti_servers (last is)\<rparr> = k"
    using keeper_run_servers [OF assms(1), of "(keeper_default, None)"] assms(2) by simp
  ultimately show ?thesis using live_record_published [OF assms(2)] by metis
qed

definition sample_turn :: turn_input where
  "sample_turn = \<lparr>ti_public = None, ti_servers = {|SocketAddrV4 1 1|}, ti_now = 5,
     ti_result = Some (SocketAddrV4 2 2), ti_done = 6\<rparr>"

lemma announce_gated_witness:
  "\<exists>i \<in> set [sample_turn]. ti_result i \<noteq> None \<and> ti_public i = None \<and> 100 - ti_now i < INDEX_TTL \<and>
     (ti_servers i = ti_servers (last [sample_turn]) \<or>
      ti_servers i |\<inter>| ti_servers (last [sample_turn]) \<noteq> {||})"
  by (rule announce_gated [where k = "fst (snd (keeper_run [sample_turn] (keeper_default, None)))"
        and failed = "snd (snd (keeper_run [sample_turn] (keeper_default, None)))"
        and k' = "fst (snd (keeper_run [sample_turn] (keeper_default, None)))"])
    (simp_all add: keeper_turn_def Let_def keeper_default_def sample_turn_def due_def backing_off_def
      announce_pass_def is_live_def record_is_live_def report_def keeper_times)

text \<open>
  C20: retries are spaced. After a publication that failed, no turn attempts another one before
  the retry delay has passed, whatever is reported or changes in between.
\<close>

theorem retry_spacing:
  assumes "sorted (map ti_now is)" "i < j" "j < length is"
    "fst (keeper_run is s) ! i" "ti_result (is ! i) = None" "fst (keeper_run is s) ! j"
  shows "ti_done (is ! i) + RETRY \<le> ti_now (is ! j)"
proof -
  obtain k where k: "snd (keeper_run (take (Suc i) is) s) = (k, Some (ti_done (is ! i)))"
    using keeper_run_failed [of i "is" s] assms by auto
  have "fst (keeper_run (drop (Suc i) is) (k, Some (ti_done (is ! i)))) = drop (Suc i) (fst (keeper_run is s))"
    using keeper_run_drop [of "Suc i" "is" s] assms(2,3) k by simp
  moreover have "drop (Suc i) (fst (keeper_run is s)) ! (j - Suc i)"
    using assms(2,3,6) by (simp add: keeper_run_length)
  moreover have "sorted (map ti_now (drop (Suc i) is))" using assms(1) by (simp add: drop_map [symmetric] sorted_wrt_drop)
  ultimately show ?thesis
    using keeper_run_backoff [of "drop (Suc i) is" "j - Suc i" k "ti_done (is ! i)"] assms(2,3) by simp
qed

lemma retry_spacing_witness:
  "ti_done ([sample_turn\<lparr>ti_result := None\<rparr>, sample_turn\<lparr>ti_now := 40000000000\<rparr>] ! 0) + RETRY \<le>
     ti_now ([sample_turn\<lparr>ti_result := None\<rparr>, sample_turn\<lparr>ti_now := 40000000000\<rparr>] ! 1)"
  by (rule retry_spacing [where s = "(keeper_default, None)"])
    (simp_all add: keeper_turn_def Let_def keeper_default_def sample_turn_def due_def backing_off_def keeper_times)

text \<open>
  C21: what a turn leaves, whatever happened before it. A publication that succeeds clears an earlier failure, stores the
  record for the current address, and the turn sleeps until the record's refresh; one that fails keeps the record and
  sleeps for the retry delay. A turn that does not have to publish, or is not allowed to yet, changes neither. Afterwards
  announcements from the current address are allowed, unless the turn failed or is backing off. And the next
  wake-up is in the future except in one case, that of C22: a failure is on record, its retry is due, and
  the record does not need one.
\<close>

theorem turn_keeps_live:
  assumes "keeper_turn i (k, failed) = (attempt, wake, k', failed')"
  shows "(\<forall>m. attempt \<and> ti_result i = Some m \<longrightarrow> failed' = None \<and> mapping k' = Some m \<and>
       wake = Some (ti_now i + INDEX_REFRESH)) \<and>
    (attempt \<and> ti_result i = None \<longrightarrow> failed' = Some (ti_done i) \<and> k_record k' = k_record k \<and>
       wake = Some (ti_done i + RETRY)) \<and>
    (\<not> attempt \<longrightarrow> failed' = failed \<and> k_record k' = k_record k) \<and>
    (is_live k' (ti_public i) (ti_now i) \<or> attempt \<and> ti_result i = None \<or> backing_off failed (ti_now i)) \<and>
    ((\<forall>t. wake = Some t \<longrightarrow> t \<le> ti_now i) \<longrightarrow>
       failed \<noteq> None \<and> \<not> backing_off failed (ti_now i) \<and> \<not> attempt \<or> attempt \<and> ti_result i = None \<and> ti_done i < ti_now i)"
proof (cases attempt)
  case True
  note turn = keeper_turn_cases [OF assms]
  show ?thesis
  proof (cases "ti_result i")
    case None
    with True turn show ?thesis by (auto simp: keeper_times)
  next
    case (Some m)
    with True turn show ?thesis by (auto simp: mapping_def is_live_def record_is_live_def keeper_times)
  qed
next
  case False
  note turn = keeper_turn_cases [OF assms]
  have live: "is_live k' (ti_public i) (ti_now i)" and wake: "failed = None \<Longrightarrow> \<exists>t. wake = Some t \<and> ti_now i < t"
    if "\<not> backing_off failed (ti_now i)"
  proof -
    from False turn(1) that obtain r where r: "k_record k = Some r" "rec_servers r = ti_servers i"
        "rec_public r = ti_public i" "ti_now i < rec_at r + INDEX_REFRESH"
      by (auto simp: due_def split: option.splits)
    with False turn show "is_live k' (ti_public i) (ti_now i)"
      by (auto simp: is_live_def record_is_live_def keeper_times)
    show "\<exists>t. wake = Some t \<and> ti_now i < t" if "failed = None" using False turn r that by auto
  qed
  have "\<exists>t. wake = Some t \<and> ti_now i < t" if "backing_off failed (ti_now i)"
    using that False turn by (auto simp: backing_off_def split: option.splits)
  with live wake False turn(4) show ?thesis by (metis leD)
qed

lemma turn_keeps_live_witness:
  "\<exists>attempt wake k' failed'. keeper_turn (sample_turn\<lparr>ti_now := 40000000000\<rparr>) (keeper_default, Some 9) = (attempt, wake, k', failed') \<and>
     attempt \<and> failed' = None \<and> mapping k' = Some (SocketAddrV4 2 2) \<and> wake = Some (40000000000 + INDEX_REFRESH)"
proof -
  let ?i = "sample_turn\<lparr>ti_now := 40000000000\<rparr>"
  obtain attempt wake k' failed' where
    t: "keeper_turn ?i (keeper_default, Some 9) = (attempt, wake, k', failed')" by (metis prod_cases4)
  have "attempt" using keeper_turn_cases(1) [OF t] by (simp add: sample_turn_def keeper_default_def due_def backing_off_def keeper_times)
  with turn_keeps_live [OF t] t show ?thesis by (auto simp: sample_turn_def)
qed

text \<open>
  C22: the loop can spin. When a publication failed because the address or the servers had
  changed, and they are back to those of the record when the retry is due, the turn attempts
  nothing, keeps the failure, and asks to be woken at a time that has already passed: it
  repeats itself without pause until the record is due for its refresh by age. The
  comment in the source assumes that after a failure the record is always due.
\<close>

theorem keeper_spins:
  assumes "k_record k = Some r" "ti_servers i = rec_servers r" "ti_public i = rec_public r"
    "f + RETRY \<le> ti_now i" "ti_now i < rec_at r + INDEX_REFRESH"
  shows "\<exists>t. keeper_turn i (k, Some f) = (False, Some t, k\<lparr>k_servers := ti_servers i\<rparr>, Some f) \<and>
    t \<le> ti_now i"
  using assms by (simp add: keeper_turn_def Let_def due_def backing_off_def)

lemma keeper_spins_witness:
  "\<exists>k f t. snd (keeper_run [sample_turn, sample_turn\<lparr>ti_servers := {||}, ti_result := None, ti_now := 7, ti_done := 8\<rparr>]
       (keeper_default, None)) = (k, Some f) \<and>
     keeper_turn (sample_turn\<lparr>ti_now := 40000000000\<rparr>) (k, Some f) =
       (False, Some t, k\<lparr>k_servers := ti_servers sample_turn\<rparr>, Some f) \<and> t \<le> 40000000000"
proof -
  define k where "k = fst (snd (keeper_run [sample_turn,
    sample_turn\<lparr>ti_servers := {||}, ti_result := None, ti_now := 7, ti_done := 8\<rparr>] (keeper_default, None)))"
  have run: "snd (keeper_run [sample_turn,
      sample_turn\<lparr>ti_servers := {||}, ti_result := None, ti_now := 7, ti_done := 8\<rparr>] (keeper_default, None)) =
      (k, Some 8)"
    and rec: "k_record k = Some \<lparr>rec_public = None, rec_mapping = SocketAddrV4 2 2, rec_at = 5,
      rec_servers = {|SocketAddrV4 1 1|}\<rparr>"
    by (simp_all add: k_def keeper_turn_def Let_def keeper_default_def sample_turn_def due_def backing_off_def)
  have "\<exists>t. keeper_turn (sample_turn\<lparr>ti_now := 40000000000\<rparr>) (k, Some 8) =
      (False, Some t, k\<lparr>k_servers := ti_servers (sample_turn\<lparr>ti_now := 40000000000\<rparr>)\<rparr>, Some 8) \<and>
      t \<le> ti_now (sample_turn\<lparr>ti_now := 40000000000\<rparr>)"
    by (rule keeper_spins [OF rec]) (simp_all add: sample_turn_def keeper_times)
  with run show ?thesis by (auto simp: sample_turn_def)
qed

end
