(* ===== verification/Discovery.thy ===== *)
theory Discovery
  imports Server_List Lookup_Cache Udp_Client Index_Keeper
begin

text \<open>
  Discovery of index servers and lookups through them,
  \<open>iroh-mainline-endpoint-discovery/src/addr_index.rs\<close>, with the renewal of a signed list
  (\<open>republisher.rs\<close>) and the parsing of infohashes (\<open>lib.rs\<close>). What the DHT answers is the argument
  \<open>refresh_input\<close>: the items that arrived, how the lookup ended, the announced peers.
\<close>

section \<open>Configuration\<close>

definition DEFAULT_INDEX_LIST_KEY :: bytes where
  "DEFAULT_INDEX_LIST_KEY =
     [191, 136, 19, 206, 0, 147, 105, 54, 43, 148, 59, 158, 122, 233, 214, 67, 47, 52, 190, 154, 118,
      20, 212, 117, 226, 54, 65, 95, 30, 141, 1, 29]"

definition DISCOVERY_REFRESH :: duration where "DISCOVERY_REFRESH = secs (10 * 60)"
definition DISCOVERY_RETRY :: duration where "DISCOVERY_RETRY = secs 30"
definition DEFAULT_LOOKUP_CACHE_TTL :: duration where "DEFAULT_LOOKUP_CACHE_TTL = secs (5 * 60)"

record sources =
  src_list_key :: "bytes option"
  src_fallback :: "mutable_item option"
  src_rendezvous :: "bytes option"

record builder =
  b_servers :: "socket_addr_v4 fset"
  b_sources :: sources
  b_timeout :: duration
  b_lookup_cache :: "duration option"

definition builder_new :: builder where
  "builder_new = \<lparr>b_servers = {||}, b_sources = \<lparr>src_list_key = None, src_fallback = None, src_rendezvous = None\<rparr>,
     b_timeout = DEFAULT_TIMEOUT, b_lookup_cache = None\<rparr>"

definition with_server :: "socket_addr_v4 \<Rightarrow> builder \<Rightarrow> builder" where
  "with_server s b = b\<lparr>b_servers := finsert s (b_servers b)\<rparr>"

definition with_list_key :: "bytes \<Rightarrow> builder \<Rightarrow> builder" where
  "with_list_key k b = b\<lparr>b_sources := (b_sources b)\<lparr>src_list_key := Some k\<rparr>\<rparr>"

definition with_fallback_list :: "mutable_item \<Rightarrow> builder \<Rightarrow> builder" where
  "with_fallback_list i b = b\<lparr>b_sources := (b_sources b)\<lparr>src_fallback := Some i\<rparr>\<rparr>"

definition with_rendezvous_hash :: "bytes \<Rightarrow> builder \<Rightarrow> builder" where
  "with_rendezvous_hash h b = b\<lparr>b_sources := (b_sources b)\<lparr>src_rendezvous := Some h\<rparr>\<rparr>"

definition with_lookup_cache :: "duration \<Rightarrow> builder \<Rightarrow> builder" where
  "with_lookup_cache ttl b = b\<lparr>b_lookup_cache := Some ttl\<rparr>"

definition with_timeout :: "duration \<Rightarrow> builder \<Rightarrow> builder" where
  "with_timeout t b = b\<lparr>b_timeout := t\<rparr>"

definition n0_defaults :: "builder \<Rightarrow> builder" where
  "n0_defaults b = with_lookup_cache DEFAULT_LOOKUP_CACHE_TTL (with_list_key DEFAULT_INDEX_LIST_KEY b)"

section \<open>The signed list\<close>

record discovery_state =
  ds_signed :: "mutable_item option"

text \<open>Sequence first, then the value bytes.\<close>

definition newer :: "mutable_item \<Rightarrow> mutable_item \<Rightarrow> bool" where
  "newer a b \<longleftrightarrow> (mi_seq a, mi_value a) > (mi_seq b, mi_value b)"

definition discovery_accept :: "dns_ext \<Rightarrow> mutable_item \<Rightarrow> discovery_state \<Rightarrow> discovery_state" where
  "discovery_accept x item s =
     (if mi_salt item \<noteq> None \<or> mi_seq item < 0 \<or> server_list_decode x (mi_value item) (mi_key item) = None
      then s
      else if (case ds_signed s of None \<Rightarrow> True | Some old \<Rightarrow> newer item old)
      then s\<lparr>ds_signed := Some item\<rparr> else s)"

section \<open>Refreshing the servers\<close>

datatype stream_end = StreamEnded | StreamTimeout | StreamError udp_error

record refresh_input =
  ri_bootstrapped :: "udp_error + bool"
  ri_items :: "mutable_item list"
  ri_lookup :: "udp_error + unit"
  ri_batches :: "socket_addr_v4 list list"
  ri_end :: stream_end
  ri_client :: "udp_error + unit"

text \<open>The announced peers: valid ones are collected until there are two.\<close>

fun collect_peers :: "socket_addr_v4 list \<Rightarrow> socket_addr_v4 fset \<Rightarrow> socket_addr_v4 fset" where
  "collect_peers [] peers = peers"
| "collect_peers (p # ps) peers =
     (if valid_address p then
        (let peers = finsert p peers
         in if fcard peers = 2 then peers else collect_peers ps peers)
      else collect_peers ps peers)"

definition rendezvous :: "refresh_input \<Rightarrow> socket_addr_v4 fset \<Rightarrow> (udp_error + unit) \<times> socket_addr_v4 fset" where
  "rendezvous i peers =
     (case ri_end i of
        StreamError e \<Rightarrow> (Inl e, peers)
      | StreamEnded \<Rightarrow> (Inr (), collect_peers (concat (ri_batches i)) peers)
      | StreamTimeout \<Rightarrow>
          (let peers = collect_peers (concat (ri_batches i)) peers
           in if peers = {||} then (Inl Timeout, peers) else (Inr (), peers)))"

definition signed_addresses :: "dns_ext \<Rightarrow> discovery_state \<Rightarrow> socket_addr_v4 list option" where
  "signed_addresses x s =
     (case ds_signed s of None \<Rightarrow> None | Some item \<Rightarrow> server_list_decode x (mi_value item) (mi_key item))"

definition accept_items :: "dns_ext \<Rightarrow> sources \<Rightarrow> mutable_item list \<Rightarrow> discovery_state \<Rightarrow> discovery_state" where
  "accept_items x src items s =
     (let s = fold (discovery_accept x) items s
      in case (ds_signed s, src_fallback src) of
           (None, Some item) \<Rightarrow>
             if src_list_key src = Some (mi_key item) then discovery_accept x item s else s
         | _ \<Rightarrow> s)"

text \<open>The servers a refresh settles on: the signed ones, else the announced ones.\<close>

definition choose_peers :: "sources \<Rightarrow> refresh_input \<Rightarrow> udp_error + unit \<Rightarrow> socket_addr_v4 list option \<Rightarrow>
    udp_error + socket_addr_v4 fset" where
  "choose_peers src i signed_result signed_list =
     (let withdrawn = (signed_list = Some []);
          peers = (case signed_list of None \<Rightarrow> {||} | Some l \<Rightarrow> fset_of_list l);
          (failed, peers) =
            (if peers = {||} then
               (case src_rendezvous src of
                  Some h \<Rightarrow>
                    (let (result, peers) = rendezvous i peers
                     in (if withdrawn then Inr () else result, peers))
                | None \<Rightarrow> (if withdrawn then Inr () else signed_result, peers))
             else (Inr (), peers))
      in case failed of
           Inl e \<Rightarrow> Inl e
         | Inr _ \<Rightarrow> if peers = {||} \<and> \<not> withdrawn then Inl NoServers else Inr peers)"

definition refresh :: "dns_ext \<Rightarrow> sources \<Rightarrow> refresh_input \<Rightarrow> discovery_state \<Rightarrow> socket_addr_v4 fset \<Rightarrow>
    (udp_error + unit) \<times> discovery_state \<times> socket_addr_v4 fset" where
  "refresh x src i s current =
     (case ri_bootstrapped i of
        Inl e \<Rightarrow> (Inl e, s, current)
      | Inr _ \<Rightarrow>
          (let signed_result = (case src_list_key src of None \<Rightarrow> Inr () | Some _ \<Rightarrow> ri_lookup i);
               items = (case src_list_key src of None \<Rightarrow> [] | Some _ \<Rightarrow> ri_items i);
               s = accept_items x src items s
           in case choose_peers src i signed_result (signed_addresses x s) of
                Inl e \<Rightarrow> (Inl e, s, current)
              | Inr peers \<Rightarrow>
                  (case ri_client i of Inl e \<Rightarrow> (Inl e, s, current) | Inr _ \<Rightarrow> (Inr (), s, peers))))"

text \<open>
  \<open>build\<close>: explicit servers are used as they are; without any source there is nothing to do;
  otherwise the first refresh has to find a server.
\<close>

definition build :: "dns_ext \<Rightarrow> refresh_input \<Rightarrow> builder \<Rightarrow> udp_error + (discovery_state option \<times> socket_addr_v4 fset)" where
  "build x i b =
     (if b_servers b \<noteq> {||} then
        (case ri_client i of Inl e \<Rightarrow> Inl e | Inr _ \<Rightarrow> Inr (None, b_servers b))
      else if src_list_key (b_sources b) = None \<and> src_rendezvous (b_sources b) = None then Inl NoServers
      else
        (case refresh x (b_sources b) i \<lparr>ds_signed = None\<rparr> {||} of
           (Inl e, _) \<Rightarrow> Inl e
         | (Inr _, s, found) \<Rightarrow> if found = {||} then Inl NoServers else Inr (Some s, found)))"

text \<open>The rounds of the background task: each starts from the state and the servers the one before left.\<close>

fun refresh_rounds :: "dns_ext \<Rightarrow> sources \<Rightarrow> refresh_input list \<Rightarrow> discovery_state \<Rightarrow> socket_addr_v4 fset \<Rightarrow>
    ((udp_error + unit) \<times> discovery_state \<times> socket_addr_v4 fset) list" where
  "refresh_rounds x src [] s current = []"
| "refresh_rounds x src (i # is) s current =
     (let (result, s, current) = refresh x src i s current
      in (result, s, current) # refresh_rounds x src is s current)"

text \<open>The delay of the background refresh.\<close>

definition discovery_delay :: "udp_error + unit \<Rightarrow> duration" where
  "discovery_delay result = (case result of Inl _ \<Rightarrow> DISCOVERY_RETRY | Inr _ \<Rightarrow> DISCOVERY_REFRESH)"

section \<open>Publishing and looking up\<close>

definition publish_value :: "record_ext \<Rightarrow> bytes \<Rightarrow> u64 \<Rightarrow> value_for" where
  "publish_value e secret now addr = record_encode e (record_sign e secret addr now)"

definition lookup_accept :: "record_ext \<Rightarrow> socket_addr_v4 \<Rightarrow> accept" where
  "lookup_accept e addr v \<longleftrightarrow> record_decode e v addr \<noteq> None"

definition lookup_uncached :: "record_ext \<Rightarrow> socket_addr_v4 \<Rightarrow> udp_error + bytes list \<Rightarrow> udp_error + signed_record list" where
  "lookup_uncached e addr result =
     (case result of Inl err \<Rightarrow> Inl err
      | Inr vs \<Rightarrow> Inr (List.map_filter (\<lambda>v. record_decode e v addr) vs))"

text \<open>
  A lookup through the cache: it is asked before and after waiting for the lock of the address;
  \<open>t1\<close>, \<open>t2\<close>, \<open>t3\<close> are the clock readings of the two reads and of the insertion.
\<close>

definition lookup :: "'c lookup_lru \<Rightarrow> record_ext \<Rightarrow> socket_addr_v4 \<Rightarrow> instant \<Rightarrow> instant \<Rightarrow> instant \<Rightarrow>
    udp_error + bytes list \<Rightarrow> 'c lookup_cache option \<Rightarrow>
    (udp_error + signed_record list) \<times> 'c lookup_cache option" where
  "lookup L e addr t1 t2 t3 result cache =
     (case cache of
        None \<Rightarrow> (lookup_uncached e addr result, None)
      | Some c \<Rightarrow>
          (case cache_get L addr t1 c of
             (Some rs, c) \<Rightarrow> (Inr rs, Some c)
           | (None, c) \<Rightarrow>
               (case cache_get L addr t2 c of
                  (Some rs, c) \<Rightarrow> (Inr rs, Some c)
                | (None, c) \<Rightarrow>
                    (case lookup_uncached e addr result of
                       Inl err \<Rightarrow> (Inl err, Some c)
                     | Inr rs \<Rightarrow> (Inr rs, Some (cache_insert L addr rs t3 c))))))"

section \<open>Renewing a signed list\<close>

definition RENEW :: duration where "RENEW = secs 600"

datatype put_outcome = PutOk | PutConcurrency | PutShutdown | PutOtherError | PutTimedOut

definition republish_checks :: "dns_ext \<Rightarrow> mutable_item \<Rightarrow> bool" where
  "republish_checks x item \<longleftrightarrow>
     mi_salt item = None \<and> mi_seq item \<ge> 0 \<and> server_list_decode x (mi_value item) (mi_key item) \<noteq> None"

text \<open>One round of \<open>renew\<close>: the delay before the next, or the end of the task.\<close>

fun renew_round :: "put_outcome \<Rightarrow> duration option" where
  "renew_round PutOk = Some RENEW"
| "renew_round PutConcurrency = None"
| "renew_round PutShutdown = None"
| "renew_round PutOtherError = Some RETRY"
| "renew_round PutTimedOut = Some RETRY"

section \<open>Infohashes\<close>

datatype hash_parse_error = InvalidLength | InvalidHex

record hash_ext =
  hx_hex :: "string \<Rightarrow> bytes option"
  hx_blake3 :: "string \<Rightarrow> bytes option"
  hx_sha1 :: "bytes \<Rightarrow> bytes"
  hx_show :: "bytes \<Rightarrow> string"

definition infohash_from_blake3 :: "hash_ext \<Rightarrow> bytes \<Rightarrow> bytes" where
  "infohash_from_blake3 h hash = hx_sha1 h hash"

definition decode_hex20 :: "hash_ext \<Rightarrow> string \<Rightarrow> hash_parse_error + bytes" where
  "decode_hex20 h v =
     (case hx_hex h v of Some bs \<Rightarrow> if length bs = 20 then Inr bs else Inl InvalidHex | None \<Rightarrow> Inl InvalidHex)"

definition parse_infohash :: "hash_ext \<Rightarrow> string \<Rightarrow> hash_parse_error + bytes" where
  "parse_infohash h v =
     (let v = trim v in
      if length v = 40 then decode_hex20 h v
      else if length v = 64 then
        (case hx_blake3 h v of None \<Rightarrow> Inl InvalidHex | Some hash \<Rightarrow> Inr (infohash_from_blake3 h hash))
      else Inl InvalidLength)"

definition infohash_hex :: "hash_ext \<Rightarrow> bytes \<Rightarrow> string" where
  "infohash_hex h i = hx_show h i"

section \<open>Lemmas\<close>

text \<open>The item in use only ever gets newer, and it always decodes.\<close>

definition signed_ok :: "dns_ext \<Rightarrow> discovery_state \<Rightarrow> bool" where
  "signed_ok x s \<longleftrightarrow> (\<forall>item. ds_signed s = Some item \<longrightarrow>
     mi_salt item = None \<and> mi_seq item \<ge> 0 \<and> server_list_decode x (mi_value item) (mi_key item) \<noteq> None)"

definition not_older :: "discovery_state \<Rightarrow> discovery_state \<Rightarrow> bool" where
  "not_older s s' \<longleftrightarrow> (\<forall>old. ds_signed s = Some old \<longrightarrow>
     (\<exists>item. ds_signed s' = Some item \<and> (item = old \<or> newer item old)))"

lemma newer_trans: "newer a b \<Longrightarrow> newer b c \<Longrightarrow> newer a c"
  by (auto simp: newer_def)

lemma not_older_trans: "not_older a b \<Longrightarrow> not_older b c \<Longrightarrow> not_older a c"
  unfolding not_older_def using newer_trans by metis

lemma accept_ok: "signed_ok x s \<Longrightarrow> signed_ok x (discovery_accept x item s)"
  by (auto simp: signed_ok_def discovery_accept_def)

lemma accept_not_older: "not_older s (discovery_accept x item s)"
  by (auto simp: not_older_def discovery_accept_def split: option.splits)

lemma fold_accept:
  "(signed_ok x s \<longrightarrow> signed_ok x (fold (discovery_accept x) items s)) \<and>
     not_older s (fold (discovery_accept x) items s)"
proof (induction items arbitrary: s)
  case Nil
  then show ?case by (simp add: not_older_def)
next
  case (Cons i items)
  from Cons.IH [of "discovery_accept x i s"] show ?case
    using accept_ok [of x s i] not_older_trans [OF accept_not_older] by auto
qed

lemma accept_items_props:
  "signed_ok x s \<Longrightarrow> signed_ok x (accept_items x src items s)" "not_older s (accept_items x src items s)"
  using fold_accept [of x s items] accept_ok not_older_trans [OF _ accept_not_older]
  by (auto simp: accept_items_def Let_def split: option.splits)

lemma accept_newest:
  assumes "mi_salt item = None" "mi_seq item \<ge> 0" "server_list_decode x (mi_value item) (mi_key item) \<noteq> None"
    "item \<in> set items"
  shows "\<exists>best. ds_signed (fold (discovery_accept x) items s) = Some best \<and> (best = item \<or> \<not> newer item best)"
  using assms(4)
proof (induction items arbitrary: s)
  case (Cons i items)
  let ?s = "discovery_accept x i s"
  show ?case
  proof (cases "item \<in> set items")
    case True
    with Cons.IH [of ?s] show ?thesis by simp
  next
    case False
    with Cons.prems have i: "i = item" by simp
    obtain b where b: "ds_signed ?s = Some b" "b = item \<or> \<not> newer item b"
    proof (cases "ds_signed s")
      case None
      with assms(1-3) show ?thesis by (intro that [of item]) (auto simp: i discovery_accept_def)
    next
      case (Some old)
      with assms(1-3) show ?thesis
        by (intro that [of "if newer item old then item else old"]) (auto simp: i discovery_accept_def)
    qed
    then obtain c where "ds_signed (fold (discovery_accept x) items ?s) = Some c" "c = b \<or> newer c b"
      using fold_accept [of x ?s items] by (auto simp: not_older_def)
    with b show ?thesis by (auto simp: newer_def)
  qed
qed simp

lemma collect_peers_props:
  "fcard peers < 2 \<Longrightarrow> (\<And>p. p |\<in>| peers \<Longrightarrow> valid_address p) \<Longrightarrow>
     fcard (collect_peers ps peers) \<le> 2 \<and> (\<forall>p. p |\<in>| collect_peers ps peers \<longrightarrow> valid_address p)"
proof (induction ps peers rule: collect_peers.induct)
  case (2 p ps peers)
  show ?case
  proof (cases "valid_address p")
    case True
    have le: "fcard (finsert p peers) \<le> 2" using "2.prems"(1) by (simp add: fcard_finsert_if)
    have v: "\<And>q. q |\<in>| finsert p peers \<Longrightarrow> valid_address q" using "2.prems"(2) True by auto
    show ?thesis
    proof (cases "fcard (finsert p peers) = 2")
      case True
      with \<open>valid_address p\<close> v show ?thesis by (simp add: Let_def)
    next
      case False
      with le have "fcard (finsert p peers) < 2" by simp
      from "2.IH"(1) [OF \<open>valid_address p\<close> refl False this v] \<open>valid_address p\<close> False show ?thesis
        by (simp add: Let_def)
    qed
  next
    case False
    with "2.IH"(2) "2.prems" show ?thesis by simp
  qed
qed simp

lemma fcard_fset_of_list: "fcard (fset_of_list l) \<le> length l"
  by (simp add: fcard.rep_eq fset_of_list.rep_eq card_length)

text \<open>What a refresh hands to the client.\<close>

lemma rendezvous_props:
  "rendezvous i {||} = (r, peers) \<Longrightarrow> fcard peers \<le> 2 \<and> (\<forall>p. p |\<in>| peers \<longrightarrow> valid_address p)"
  using collect_peers_props [of "{||}" "concat (ri_batches i)"]
  by (auto simp: rendezvous_def Let_def fcard_fempty split: stream_end.splits if_splits)

lemma signed_addresses_props:
  "signed_addresses x s = Some l \<Longrightarrow> length l \<le> 2 \<and> list_all valid_address l"
  using server_list_decode_sound by (auto simp: signed_addresses_def split: option.splits)

lemma choose_peers_props:
  assumes c: "choose_peers src i r lst = Inr found"
    and lst: "\<And>l. lst = Some l \<Longrightarrow> length l \<le> 2 \<and> list_all valid_address l"
  shows "fcard found \<le> 2 \<and> (\<forall>p. p |\<in>| found \<longrightarrow> valid_address p)"
    and "lst = Some (a # l) \<Longrightarrow> found = fset_of_list (a # l)"
    and "found = {||} \<Longrightarrow> lst = Some []"
proof -
  define known where "known = (case lst of None \<Rightarrow> {||} | Some l \<Rightarrow> fset_of_list l)"
  have cases: "found = known \<and> (known \<noteq> {||} \<or> lst = Some []) \<or>
      known = {||} \<and> (\<exists>r. rendezvous i {||} = (r, found)) \<and> (found \<noteq> {||} \<or> lst = Some [])"
    using c
    by (auto simp: choose_peers_def Let_def known_def [symmetric]
        split: sum.splits if_splits option.splits prod.splits)
  have "fcard known \<le> 2 \<and> (\<forall>p. p |\<in>| known \<longrightarrow> valid_address p)"
  proof (cases lst)
    case None
    then show ?thesis by (simp add: known_def fcard_fempty)
  next
    case (Some l)
    then show ?thesis
      using fcard_fset_of_list [of l] lst [of l]
      by (auto simp: known_def fset_of_list_elem list_all_iff)
  qed
  with cases rendezvous_props show "fcard found \<le> 2 \<and> (\<forall>p. p |\<in>| found \<longrightarrow> valid_address p)" by blast
  show "found = fset_of_list (a # l)" if "lst = Some (a # l)"
    using that cases by (auto simp: known_def)
  show "lst = Some []" if "found = {||}"
    using that cases by auto
qed

lemma refresh_state:
  "refresh x src i s current = (result, s', found) \<Longrightarrow>
     s' = (case ri_bootstrapped i of
        Inl _ \<Rightarrow> s
      | Inr _ \<Rightarrow> accept_items x src (case src_list_key src of None \<Rightarrow> [] | Some _ \<Rightarrow> ri_items i) s)"
  by (auto simp: refresh_def Let_def split: sum.splits)

lemma refresh_choice:
  assumes "refresh x src i s current = (result, s', found)" "ri_bootstrapped i = Inr b"
  shows "(result, found) =
    (case choose_peers src i (case src_list_key src of None \<Rightarrow> Inr () | Some _ \<Rightarrow> ri_lookup i) (signed_addresses x s') of
       Inl e \<Rightarrow> (Inl e, current)
     | Inr peers \<Rightarrow> (case ri_client i of Inl e \<Rightarrow> (Inl e, current) | Inr _ \<Rightarrow> (Inr (), peers)))"
  using assms by (auto simp: refresh_def Let_def split: sum.splits)

text \<open>
  The servers announced under the rendezvous hash: the first two different ones of those that are valid, and none when the
  lookup could not be started.
\<close>

definition announced_servers :: "refresh_input \<Rightarrow> socket_addr_v4 fset" where
  "announced_servers i =
     (case ri_end i of
        StreamError _ \<Rightarrow> {||}
      | _ \<Rightarrow> fset_of_list (take 2 (dedup [] (filter valid_address (concat (ri_batches i))))))"

lemma dedup_prefix: "\<exists>ys. dedup acc xs = acc @ ys"
proof (induction acc xs rule: dedup.induct)
  case (2 unique x xs)
  then show ?case by (auto split: if_splits)
qed simp

lemma collect_peers_first:
  "distinct acc \<Longrightarrow> length acc < 2 \<Longrightarrow>
     collect_peers ps (fset_of_list acc) = fset_of_list (take 2 (dedup acc (filter valid_address ps)))"
proof (induction ps arbitrary: acc)
  case (Cons p ps)
  show ?case
  proof (cases "valid_address p \<and> p \<notin> set acc")
    case True
    have card: "fcard (finsert p (fset_of_list acc)) = Suc (length acc)"
      using True Cons.prems(1)
      by (simp add: fcard_finsert_disjoint fset_of_list_elem) (simp add: fcard.rep_eq fset_of_list.rep_eq distinct_card)
    have ins: "fset_of_list (acc @ [p]) = finsert p (fset_of_list acc)" by auto
    have rhs: "dedup acc (filter valid_address (p # ps)) = dedup (acc @ [p]) (filter valid_address ps)"
      using True by simp
    show ?thesis
    proof (cases "length acc = 1")
      case one: True
      obtain ys where "dedup (acc @ [p]) (filter valid_address ps) = (acc @ [p]) @ ys" using dedup_prefix by blast
      then have "take 2 (dedup (acc @ [p]) (filter valid_address ps)) = acc @ [p]" using one by simp
      moreover have "collect_peers (p # ps) (fset_of_list acc) = finsert p (fset_of_list acc)"
        using True card one by (simp add: Let_def)
      ultimately show ?thesis by (simp only: rhs ins)
    next
      case False
      then have "acc = []" using Cons.prems(2) by (cases acc) auto
      have "collect_peers (p # ps) (fset_of_list acc) = collect_peers ps (fset_of_list (acc @ [p]))"
        using True card False by (simp add: Let_def ins del: fset_of_list_append)
      also have "\<dots> = fset_of_list (take 2 (dedup (acc @ [p]) (filter valid_address ps)))"
        using True \<open>acc = []\<close> by (intro Cons.IH) auto
      finally show ?thesis by (simp only: rhs)
    qed
  next
    case False
    have keep: "valid_address p \<Longrightarrow> finsert p (fset_of_list acc) = fset_of_list acc"
      using False by (auto simp: fset_of_list_elem)
    have "fcard (fset_of_list acc) = length acc"
      using Cons.prems(1) by (simp add: fcard.rep_eq fset_of_list.rep_eq distinct_card)
    then have "fcard (fset_of_list acc) \<noteq> 2" using Cons.prems(2) by simp
    with False keep Cons show ?thesis by (cases "valid_address p") simp_all
  qed
qed simp

lemma rendezvous_announced:
  "rendezvous i {||} =
     (case ri_end i of
        StreamError e \<Rightarrow> Inl e
      | StreamEnded \<Rightarrow> Inr ()
      | StreamTimeout \<Rightarrow> if announced_servers i = {||} then Inl Timeout else Inr (), announced_servers i)"
  using collect_peers_first [of "[]" "concat (ri_batches i)"]
  by (simp add: rendezvous_def announced_servers_def Let_def split: stream_end.split)

lemma choose_peers_cases:
  "choose_peers src i r (Some (a # l)) = Inr (fset_of_list (a # l))"
  "choose_peers src i r (Some []) = Inr (if src_rendezvous src = None then {||} else announced_servers i)"
  "src_rendezvous src = None \<Longrightarrow> choose_peers src i r None = Inl (case r of Inl e \<Rightarrow> e | Inr _ \<Rightarrow> NoServers)"
  "src_rendezvous src = Some h \<Longrightarrow> choose_peers src i r None =
     (if announced_servers i \<noteq> {||} then Inr (announced_servers i)
      else Inl (case ri_end i of StreamError e \<Rightarrow> e | StreamTimeout \<Rightarrow> Timeout | StreamEnded \<Rightarrow> NoServers))"
  by (auto simp: choose_peers_def rendezvous_announced Let_def announced_servers_def split: option.split stream_end.split sum.split)

lemma announced_props: "fcard (announced_servers i) \<le> 2 \<and> (\<forall>p. p |\<in>| announced_servers i \<longrightarrow> valid_address p)"
  using rendezvous_props [of i] rendezvous_announced [of i] by blast

section \<open>Properties\<close>

text \<open>
  C30: refreshing the index servers, in every case. When a refresh fails, the servers in use stay. The first source that
  has servers decides: a signed list with servers is used exactly as signed, whatever is announced.
  A signed list without servers is a withdrawal: the refresh succeeds, with the servers announced under the rendezvous hash where one is
  configured, however few those are and however that lookup ended, and with none otherwise. With
  no signed list the announced servers are used if there are any; without them the refresh fails, for the reason
  the last lookup gave. Announced are the first two different valid sockets. What is left in use after a success
  are at most two valid sockets, and none only after a withdrawal.
\<close>

theorem refresh_servers:
  assumes "refresh x src i s current = (result, s', found)"
  shows "(\<forall>e. result = Inl e \<longrightarrow> found = current) \<and>
    (\<forall>e. ri_bootstrapped i = Inl e \<longrightarrow> result = Inl e) \<and>
    (\<forall>e. ri_client i = Inl e \<longrightarrow> result \<noteq> Inr ()) \<and>
    (\<forall>b. ri_bootstrapped i = Inr b \<and> ri_client i = Inr () \<longrightarrow>
      (result, found) =
       (case (signed_addresses x s', src_rendezvous src) of
          (Some (a # l), _) \<Rightarrow> (Inr (), fset_of_list (a # l))
        | (Some [], Some _) \<Rightarrow> (Inr (), announced_servers i)
        | (Some [], None) \<Rightarrow> (Inr (), {||})
        | (None, Some _) \<Rightarrow>
            if announced_servers i \<noteq> {||} then (Inr (), announced_servers i)
            else (Inl (case ri_end i of StreamError e \<Rightarrow> e | StreamTimeout \<Rightarrow> Timeout | StreamEnded \<Rightarrow> NoServers), current)
        | (None, None) \<Rightarrow>
            (Inl (if src_list_key src = None then NoServers else case ri_lookup i of Inl e \<Rightarrow> e | Inr _ \<Rightarrow> NoServers), current))) \<and>
    (result = Inr () \<longrightarrow> fcard found \<le> 2 \<and> (\<forall>p. p |\<in>| found \<longrightarrow> valid_address p) \<and>
       (found = {||} \<longrightarrow> signed_addresses x s' = Some []))"
proof (intro conjI)
  show "\<forall>e. result = Inl e \<longrightarrow> found = current" "\<forall>e. ri_bootstrapped i = Inl e \<longrightarrow> result = Inl e"
    "\<forall>e. ri_client i = Inl e \<longrightarrow> result \<noteq> Inr ()"
    using assms by (auto simp: refresh_def Let_def split: sum.splits)
  show "\<forall>b. ri_bootstrapped i = Inr b \<and> ri_client i = Inr () \<longrightarrow> (result, found) =
       (case (signed_addresses x s', src_rendezvous src) of
          (Some (a # l), _) \<Rightarrow> (Inr (), fset_of_list (a # l))
        | (Some [], Some _) \<Rightarrow> (Inr (), announced_servers i)
        | (Some [], None) \<Rightarrow> (Inr (), {||})
        | (None, Some _) \<Rightarrow>
            if announced_servers i \<noteq> {||} then (Inr (), announced_servers i)
            else (Inl (case ri_end i of StreamError e \<Rightarrow> e | StreamTimeout \<Rightarrow> Timeout | StreamEnded \<Rightarrow> NoServers), current)
        | (None, None) \<Rightarrow>
            (Inl (if src_list_key src = None then NoServers else case ri_lookup i of Inl e \<Rightarrow> e | Inr _ \<Rightarrow> NoServers), current))"
    using refresh_choice [OF assms] by (auto simp: choose_peers_cases split: option.splits list.splits)
  show "result = Inr () \<longrightarrow> fcard found \<le> 2 \<and> (\<forall>p. p |\<in>| found \<longrightarrow> valid_address p) \<and>
       (found = {||} \<longrightarrow> signed_addresses x s' = Some [])"
  proof
    assume "result = Inr ()"
    with assms obtain sr where c: "choose_peers src i sr (signed_addresses x s') = Inr found"
      by (auto simp: refresh_def Let_def split: sum.splits)
    have "length l \<le> 2 \<and> list_all valid_address l" if "signed_addresses x s' = Some l" for l
      using signed_addresses_props that by blast
    from choose_peers_props [OF c this] show "fcard found \<le> 2 \<and> (\<forall>p. p |\<in>| found \<longrightarrow> valid_address p) \<and>
       (found = {||} \<longrightarrow> signed_addresses x s' = Some [])"
      by blast
  qed
qed

definition sample_refresh :: refresh_input where
  "sample_refresh = \<lparr>ri_bootstrapped = Inr True, ri_items = [], ri_lookup = Inr (),
     ri_batches = [[SocketAddrV4 16909060 443]], ri_end = StreamEnded, ri_client = Inr ()\<rparr>"

text \<open>A DNS format with two packets: a list of one server, and a list that withdraws its servers.\<close>

definition two_lists :: dns_ext where
  "two_lists = \<lparr>dns_build = (\<lambda>rs. if rs = sample_answers then [1] else [2]),
     dns_parse = (\<lambda>v. if v = [1] then Some sample_answers
                     else if v = [2] then Some [\<lparr>rr_name = ''key'', rr_in = True, rr_ttl = 300, rr_data = TXT (Some [])\<rparr>] else None),
     dns_name = (\<lambda>_. ''key'')\<rparr>"

definition sample_item :: "int \<Rightarrow> bytes \<Rightarrow> mutable_item" where
  "sample_item n v = \<lparr>mi_key = [9], mi_seq = n, mi_value = v, mi_salt = None\<rparr>"

lemma two_lists_decode:
  "server_list_decode two_lists [1] key = Some [SocketAddrV4 16909060 443]"
  "server_list_decode two_lists [2] key = Some []"
proof -
  have "parse_socket (show_socket (SocketAddrV4 16909060 443)) = Some (SocketAddrV4 16909060 443)"
    by (rule parse_show_socket)
  moreover have "server_list_new [SocketAddrV4 16909060 443] = Inr [SocketAddrV4 16909060 443]"
    by (simp add: server_list_new_def valid_address_def ip_is_unspecified_def ip_is_multicast_def ip_is_broadcast_def)
  ultimately show "server_list_decode two_lists [1] key = Some [SocketAddrV4 16909060 443]"
    using show_socket_ne by (simp add: server_list_decode_def two_lists_def sample_answers_def)
  show "server_list_decode two_lists [2] key = Some []"
    by (simp add: server_list_decode_def two_lists_def server_list_new_def)
qed

definition sample_sources :: sources where
  "sample_sources = \<lparr>src_list_key = Some [9], src_fallback = None, src_rendezvous = Some []\<rparr>"

text \<open>A list that withdraws its servers, and the server announced under the rendezvous hash that takes their place.\<close>

lemma refresh_servers_witness:
  "\<exists>s'. refresh two_lists sample_sources (sample_refresh\<lparr>ri_items := [sample_item 3 [2]]\<rparr>) \<lparr>ds_signed = None\<rparr> {|SocketAddrV4 7 7|} =
     (Inr (), s', {|SocketAddrV4 16909060 443|})"
proof -
  let ?i = "sample_refresh\<lparr>ri_items := [sample_item 3 [2]]\<rparr>"
  obtain result s' found where
    r: "refresh two_lists sample_sources ?i \<lparr>ds_signed = None\<rparr> {|SocketAddrV4 7 7|} = (result, s', found)" by (metis prod_cases3)
  have "s' = \<lparr>ds_signed = Some (sample_item 3 [2])\<rparr>"
    using refresh_state [OF r]
    by (simp add: sample_refresh_def sample_sources_def accept_items_def discovery_accept_def sample_item_def two_lists_decode)
  then have "signed_addresses two_lists s' = Some []" by (simp add: signed_addresses_def sample_item_def two_lists_decode)
  moreover have "announced_servers ?i = {|SocketAddrV4 16909060 443|}"
    by (simp add: announced_servers_def sample_refresh_def valid_address_def ip_is_unspecified_def ip_is_multicast_def
        ip_is_broadcast_def)
  moreover have "ri_bootstrapped ?i = Inr True" "ri_client ?i = Inr ()" "src_rendezvous sample_sources = Some []"
    by (simp_all add: sample_refresh_def sample_sources_def)
  moreover have "\<forall>b. ri_bootstrapped ?i = Inr b \<and> ri_client ?i = Inr () \<longrightarrow>
      (result, found) =
       (case (signed_addresses two_lists s', src_rendezvous sample_sources) of
          (Some (a # l), _) \<Rightarrow> (Inr (), fset_of_list (a # l))
        | (Some [], Some _) \<Rightarrow> (Inr (), announced_servers ?i)
        | (Some [], None) \<Rightarrow> (Inr (), {||})
        | (None, Some _) \<Rightarrow>
            if announced_servers ?i \<noteq> {||} then (Inr (), announced_servers ?i)
            else (Inl (case ri_end ?i of StreamError e \<Rightarrow> e | StreamTimeout \<Rightarrow> Timeout | StreamEnded \<Rightarrow> NoServers), {|SocketAddrV4 7 7|})
        | (None, None) \<Rightarrow>
            (Inl (if src_list_key sample_sources = None then NoServers
                  else case ri_lookup ?i of Inl e \<Rightarrow> e | Inr _ \<Rightarrow> NoServers), {|SocketAddrV4 7 7|}))"
    using refresh_servers [OF r] by (elim conjE) assumption
  ultimately have "(result, found) = (Inr (), {|SocketAddrV4 16909060 443|})"
    by (auto dest: spec [of _ True])
  with r show ?thesis by auto
qed

text \<open>
  C31: the signed list never goes back. Over any rounds of the background refresh, whether they succeed or fail, whatever
  items the DHT returns and in whatever order: the list in use after a round is valid, is that of every earlier
  round or a newer one, and is not older than any valid item that arrived in the round.
\<close>

theorem signed_list_monotone:
  assumes "signed_ok x s" "rounds = refresh_rounds x src is s current"
  shows "sorted_wrt not_older (s # map (fst \<circ> snd) rounds) \<and>
    (\<forall>(result, s', found) \<in> set rounds. signed_ok x s') \<and>
    (\<forall>(i, (result, s', found)) \<in> set (zip is rounds). \<forall>item b. src_list_key src \<noteq> None \<and> ri_bootstrapped i = Inr b \<and>
       item \<in> set (ri_items i) \<and> mi_salt item = None \<and> mi_seq item \<ge> 0 \<and>
       server_list_decode x (mi_value item) (mi_key item) \<noteq> None \<longrightarrow>
       (\<exists>best. ds_signed s' = Some best \<and> (best = item \<or> \<not> newer item best)))"
  using assms
proof (induction "is" arbitrary: s current rounds)
  case (Cons i "is")
  obtain result s' found where r: "refresh x src i s current = (result, s', found)" by (metis prod_cases3)
  define rest where "rest = refresh_rounds x src is s' found"
  have rounds: "rounds = (result, s', found) # rest" using Cons.prems(2) r by (simp add: rest_def)
  let ?items = "case src_list_key src of None \<Rightarrow> [] | Some _ \<Rightarrow> ri_items i"
  have s': "signed_ok x s'" "not_older s s'"
    using refresh_state [OF r] accept_items_props(1) [of x s src ?items] accept_items_props(2) [of s x src ?items] Cons.prems(1)
    by (auto simp: not_older_def split: sum.splits)
  have newest: "\<exists>best. ds_signed s' = Some best \<and> (best = item \<or> \<not> newer item best)"
    if "src_list_key src \<noteq> None" "ri_bootstrapped i = Inr b" "item \<in> set (ri_items i)" "mi_salt item = None" "mi_seq item \<ge> 0"
      "server_list_decode x (mi_value item) (mi_key item) \<noteq> None" for item b
    using refresh_state [OF r] that accept_newest [of item x "ri_items i" s]
    by (auto simp: accept_items_def Let_def)
  note IH = Cons.IH [OF s'(1) rest_def]
  have "not_older s t" if "t \<in> set (map (fst \<circ> snd) rest)" for t
    using IH that not_older_trans [OF s'(2)] by auto
  with IH s' newest show ?case by (auto simp: rounds)
qed simp

text \<open>A list that was received stays in use when the next round receives nothing and fails.\<close>

lemma signed_list_monotone_witness:
  "map (ds_signed \<circ> fst \<circ> snd) (refresh_rounds two_lists sample_sources
       [sample_refresh\<lparr>ri_items := [sample_item 3 [1]]\<rparr>, sample_refresh\<lparr>ri_client := Inl Closed\<rparr>] \<lparr>ds_signed = None\<rparr> {||}) =
     [Some (sample_item 3 [1]), Some (sample_item 3 [1])]"
proof -
  let ?is = "[sample_refresh\<lparr>ri_items := [sample_item 3 [1]]\<rparr>, sample_refresh\<lparr>ri_client := Inl Closed\<rparr>]"
  obtain r1 s1 f1 where a: "refresh two_lists sample_sources (?is ! 0) \<lparr>ds_signed = None\<rparr> {||} = (r1, s1, f1)" by (metis prod_cases3)
  obtain r2 s2 f2 where b: "refresh two_lists sample_sources (?is ! 1) s1 f1 = (r2, s2, f2)" by (metis prod_cases3)
  have rounds: "[(r1, s1, f1), (r2, s2, f2)] = refresh_rounds two_lists sample_sources ?is \<lparr>ds_signed = None\<rparr> {||}"
    using a b by simp
  have s1: "ds_signed s1 = Some (sample_item 3 [1])"
    using refresh_state [OF a]
    by (simp add: sample_refresh_def sample_sources_def accept_items_def discovery_accept_def sample_item_def two_lists_decode)
  have "signed_ok two_lists \<lparr>ds_signed = None\<rparr>" by (simp add: signed_ok_def)
  from signed_list_monotone [OF this rounds] have "not_older s1 s2" by simp
  moreover have "s2 = s1"
    using refresh_state [OF b] s1 by (simp add: sample_refresh_def sample_sources_def accept_items_def)
  ultimately show ?thesis using s1 unfolding rounds [symmetric] by simp
qed

end
