(* ===== verification/End_To_End.thy ===== *)
theory End_To_End
  imports Server_Props Udp_Client_Correct Discovery
begin

text \<open>
  Client and server together: a datagram of the client reaches the server, its reply reaches the
  client. Publishing an endpoint and looking it up, across the wire format, the server's tokens and
  store, and the client's state machines.
\<close>

section \<open>One exchange\<close>

definition exchange :: "externals \<Rightarrow> clocks \<Rightarrow> socket_addr_v4 \<Rightarrow> socket_addr_v4 \<Rightarrow> bytes \<Rightarrow> actor \<Rightarrow> server \<Rightarrow>
    event list \<times> actor \<times> server" where
  "exchange x c srv client b a s =
     (case handle_packet x c b client s of
        (Reply out _, s') \<Rightarrow>
          (let (es, a') = client_handle_packet (serialize x) (deserialize x) out srv a in (es, a', s'))
      | (_, s') \<Rightarrow> ([], a, s'))"

lemma exchange_answer:
  assumes "server_env x vlen" "server_inv s" "packet_request x b = Some r"
    "fst (handle_request x c client r s) = Some resp"
  shows "exchange x c srv client b a s =
    (fst (handle_response (serialize x) srv resp a), snd (handle_response (serialize x) srv resp a),
     snd (handle_request x c client r s))"
proof -
  obtain d where d: "fst (handle_packet x c b client s) = Reply d client"
      "proto_decode (deserialize x) d = Some (Response (RespV1 resp))"
    using server_env.handle_packet_answers [OF assms] by blast
  have "snd (handle_packet x c b client s) = snd (handle_request x c client r s)"
    by (simp add: handle_packet_server assms(3) del: handle_request.simps)
  with d(1) have "handle_packet x c b client s = (Reply d client, snd (handle_request x c client r s))"
    by (metis prod.collapse)
  with d(2) show ?thesis
    by (simp add: exchange_def client_handle_packet_def case_prod_unfold Let_def
        del: handle_request.simps handle_response.simps)
qed

lemma request_sent:
  assumes "server_env x vlen" "proto_valid (Request (ReqV1 r))" "value_bounded (Request (ReqV1 r))"
  obtains b where "encode_request (serialize x) r = Some b" "packet_request x b = Some r"
proof -
  have codec: "proto_wire (serialize x) (deserialize x) vlen" using assms(1) by (rule server_env.codec)
  obtain b where b: "proto_encode (serialize x) (Request (ReqV1 r)) = Inr b"
    using proto_wire.encode_total [OF codec assms(2,3)] by blast
  then have "encode_request (serialize x) r = Some b" by (simp add: encode_request_def)
  moreover from encode_request_decode [OF codec assms(2) this] have "packet_request x b = Some r"
    by (simp add: packet_request_Some)
  ultimately show thesis by (rule that)
qed

section \<open>Publishing\<close>

lemma sorted_single [simp]: "sorted_list_of_fset {|x|} = [x]"
  by (simp add: sorted_list_of_fset.rep_eq)

lemma publish_sends:
  assumes "servers a = {|srv|}" "fmlookup (publishes a) tx = None"
    "encode_request ser (Prepare tx (replicate 24 0)) = Some b"
  shows "handle_message ser tx now (Publish v caller) a =
    ([Send b srv], a\<lparr>publishes := fmupd tx \<lparr>pp_value = v, too_large = False, pp_awaiting = {|srv|}, prepared = {||},
       stored = {||}, pp_response = caller, pp_deadline = now + timeout a\<rparr> (publishes a)\<rparr>)"
  using assms by (simp add: insert_publish_def send_all_def)

lemma prepared_puts:
  assumes "fmlookup (publishes a) tx = Some p" "srv |\<in>| pp_awaiting p" "srv |\<notin>| prepared p"
    "length (pp_value p addr) \<le> MAX_VALUE_LEN" "encode_request ser (Put tx token (pp_value p addr)) = Some b"
  shows "handle_response ser srv (Prepared tx addr token) a =
    ([Send b srv], a\<lparr>publishes := fmupd tx (p\<lparr>prepared := finsert srv (prepared p)\<rparr>) (publishes a)\<rparr>)"
  using assms by simp

lemma stored_finishes:
  assumes "fmlookup (publishes a) tx = Some p" "pp_awaiting p = {|srv|}" "stored p = {||}"
  shows "fst (handle_response ser srv (Stored tx addr) a) = [Published (pp_response p) (Inr [addr])]"
  using assms by (simp add: finish_publish_def)

lemma value_finishes:
  assumes "fmlookup (resolves a) tx = Some p" "pr_awaiting p = {|srv|}" "pr_values p = {||}" "pr_addr p = addr"
    "length v \<le> MAX_VALUE_LEN"
  shows "fst (handle_response ser srv (Value tx addr (Some v)) a) = [Resolved (pr_response p) (Inr [v])]"
  using assms by (simp add: finish_resolve_def Let_def)

lemma resolve_sends:
  assumes "servers a = {|srv|}" "fmlookup (resolves a) tx = None" "encode_request ser (Get tx addr) = Some b"
  shows "handle_message ser tx now (Resolve addr acc caller) a =
    ([Send b srv], a\<lparr>resolves := fmupd tx \<lparr>pr_addr = addr, pr_accept = acc, pr_awaiting = {|srv|}, pr_values = {||},
       responded = False, pr_response = caller, pr_deadline = now + timeout a\<rparr> (resolves a)\<rparr>)"
  using assms by (simp add: insert_resolve_def send_all_def)

lemma record_reads_back:
  assumes "postcard (re_ser e) (re_de e) (record_valid e)" "signs_correctly e" "record_valid e (record_sign e secret addr now)"
  shows "lookup_uncached e addr (Inr [publish_value e secret now addr]) = Inr [record_sign e secret addr now]"
  using assms postcard.de_ser_exact [OF assms(1,3)]
  by (simp add: lookup_uncached_def publish_value_def record_decode_def record_encode_def List.map_filter_simps
      record_verify_def record_sign_def record_addr_def signs_correctly_def Let_def)

section \<open>The server's side\<close>

text \<open>The three requests of a publication and a lookup, as the server sees them.\<close>

lemma server_prepares:
  assumes "fst (allow_request x (sa_ip pub) (inst c) (inst' c) s)" "server_inv s"
    "s1 = snd (handle_request x c pub (Prepare tx padding) s)"
  shows "fst (handle_request x c pub (Prepare tx padding) s) = Some (Prepared tx pub (issue_token x s pub (unix_now c)))"
    "sv_limits s1 = sv_limits s" "token_key s1 = token_key s" "sv_store s1 = sv_store s" "server_inv s1"
proof -
  show "fst (handle_request x c pub (Prepare tx padding) s) = Some (Prepared tx pub (issue_token x s pub (unix_now c)))"
    unfolding handle_prepare(2) using assms(1) by simp
  show "sv_limits s1 = sv_limits s" "token_key s1 = token_key s" "sv_store s1 = sv_store s"
    unfolding assms(3) by (simp_all add: handle_limits handle_prepare(1) del: handle_request.simps)
  show "server_inv s1" unfolding assms(3) using assms(2) by (rule handle_request_inv)
qed

lemma server_stores:
  assumes "verify_token x s1 pub token (unix_now c)" "fst (allow_request x (sa_ip pub) (inst c) (inst' c) s1)"
    "fst (put pub v (unix_now' c) (sv_limits s1) (sv_store s1)) = Inr ()" "server_inv s1"
    "s2 = snd (handle_request x c pub (Put tx token v) s1)"
  shows "fst (handle_request x c pub (Put tx token v) s1) = Some (Stored tx pub)" "server_inv s2"
    "t < saturating_add (unix_now' c) (value_ttl_secs (sv_limits s1)) \<Longrightarrow> fst (store_get pub t (sv_store s2)) = Some v"
proof -
  show "fst (handle_request x c pub (Put tx token v) s1) = Some (Stored tx pub)"
    unfolding handle_put(2) using assms(1-3) by simp
  show inv2: "server_inv s2" unfolding assms(5) using assms(4) by (rule handle_request_inv)
  obtain st' where p: "put pub v (unix_now' c) (sv_limits s1) (sv_store s1) = (Inr (), st')"
    using assms(3) by (metis prod.collapse)
  then have st2: "sv_store s2 = st'" unfolding assms(5) handle_put(1) using assms(1,2) by simp
  assume "t < saturating_add (unix_now' c) (value_ttl_secs (sv_limits s1))"
  then have "store_view (sv_store s2) t pub = Some v"
    using st.put_new [OF _ p] assms(4) st2 by (simp add: server_inv_def)
  then show "fst (store_get pub t (sv_store s2)) = Some v"
    using st.get_view inv2 by (simp add: server_inv_def)
qed

section \<open>The client's side\<close>

lemma publish_exchanges:
  assumes x: "server_env x vlen" and inv: "server_inv s" "server_inv s1"
    and client: "servers a = {|srv|}" "fmlookup (publishes a) tx = None"
    and v: "length (v pub) \<le> MAX_VALUE_LEN" "length token = 16"
    and prep: "fst (handle_request x c0 pub (Prepare tx (replicate 24 0)) s) = Some (Prepared tx pub token)"
      "s1 = snd (handle_request x c0 pub (Prepare tx (replicate 24 0)) s)"
    and put: "fst (handle_request x c1 pub (Put tx token (v pub)) s1) = Some (Stored tx pub)"
      "s2 = snd (handle_request x c1 pub (Put tx token (v pub)) s1)"
  shows "\<exists>b0 a1 b1 a2 a3. handle_message (serialize x) tx now (Publish v caller) a = ([Send b0 srv], a1) \<and>
    exchange x c0 srv pub b0 a1 s = ([Send b1 srv], a2, s1) \<and>
    exchange x c1 srv pub b1 a2 s1 = ([Published caller (Inr [pub])], a3, s2)"
proof -
  obtain b0 where b0: "encode_request (serialize x) (Prepare tx (replicate 24 0)) = Some b0"
      "packet_request x b0 = Some (Prepare tx (replicate 24 0))"
    by (rule request_sent [OF x, of "Prepare tx (replicate 24 0)"]) simp_all
  obtain b1 where b1: "encode_request (serialize x) (Put tx token (v pub)) = Some b1"
      "packet_request x b1 = Some (Put tx token (v pub))"
    by (rule request_sent [OF x, of "Put tx token (v pub)"]) (use v in \<open>simp_all add: MAX_VALUE_LEN_def\<close>)
  let ?p = "\<lparr>pp_value = v, too_large = False, pp_awaiting = {|srv|}, prepared = {||}, stored = {||},
      pp_response = caller, pp_deadline = now + timeout a\<rparr>"
  let ?a1 = "a\<lparr>publishes := fmupd tx ?p (publishes a)\<rparr>"
  let ?p2 = "?p\<lparr>prepared := finsert srv (prepared ?p)\<rparr>"
  let ?a2 = "?a1\<lparr>publishes := fmupd tx ?p2 (publishes ?a1)\<rparr>"
  have e0: "handle_message (serialize x) tx now (Publish v caller) a = ([Send b0 srv], ?a1)"
    by (rule publish_sends [OF client b0(1)])
  have "handle_response (serialize x) srv (Prepared tx pub token) ?a1 = ([Send b1 srv], ?a2)"
    by (rule prepared_puts) (use v(1) b1(1) in simp_all)
  then have e1: "exchange x c0 srv pub b0 ?a1 s = ([Send b1 srv], ?a2, s1)"
    using exchange_answer [OF x inv(1) b0(2) prep(1), of srv ?a1] prep(2) by (simp only: fst_conv snd_conv)
  have "fst (handle_response (serialize x) srv (Stored tx pub) ?a2) = [Published caller (Inr [pub])]"
    by (subst stored_finishes [where p = ?p2]) simp_all
  then have "exchange x c1 srv pub b1 ?a2 s1 =
      ([Published caller (Inr [pub])], snd (handle_response (serialize x) srv (Stored tx pub) ?a2), s2)"
    using exchange_answer [OF x inv(2) b1(2) put(1), of srv ?a2] put(2) by (simp only:)
  with e0 e1 show ?thesis by blast
qed

lemma resolve_exchange:
  assumes x: "server_env x vlen" and inv: "server_inv s"
    and client: "servers b = {|srv|}" "fmlookup (resolves b) tx = None"
    and v: "length v \<le> MAX_VALUE_LEN"
    and got: "fst (handle_request x c other (Get tx pub) s) = Some (Value tx pub (Some v))"
  shows "\<exists>b2 r1. handle_message (serialize x) tx now (Resolve pub acc caller) b = ([Send b2 srv], r1) \<and>
    fst (exchange x c srv other b2 r1 s) = [Resolved caller (Inr [v])]"
proof -
  obtain b2 where b2: "encode_request (serialize x) (Get tx pub) = Some b2" "packet_request x b2 = Some (Get tx pub)"
    by (rule request_sent [OF x, of "Get tx pub"]) simp_all
  let ?r = "\<lparr>pr_addr = pub, pr_accept = acc, pr_awaiting = {|srv|}, pr_values = {||},
      responded = False, pr_response = caller, pr_deadline = now + timeout b\<rparr>"
  let ?r1 = "b\<lparr>resolves := fmupd tx ?r (resolves b)\<rparr>"
  have "fst (handle_response (serialize x) srv (Value tx pub (Some v)) ?r1) = [Resolved caller (Inr [v])]"
    by (subst value_finishes [where p = ?r]) (use v in simp_all)
  then have "fst (exchange x c srv other b2 ?r1 s) = [Resolved caller (Inr [v])]"
    using exchange_answer [OF x inv b2(2) got, of srv ?r1] by (simp only: fst_conv)
  with resolve_sends [OF client b2(1)] show ?thesis by blast
qed

section \<open>Publishing and looking up\<close>

text \<open>
  C40. Publishing an endpoint makes it findable. A client with one server publishes its record: its
  \<open>Prepare\<close> is answered with a token, the \<open>Put\<close> that follows is stored, and the caller is told the
  socket the server saw. A second client that then looks up that socket, before the time to live is
  over, is answered with the published value, and the record it decodes from it is exactly the one
  the publisher signed for that socket. The requests are within the rate limits, the store has
  room, and the token is used within one period.
\<close>

theorem publish_then_lookup:
  assumes x: "server_env x vlen" and inv: "server_inv s"
    and codec: "postcard (re_ser e) (re_de e) (record_valid e)" "signs_correctly e"
    and val: "record_valid e (record_sign e secret pub t)" "length (publish_value e secret t pub) \<le> MAX_VALUE_LEN"
    and publisher: "servers a = {|srv|}" "fmlookup (publishes a) tx = None"
    and reader: "servers b = {|srv|}" "fmlookup (resolves b) tx' = None"
    and s1: "s1 = snd (handle_request x c0 pub (Prepare tx (replicate 24 0)) s)"
    and s2: "s2 = snd (handle_request x c1 pub
        (Put tx (issue_token x s pub (unix_now c0)) (publish_value e secret t pub)) s1)"
    and rate: "fst (allow_request x (sa_ip pub) (inst c0) (inst' c0) s)"
      "fst (allow_request x (sa_ip pub) (inst c1) (inst' c1) s1)"
      "fst (allow_request x (sa_ip other) (inst c2) (inst' c2) s2)"
    and room: "fst (put pub (publish_value e secret t pub) (unix_now' c1) (sv_limits s) (sv_store s)) = Inr ()"
    and fresh: "unix_now c0 \<le> unix_now c1"
      "unat (unix_now c1) - unat (unix_now c0) \<le> unat (token_bucket_secs (sv_limits s))"
    and alive: "unix_now' c2 < saturating_add (unix_now' c1) (value_ttl_secs (sv_limits s))"
  shows "\<exists>b0 a1 b1 a2 a3 b2 r1.
    handle_message (serialize x) tx now (Publish (publish_value e secret t) caller) a = ([Send b0 srv], a1) \<and>
    exchange x c0 srv pub b0 a1 s = ([Send b1 srv], a2, s1) \<and>
    exchange x c1 srv pub b1 a2 s1 = ([Published caller (Inr [pub])], a3, s2) \<and>
    handle_message (serialize x) tx' now' (Resolve pub (Some (lookup_accept e pub)) caller') b = ([Send b2 srv], r1) \<and>
    fst (exchange x c2 srv other b2 r1 s2) = [Resolved caller' (Inr [publish_value e secret t pub])] \<and>
    lookup_uncached e pub (Inr [publish_value e secret t pub]) = Inr [record_sign e secret pub t]"
proof -
  let ?v = "publish_value e secret t" and ?tok = "issue_token x s pub (unix_now c0)"
  note prep = server_prepares [OF rate(1) inv s1]
  have ok: "verify_token x s1 pub ?tok (unix_now c1)"
    by (rule server_env.verify_issued [OF x prep(2,3) fresh])
  have room1: "fst (put pub (?v pub) (unix_now' c1) (sv_limits s1) (sv_store s1)) = Inr ()"
    using room by (simp only: prep(2,4))
  note stored = server_stores [OF ok rate(2) room1 prep(5) s2]
  have got: "fst (handle_request x c2 other (Get tx' pub) s2) = Some (Value tx' pub (Some (?v pub)))"
    unfolding handle_get(2) using rate(3) stored(3) alive prep(2) by simp
  have tok: "length ?tok = 16" using server_env.length_token [OF x] by (simp add: issue_token_def)
  from publish_exchanges [where v = ?v, OF x inv prep(5) publisher val(2) tok prep(1) s1 stored(1) s2]
    resolve_exchange [OF x stored(2) reader val(2) got] record_reads_back [OF codec val(1)]
  show ?thesis by blast
qed

lemma rate_after_prepare:
  "sv_rate (snd (handle_request x c a (Prepare tx padding) s)) =
     sv_rate (snd (allow_request x (sa_ip a) (inst c) (inst' c) s))"
  by (simp add: Let_def case_prod_unfold count_def)

lemma sample_third_allowed:
  assumes "sv_rate s1 = sv_rate (snd (allow_request sample_ext ip 0 0 sample_server))" "sv_limits s1 = limits_default"
    "sv_rate s2 = sv_rate (snd (allow_request sample_ext ip' 0 0 s1))" "sv_limits s2 = limits_default"
  shows "fst (allow_request sample_ext ip'' 0 0 s2)"
  using assms
  by (simp add: allow_request_def allow_def bucket_allow_def take_token_def Let_def sample_ext_def
      sample_server_def server_new_def rate_limiters_default_def limits_default_def as_secs_f64_def
      bucket_index_def)

lemma sample_value_short: "length (publish_value sample_record_ext [5] 9 sample_addr) \<le> MAX_VALUE_LEN"
proof -
  have "length (enc_var 6881) = 2" "length (enc_var 9) = 1" by (simp_all add: enc_var.simps)
  then show ?thesis
    by (simp add: publish_value_def record_encode_def record_sign_def sample_record_ext_def sample_addr_def
        enc_record_def enc_payload_def enc_socket_def enc_u16_def enc_u64_def Let_def MAX_VALUE_LEN_def)
qed

lemma sample_room: "length v \<le> MAX_VALUE_LEN \<Longrightarrow> fst (put sample_addr v 100 limits_default store_new) = Inr ()"
  by (simp add: put_def gc.simps store_new_def ip_count_def limits_default_def)

theorem publish_then_lookup_witness:
  "\<exists>b2 r1 s2. handle_message proto_ser 2 0 (Resolve sample_addr (Some (lookup_accept sample_record_ext sample_addr)) 8)
       ((actor_new 5)\<lparr>servers := {|SocketAddrV4 7 7|}\<rparr>) = ([Send b2 (SocketAddrV4 7 7)], r1) \<and>
     fst (exchange sample_ext sample_clocks (SocketAddrV4 7 7) (SocketAddrV4 9 9) b2 r1 s2) =
       [Resolved 8 (Inr [publish_value sample_record_ext [5] 9 sample_addr])]"
proof -
  let ?v = "publish_value sample_record_ext [5] 9" and ?c = "(actor_new 5)\<lparr>servers := {|SocketAddrV4 7 7|}\<rparr>"
  define s1 where "s1 = snd (handle_request sample_ext sample_clocks sample_addr (Prepare 1 (replicate 24 0)) sample_server)"
  define s2 where "s2 = snd (handle_request sample_ext sample_clocks sample_addr
      (Put 1 (issue_token sample_ext sample_server sample_addr (unix_now sample_clocks)) (?v sample_addr)) s1)"
  have c: "inst sample_clocks = 0" "inst' sample_clocks = 0" "unix_now sample_clocks = 100" "unix_now' sample_clocks = 100"
    by (simp_all add: sample_clocks_def)
  have l: "sv_limits sample_server = limits_default" "sv_store sample_server = store_new"
    by (simp_all add: sample_server_def server_new_def)
  have lim: "sv_limits s1 = limits_default" "token_key s1 = token_key sample_server" "sv_limits s2 = limits_default"
    unfolding s1_def s2_def by (simp_all add: handle_limits l del: handle_request.simps)
  have ok: "verify_token sample_ext s1 sample_addr
      (issue_token sample_ext sample_server sample_addr (unix_now sample_clocks)) (unix_now sample_clocks)"
    by (rule sample.verify_issued) (simp_all add: lim l)
  have r1: "sv_rate s1 = sv_rate (snd (allow_request sample_ext (sa_ip sample_addr) 0 0 sample_server))"
    unfolding s1_def rate_after_prepare c ..
  have r2: "sv_rate s2 = sv_rate (snd (allow_request sample_ext (sa_ip sample_addr) 0 0 s1))"
    unfolding s2_def sample_rate_after_put using ok by (simp add: c)
  note rec = sample_record_codec(1,2) sample_record_codec(3) [of "[5]" sample_addr 9]
  have e: "serialize sample_ext = proto_ser" by (simp add: sample_ext_def)
  from publish_then_lookup [OF sample.server_env_axioms sample_inv rec sample_value_short, of ?c "SocketAddrV4 7 7" 1 ?c 2
      s1 sample_clocks s2 sample_clocks "SocketAddrV4 9 9" sample_clocks 0 7 0 8]
    sample_allows sample_second_allowed [OF r1 lim(1)] sample_third_allowed [OF r1 lim(1) r2 lim(3)]
    sample_room [OF sample_value_short] s1_def s2_def
  show ?thesis by (simp add: c l e actor_new_def limits_default_def saturating_add_def del: handle_message.simps handle_request.simps) blast
qed

end
