(* ===== verification/Publisher.thy ===== *)
theory Publisher
  imports Index_Keeper
begin

text \<open>
  The publisher, \<open>iroh-mainline-endpoint-discovery/src/publisher.rs\<close>: the registered infohashes,
  the main loop that starts and stops one announcement worker per infohash and reports when
  all of them are announced, the pacing of announcements, and the delay of a worker. The
  components run concurrently; a state machine interleaves them: callers, the keeper's
  turns, workers that finish an announcement, and the turns of the main loop.
\<close>

section \<open>Model\<close>

definition REFRESH :: duration where "REFRESH = secs (10 * 60)"
definition ANNOUNCE_SPACING :: duration where "ANNOUNCE_SPACING = millis 250"

type_synonym infohash = bytes

record publisher =
  p_entries :: "infohash fset"
  published :: "socket_addr_v4 option"
  p_keeper :: keeper
  p_failed :: "instant option"
  p_active :: bool
  workers :: "infohash fset"
  announced :: "infohash fset"
  done_queue :: "infohash list"

definition publisher_new :: publisher where
  "publisher_new = \<lparr>p_entries = {||}, published = None, p_keeper = keeper_default, p_failed = None,
     p_active = False, workers = {||}, announced = {||}, done_queue = []\<rparr>"

definition infohashes :: "publisher \<Rightarrow> infohash list" where
  "infohashes p = sorted_list_of_fset (p_entries p)"

definition add_infohash :: "infohash \<Rightarrow> publisher \<Rightarrow> bool \<times> publisher" where
  "add_infohash h p = (h |\<notin>| p_entries p, p\<lparr>p_entries := finsert h (p_entries p)\<rparr>)"

definition remove_infohash :: "infohash \<Rightarrow> publisher \<Rightarrow> bool \<times> publisher" where
  "remove_infohash h p = (h |\<in>| p_entries p, p\<lparr>p_entries := p_entries p |-| {|h|}\<rparr>)"

text \<open>One turn of the main loop, up to its \<open>select!\<close>.\<close>

definition publisher_turn :: "publisher \<Rightarrow> publisher" where
  "publisher_turn p =
     (let entries = fset_of_list (infohashes p);
          p = p\<lparr>p_active := entries \<noteq> {||}\<rparr>;
          p = p\<lparr>workers := ffilter (\<lambda>h. h |\<in>| entries) (workers p)\<rparr>;
          p = p\<lparr>announced := ffilter (\<lambda>h. h |\<in>| entries) (announced p)\<rparr>;
          p = p\<lparr>workers := workers p |\<union>| entries\<rparr>
      in if entries \<noteq> {||} \<and> entries |\<subseteq>| announced p
         then p\<lparr>published := mapping (p_keeper p)\<rparr> else p)"

text \<open>The branch of the \<open>select!\<close> that receives a finished announcement.\<close>

definition receive_done :: "publisher \<Rightarrow> publisher" where
  "receive_done p =
     (case done_queue p of [] \<Rightarrow> p
      | h # hs \<Rightarrow> p\<lparr>done_queue := hs, announced := finsert h (announced p)\<rparr>)"

text \<open>A worker's announcement: it sends the infohash to the main loop when it succeeded.\<close>

definition worker_announces :: "infohash \<Rightarrow> 'e + socket_addr_v4 option \<Rightarrow> 'e + unit \<Rightarrow> instant \<Rightarrow>
    publisher \<Rightarrow> bool option \<times> publisher" where
  "worker_announces h closest result now p =
     (let (pass, k) = announce_pass closest now (p_keeper p);
          p = p\<lparr>p_keeper := k\<rparr>
      in case pass of
           PassFailed e \<Rightarrow> (Some False, p)
         | AwaitRecord \<Rightarrow> (None, p)
         | Announce \<Rightarrow>
             (case result of
                Inl e \<Rightarrow> (Some False, p)
              | Inr _ \<Rightarrow> (Some True, p\<lparr>done_queue := done_queue p @ [h]\<rparr>)))"

text \<open>\<open>repeat_announcement\<close>: the delay after an announcement; \<open>random\<close> is drawn from 0 to 60.\<close>

definition repeat_delay :: "bool \<Rightarrow> nat \<Rightarrow> duration" where
  "repeat_delay ok random = (if ok then REFRESH - secs (random mod 61) else RETRY)"

text \<open>
  The pacing guard: a worker that holds it waits for the shared time \<open>next\<close>, starts at \<open>now\<close>
  (not before it) and moves the time on.
\<close>

definition pace :: "instant \<Rightarrow> instant \<Rightarrow> instant \<times> instant" where
  "pace now next = (let start = max now next in (start, start + ANNOUNCE_SPACING))"

fun paced :: "instant list \<Rightarrow> instant \<Rightarrow> instant list" where
  "paced [] next = []"
| "paced (now # ns) next = (let (start, next) = pace now next in start # paced ns next)"

definition publish_index :: "'e + socket_addr_v4 list \<Rightarrow> ('e + unit) + socket_addr_v4" where
  "publish_index stored =
     (case stored of
        Inl e \<Rightarrow> Inl (Inl e)
      | Inr [] \<Rightarrow> Inl (Inr ())
      | Inr (a # as) \<Rightarrow> Inr a)"

section \<open>The system\<close>

inductive publisher_step :: "publisher \<Rightarrow> publisher \<Rightarrow> bool" where
  add: "add_infohash h p = (b, p') \<Longrightarrow> publisher_step p p'"
| remove: "remove_infohash h p = (b, p') \<Longrightarrow> publisher_step p p'"
| keeper: "keeper_loop (p_active p) i (p_keeper p, p_failed p) = (attempt, wake, k, f) \<Longrightarrow>
    publisher_step p (p\<lparr>p_keeper := k, p_failed := f\<rparr>)"
| worker: "h |\<in>| workers p \<Longrightarrow> worker_announces h (closest :: unit + socket_addr_v4 option) result now p = (ok, p') \<Longrightarrow>
    publisher_step p p'"
| receive: "publisher_step p (receive_done p)"
| turn: "publisher_step p (publisher_turn p)"

inductive_cases publisher_stepE: "publisher_step p p'"

definition publisher_inv :: "publisher \<Rightarrow> bool" where
  "publisher_inv p \<longleftrightarrow>
     (announced p \<noteq> {||} \<or> done_queue p \<noteq> [] \<or> published p \<noteq> None \<longrightarrow> k_record (p_keeper p) \<noteq> None)"

lemma keeper_loop_record:
  assumes "keeper_loop act i (k, f) = (attempt, wake, k', f')" "k_record k \<noteq> None"
  shows "k_record k' \<noteq> None"
proof (cases act)
  case True
  with assms(1) have t: "keeper_turn i (k, f) = (attempt, wake, k', f')" by (simp add: keeper_loop_def)
  show ?thesis
  proof (cases "attempt \<and> ti_result i \<noteq> None")
    case True
    then show ?thesis using keeper_turn_cases(2) [OF t] by fastforce
  next
    case False
    then have "k_record k' = k_record k" using keeper_turn_cases(3,4) [OF t] by blast
    with assms(2) show ?thesis by simp
  qed
next
  case False
  with assms show ?thesis by (simp add: keeper_loop_def)
qed

lemma worker_fields:
  assumes "worker_announces h closest result now p = (ok, p')"
  shows "k_record (p_keeper p') = k_record (p_keeper p)" "published p' = published p"
    "announced p' = announced p"
    "done_queue p' \<noteq> done_queue p \<Longrightarrow> k_record (p_keeper p) \<noteq> None"
  using assms
  by (auto simp: worker_announces_def announce_pass_def Let_def is_live_def
      split: sum.splits if_splits option.splits)

lemma publisher_step_inv:
  assumes "publisher_step p p'" "publisher_inv p"
  shows "publisher_inv p'"
  using assms
proof cases
  case (keeper i attempt wake k f)
  then show ?thesis using assms(2) keeper_loop_record [OF keeper(2)] by (auto simp: publisher_inv_def)
next
  case (worker h closest result now ok)
  then show ?thesis using assms(2) worker_fields [OF worker(2)] unfolding publisher_inv_def by metis
qed (auto simp: publisher_inv_def add_infohash_def remove_infohash_def receive_done_def
    publisher_turn_def Let_def mapping_def split: list.splits if_splits)

lemma publisher_reach_inv: "publisher_step\<^sup>*\<^sup>* publisher_new p \<Longrightarrow> publisher_inv p"
proof (induction rule: rtranclp_induct)
  case base
  then show ?case by (simp add: publisher_new_def publisher_inv_def)
next
  case (step p q)
  then show ?case using publisher_step_inv by blast
qed

section \<open>Properties\<close>

text \<open>
  C23: \<open>wait_published\<close> means what it says. In every state the publisher can reach, a turn of the
  main loop that finds every registered infohash announced publishes a socket (never nothing),
  the one under which an index server stored the record; once a socket is published, no step
  takes it back; and a turn that runs while an infohash is not announced yet does not change it.
\<close>

theorem published_sound:
  assumes "publisher_step\<^sup>*\<^sup>* publisher_new p"
  shows "(p_entries p \<noteq> {||} \<and> p_entries p |\<subseteq>| announced p \<longrightarrow>
      (\<exists>r. k_record (p_keeper p) = Some r \<and> published (publisher_turn p) = Some (rec_mapping r))) \<and>
    (\<not> p_entries p |\<subseteq>| announced p \<longrightarrow> published (publisher_turn p) = published p) \<and>
    (\<forall>p'. publisher_step p p' \<and> published p \<noteq> None \<longrightarrow> published p' \<noteq> None)"
proof (intro conjI)
  have inv: "publisher_inv p" using assms by (rule publisher_reach_inv)
  have entries: "fset_of_list (infohashes p) = p_entries p"
    by (rule fset_eqI) (simp add: infohashes_def fset_of_list_elem)
  show "p_entries p \<noteq> {||} \<and> p_entries p |\<subseteq>| announced p \<longrightarrow>
      (\<exists>r. k_record (p_keeper p) = Some r \<and> published (publisher_turn p) = Some (rec_mapping r))"
    using inv by (auto simp: publisher_inv_def publisher_turn_def Let_def entries mapping_def)
  show "\<not> p_entries p |\<subseteq>| announced p \<longrightarrow> published (publisher_turn p) = published p"
    by (auto simp: publisher_turn_def Let_def entries)
  show "\<forall>p'. publisher_step p p' \<and> published p \<noteq> None \<longrightarrow> published p' \<noteq> None"
  proof (intro allI impI)
    fix p'
    assume *: "publisher_step p p' \<and> published p \<noteq> None"
    then have rec: "k_record (p_keeper p) \<noteq> None" using inv by (simp add: publisher_inv_def)
    from * have "publisher_step p p'" by simp
    then show "published p' \<noteq> None"
    proof cases
      case (worker h closest result now ok)
      then show ?thesis using * worker_fields(2) [OF worker(2)] by simp
    qed (use * rec in \<open>auto simp: add_infohash_def remove_infohash_def receive_done_def
        publisher_turn_def Let_def mapping_def split: list.splits\<close>)
  qed
qed

lemma published_sound_witness:
  "\<exists>p. publisher_step\<^sup>*\<^sup>* publisher_new p \<and> p_entries p = {|[1]|} \<and>
     published (publisher_turn p) = published p"
proof -
  define p where "p = publisher_new\<lparr>p_entries := {|[1]|}\<rparr>"
  have "add_infohash [1] publisher_new = (True, p)"
    by (simp add: add_infohash_def publisher_new_def p_def)
  then have reach: "publisher_step\<^sup>*\<^sup>* publisher_new p" using publisher_step.add by blast
  have "\<not> p_entries p |\<subseteq>| announced p" by (simp add: p_def publisher_new_def)
  with published_sound [OF reach] have "published (publisher_turn p) = published p" by blast
  with reach show ?thesis by (auto simp: p_def)
qed

text \<open>
  Announcements are paced: however many workers wait and whenever they come, two
  announcements start at least the configured spacing apart, and none starts before it came.
\<close>

theorem paced_spacing:
  "sorted_wrt (\<lambda>a b. a + ANNOUNCE_SPACING \<le> b) (paced ns next) \<and>
   list_all2 (\<le>) ns (paced ns next) \<and> list_all (\<lambda>s. next \<le> s) (paced ns next)"
proof (induction ns arbitrary: "next")
  case (Cons n ns)
  let ?s = "max n next" and ?n = "max n next + ANNOUNCE_SPACING"
  have IH: "sorted_wrt (\<lambda>a b. a + ANNOUNCE_SPACING \<le> b) (paced ns ?n)" "list_all2 (\<le>) ns (paced ns ?n)"
      "\<forall>s \<in> set (paced ns ?n). ?n \<le> s"
    using Cons [of ?n] by (simp_all add: list_all_iff)
  have "next \<le> s" if "s \<in> set (paced ns ?n)" for s
    using IH(3) that by (metis add_leD1 max.cobounded2 order_trans)
  with IH show ?case by (simp add: pace_def Let_def list_all_iff)
qed simp

end
