(* ===== verification/Pkarr.thy ===== *)
theory Pkarr
  imports Server_List Index_Keeper
begin

text \<open>
  Publishing Pkarr names, \<open>iroh-mainline-endpoint-discovery/src/pkarr.rs\<close>: signed packets in the
  layout of relays, the publisher's packets, generations and sequence numbers, and the test for
  hostnames that publisher and gateway share. Signatures, the DNS wire format and z-base-32 are
  parameters.
\<close>

section \<open>Signed packets\<close>

record signed_item = mutable_item +
  mi_signature :: bytes

definition encode_signed_packet :: "signed_item \<Rightarrow> bytes option" where
  "encode_signed_packet item =
     (if mi_salt item \<noteq> None then None
      else if mi_seq item < 0 then None
      else Some (mi_key item @ mi_signature item @ u64_be (of_int (mi_seq item)) @ mi_value item))"

text \<open>\<open>split_first_chunk\<close>: the first bytes and the rest, when there are enough.\<close>

definition split_chunk :: "nat \<Rightarrow> bytes \<Rightarrow> (bytes \<times> bytes) option" where
  "split_chunk n bs = (if length bs < n then None else Some (take n bs, drop n bs))"

definition bep44_signable :: "nat \<Rightarrow> bytes \<Rightarrow> bytes" where
  "bep44_signable sequence v =
     ascii (''3:seqi'' @ decimal sequence @ ''e1:v'' @ decimal (length v) @ '':'') @ v"

text \<open>\<open>verify key message signature\<close> fails for a key that is not a point of the curve as well.\<close>

definition decode_signed_packet :: "(bytes \<Rightarrow> bytes \<Rightarrow> bytes \<Rightarrow> bool) \<Rightarrow> bytes \<Rightarrow> signed_item option" where
  "decode_signed_packet verify bs =
     Option.bind (split_chunk 32 bs) (\<lambda>(key, rest).
     Option.bind (split_chunk 64 rest) (\<lambda>(signature, rest).
     Option.bind (split_chunk 8 rest) (\<lambda>(sequence, v).
       let n = unat (u64_from_be sequence)
       in if n \<ge> 2 ^ 63 then None
          else if \<not> verify key (bep44_signable n v) signature then None
          else Some \<lparr>mi_key = key, mi_seq = int n, mi_value = v, mi_salt = None, mi_signature = signature\<rparr>)))"

section \<open>Records\<close>

definition PKARR_REFRESH :: duration where "PKARR_REFRESH = secs (10 * 60)"
definition BLAKE3_DOMAIN :: string where "BLAKE3_DOMAIN = ''blake3.net''"
definition PKARR_TTL :: u32 where "PKARR_TTL = 300"

datatype svc_param = Mandatory | NoDefaultAlpn | Port u16 | OtherParam

record svcb =
  sv_priority :: u16
  sv_target :: string
  sv_params :: "svc_param list"

datatype pk_rdata = HTTPS svcb | OtherRdata

record pk_record =
  pk_name :: string
  pk_in :: bool
  pk_ttl :: u32
  pk_rdata :: pk_rdata

type_synonym pk_packet = "pk_record list"

text \<open>
  The DNS library: building and parsing packets, and names, which it accepts or not and prints
  back; and z-base-32.
\<close>

record pkarr_ext =
  px_build :: "pk_packet \<Rightarrow> bytes option"
  px_parse :: "bytes \<Rightarrow> pk_packet option"
  px_name_ok :: "string \<Rightarrow> bool"
  px_z32 :: "bytes \<Rightarrow> string"
  px_unz32 :: "string \<Rightarrow> bytes option"

definition pkarr_name :: "pkarr_ext \<Rightarrow> bytes \<Rightarrow> string" where
  "pkarr_name x key = px_z32 x key"

definition label_ok :: "string \<Rightarrow> bool" where
  "label_ok label \<longleftrightarrow> label \<noteq> [] \<and> length label \<le> 63 \<and> \<not> starts_with label ''-'' \<and> \<not> ends_with label ''-'' \<and>
     list_all (\<lambda>c. is_alphanumeric c \<or> c = CHR ''-'') label"

definition is_hostname :: "string \<Rightarrow> bool" where
  "is_hostname s =
     (let v = (case strip_suffix ''.'' s of None \<Rightarrow> s | Some v \<Rightarrow> v)
      in length v \<le> 253 \<and> CHR ''.'' \<in> set v \<and> list_all label_ok (split_on CHR ''.'' v))"

section \<open>The publisher\<close>

text \<open>
  Packets per public key, with the secret key that signs them; the number of edits and the newest
  one known to be published; and the last sequence number, an \<open>i64\<close>.
\<close>

record pkarr_entry =
  pke_key :: bytes
  pke_packet :: bytes

record pkarr_state =
  ps_packets :: "(bytes, pkarr_entry) fmap"
  ps_generation :: u64
  ps_published :: u64
  ps_previous :: int

definition pkarr_new :: pkarr_state where
  "pkarr_new = \<lparr>ps_packets = fmempty, ps_generation = 0, ps_published = 0, ps_previous = 0\<rparr>"

datatype set_error = NotHostname | BadName | BuildFailed | PacketTooLarge

definition edited :: "pkarr_state \<Rightarrow> pkarr_state" where
  "edited st = st\<lparr>ps_generation := ps_generation st + 1\<rparr>"

text \<open>\<open>public\<close> is the public key of a secret key.\<close>

definition set_raw :: "pkarr_ext \<Rightarrow> (bytes \<Rightarrow> bytes) \<Rightarrow> bytes \<Rightarrow> pk_packet \<Rightarrow> pkarr_state \<Rightarrow> (set_error + unit) \<times> pkarr_state" where
  "set_raw x public key packet st =
     (case px_build x packet of
        None \<Rightarrow> (Inl BuildFailed, st)
      | Some bs \<Rightarrow>
          if length bs > 1000 then (Inl PacketTooLarge, st)
          else (Inr (), edited (st\<lparr>ps_packets :=
                  fmupd (public key) \<lparr>pke_key = key, pke_packet = bs\<rparr> (ps_packets st)\<rparr>)))"

definition https_packet :: "pkarr_ext \<Rightarrow> bytes \<Rightarrow> string \<Rightarrow> string \<Rightarrow> pk_packet" where
  "https_packet x public_key name target =
     (let zone = pkarr_name x public_key;
          owner = (if name = [] \<or> name = ''@'' then zone else name @ ''.'' @ zone)
      in [\<lparr>pk_name = owner, pk_in = True, pk_ttl = PKARR_TTL,
           pk_rdata = HTTPS \<lparr>sv_priority = 0, sv_target = target, sv_params = []\<rparr>\<rparr>])"

definition set_https :: "pkarr_ext \<Rightarrow> (bytes \<Rightarrow> bytes) \<Rightarrow> bytes \<Rightarrow> string \<Rightarrow> string \<Rightarrow> pkarr_state \<Rightarrow>
    (set_error + unit) \<times> pkarr_state" where
  "set_https x public key name target st =
     (if \<not> is_hostname target then (Inl NotHostname, st)
      else
        (let packet = https_packet x (public key) name target
         in if \<not> px_name_ok x (pk_name (hd packet)) \<or> \<not> px_name_ok x target then (Inl BadName, st)
            else set_raw x public key packet st))"

definition set_blake3 :: "pkarr_ext \<Rightarrow> (bytes \<Rightarrow> bytes) \<Rightarrow> bytes \<Rightarrow> bytes \<Rightarrow> pkarr_state \<Rightarrow> (set_error + unit) \<times> pkarr_state" where
  "set_blake3 x public key hash st = set_https x public key [] (px_z32 x hash @ ''.'' @ BLAKE3_DOMAIN) st"

definition pkarr_remove :: "bytes \<Rightarrow> pkarr_state \<Rightarrow> bool \<times> pkarr_state" where
  "pkarr_remove public_key st =
     (if public_key |\<in>| fmdom (ps_packets st)
      then (True, edited (st\<lparr>ps_packets := fmdrop public_key (ps_packets st)\<rparr>))
      else (False, st))"

definition wait_published_done :: "u64 \<Rightarrow> pkarr_state \<Rightarrow> bool" where
  "wait_published_done generation st \<longleftrightarrow> \<not> ps_published st < generation"

text \<open>
  Signing: \<open>order\<close> is the order in which the hash map is iterated, \<open>now\<close> the clock in microseconds
  since the epoch, \<open>None\<close> when it is before it. The cast and the increment are those of \<open>i64\<close>.
\<close>

definition wrap_i64 :: "int \<Rightarrow> int" where
  "wrap_i64 i = (i + 2 ^ 63) mod 2 ^ 64 - 2 ^ 63"

definition sign_entry :: "(bytes \<Rightarrow> bytes) \<Rightarrow> int \<Rightarrow> pkarr_entry \<Rightarrow> mutable_item" where
  "sign_entry public sequence e =
     \<lparr>mi_key = public (pke_key e), mi_seq = sequence, mi_value = pke_packet e, mi_salt = None\<rparr>"

definition sign_all :: "(bytes \<Rightarrow> bytes) \<Rightarrow> bytes list \<Rightarrow> nat option \<Rightarrow> pkarr_state \<Rightarrow>
    mutable_item list option \<times> pkarr_state" where
  "sign_all public order now st =
     (case now of
        None \<Rightarrow> (None, st)
      | Some now \<Rightarrow>
          (let sequence = max (wrap_i64 (int now)) (wrap_i64 (ps_previous st + 1))
           in (Some (List.map_filter (\<lambda>k. map_option (sign_entry public sequence) (fmlookup (ps_packets st) k)) order),
               st\<lparr>ps_previous := sequence\<rparr>)))"

datatype 'e round_error = ClockError | PutError 'e

text \<open>The first failure, after every item was attempted.\<close>

fun put_all :: "(mutable_item \<Rightarrow> 'e option) \<Rightarrow> mutable_item list \<Rightarrow> 'e option \<Rightarrow> 'e option" where
  "put_all put_item [] result = result"
| "put_all put_item (item # items) result =
     put_all put_item items (case put_item item of
       None \<Rightarrow> result
     | Some e \<Rightarrow> if result = None then Some e else result)"

text \<open>
  A round. The lock is held throughout, but edits may happen between reading the generation (in
  \<open>st\<close>), signing (\<open>st_sign\<close>) and the end (\<open>st_end\<close>); the last two differ from the state before by edits.
\<close>

definition round_result :: "(mutable_item \<Rightarrow> 'e option) \<Rightarrow> mutable_item list option \<Rightarrow> ('e round_error) option" where
  "round_result put_item items =
     (case items of None \<Rightarrow> Some ClockError | Some items \<Rightarrow> map_option PutError (put_all put_item items None))"

definition round_end :: "u64 \<Rightarrow> ('e round_error) option \<Rightarrow> pkarr_state \<Rightarrow> pkarr_state" where
  "round_end generation result st = (if result = None then st\<lparr>ps_published := generation\<rparr> else st)"

definition publish_round :: "(bytes \<Rightarrow> bytes) \<Rightarrow> bytes list \<Rightarrow> nat option \<Rightarrow> (mutable_item \<Rightarrow> 'e option) \<Rightarrow>
    (pkarr_state \<Rightarrow> pkarr_state) \<Rightarrow> (pkarr_state \<Rightarrow> pkarr_state) \<Rightarrow> pkarr_state \<Rightarrow>
    ('e round_error) option \<times> pkarr_state" where
  "publish_round public order now put_item edits1 edits2 st =
     (let generation = ps_generation st;
          (items, st) = sign_all public order now (edits1 st);
          result = round_result put_item items
      in (result, round_end generation result (edits2 st)))"

definition run_delay :: "('e round_error) option \<Rightarrow> duration" where
  "run_delay result = (case result of None \<Rightarrow> PKARR_REFRESH | Some _ \<Rightarrow> RETRY)"

section \<open>Lemmas\<close>

lemma u64_from_int: "0 \<le> i \<Longrightarrow> i < 2 ^ 63 \<Longrightarrow> unat (of_int i :: u64) = nat i"
proof -
  assume "0 \<le> i" "i < 2 ^ 63"
  then have "(of_int i :: u64) = of_nat (nat i)" "nat i < 2 ^ 64" by auto
  then show ?thesis by (simp add: unat_of_nat)
qed

text \<open>Relays and publishers agree on the layout, in both directions.\<close>

lemma encode_decode_packet:
  assumes "length (mi_key item) = 32" "length (mi_signature item) = 64" "mi_salt item = None"
    "0 \<le> mi_seq item" "mi_seq item < 2 ^ 63"
    "verify (mi_key item) (bep44_signable (nat (mi_seq item)) (mi_value item)) (mi_signature item)"
  shows "\<exists>bs. encode_signed_packet item = Some bs \<and> decode_signed_packet verify bs = Some item"
  using assms
  by (cases item) (auto simp: encode_signed_packet_def decode_signed_packet_def split_chunk_def u64_from_int Let_def)

lemma decode_encode_packet:
  assumes "decode_signed_packet verify bs = Some item"
  shows "encode_signed_packet item = Some bs \<and>
    verify (mi_key item) (bep44_signable (nat (mi_seq item)) (mi_value item)) (mi_signature item)"
proof -
  define key rest where "key = take 32 bs" and "rest = drop 32 bs"
  define signature rest' where "signature = take 64 rest" and "rest' = drop 64 rest"
  define n where "n = unat (u64_from_be (take 8 rest'))"
  have len: "length bs \<ge> 32" "length rest \<ge> 64" "length rest' \<ge> 8" "n < 2 ^ 63"
    and ver: "verify key (bep44_signable n (drop 8 rest')) signature"
    and item: "item = \<lparr>mi_key = key, mi_seq = int n, mi_value = drop 8 rest', mi_salt = None, mi_signature = signature\<rparr>"
    using assms
    by (auto simp: decode_signed_packet_def split_chunk_def bind_eq_Some_conv key_def rest_def signature_def rest'_def
        n_def Let_def split: if_splits)
  have "u64_be (of_int (int n)) = take 8 rest'"
    using len(3) by (simp add: n_def u64_be_from_be)
  then have "key @ signature @ u64_be (of_int (int n)) @ drop 8 rest' = bs"
    using append_take_drop_id [of 8 rest'] append_take_drop_id [of 64 rest, folded signature_def rest'_def]
      append_take_drop_id [of 32 bs, folded key_def rest_def] by metis
  with item ver show ?thesis by (simp add: encode_signed_packet_def)
qed

text \<open>Sequence numbers grow from round to round, as long as they fit.\<close>

lemma sign_all_grows:
  assumes "sign_all public order (Some now) st = (items, st')" "0 \<le> ps_previous st" "ps_previous st + 1 < 2 ^ 63"
  shows "ps_previous st < ps_previous st'"
proof -
  have "wrap_i64 (ps_previous st + 1) = ps_previous st + 1"
    using assms(2,3) by (simp add: wrap_i64_def)
  with assms(1) show ?thesis by (auto simp: sign_all_def Let_def)
qed

end
