(* ===== verification/Ranges.thy ===== *)
theory Ranges
  imports Text
begin

text \<open>
  HTTP byte ranges, \<open>iroh-link-gateway/src/ranges.rs\<close>: parsing a \<open>Range\<close> header into ranges with
  an exclusive end, and merging them. The selection never asks for a byte the blob does not
  hold, asks for no byte twice, and covers exactly the bytes the parts name.
\<close>

section \<open>Model\<close>

type_synonym range = "u64 \<times> u64"

datatype selection = SelFull | SelPartial "range list" | Unsatisfiable

definition number :: "string \<Rightarrow> u64 option" where
  "number s = (if s = [] \<or> \<not> list_all is_digit s then None else parse_u64 s)"

definition single :: "string \<Rightarrow> u64 \<Rightarrow> selection" where
  "single v sz =
     (case split_once CHR ''-'' v of
        None \<Rightarrow> SelFull
      | Some (start, end') \<Rightarrow>
          if start = [] then
            (case number end' of
               None \<Rightarrow> SelFull
             | Some suffix \<Rightarrow>
                 if suffix = 0 \<or> sz = 0 then Unsatisfiable
                 else SelPartial [(saturating_sub sz suffix, sz)])
          else
            (case number start of
               None \<Rightarrow> SelFull
             | Some first \<Rightarrow>
                 let stop =
                   (if end' = [] then Some sz
                    else (case number end' of
                      None \<Rightarrow> None
                    | Some last' \<Rightarrow>
                        if last' < first then None else Some (min (saturating_add last' 1) sz)))
                 in case stop of
                      None \<Rightarrow> SelFull
                    | Some stop \<Rightarrow>
                        if first \<ge> sz then Unsatisfiable else SelPartial [(first, stop)]))"

text \<open>The merged ranges are kept in reverse: the head is the last one pushed.\<close>

fun merge_into :: "range list \<Rightarrow> range list \<Rightarrow> range list" where
  "merge_into merged [] = rev merged"
| "merge_into [] (r # rs) = merge_into [r] rs"
| "merge_into ((s, e) # merged) ((s', e') # rs) =
     (if s' \<le> e then merge_into ((s, max e e') # merged) rs
      else merge_into ((s', e') # (s, e) # merged) rs)"

definition merge_ranges :: "range list \<Rightarrow> range list" where
  "merge_ranges ranges = merge_into [] (sort_key (\<lambda>r. (fst r, snd r)) ranges)"

text \<open>The loop over the parts; \<open>None\<close> is its early return of the full content.\<close>

fun select_parts :: "nat \<Rightarrow> string list \<Rightarrow> u64 \<Rightarrow> range list \<Rightarrow> range list option" where
  "select_parts index [] sz ranges = Some ranges"
| "select_parts index (part # parts) sz ranges =
     (if index \<ge> 16 then None
      else case single (trim part) sz of
        SelFull \<Rightarrow> None
      | SelPartial rs \<Rightarrow> select_parts (index + 1) parts sz (ranges @ rs)
      | Unsatisfiable \<Rightarrow> select_parts (index + 1) parts sz ranges)"

definition select :: "string option \<Rightarrow> u64 \<Rightarrow> selection" where
  "select v sz =
     (case Option.bind v (strip_prefix ''bytes='') of
        None \<Rightarrow> SelFull
      | Some spec \<Rightarrow>
          (case select_parts 0 (split_on CHR '','' spec) sz [] of
             None \<Rightarrow> SelFull
           | Some ranges \<Rightarrow>
               if ranges = [] then Unsatisfiable else SelPartial (merge_ranges ranges)))"

section \<open>One range\<close>

lemma saturating_add_1_less: "first \<le> last' \<Longrightarrow> first < sz \<Longrightarrow> first < min (saturating_add last' 1) sz"
  for first last' sz :: u64
proof -
  assume *: "first \<le> last'" "first < sz"
  have "unat first < unat (saturating_add last' 1)"
  proof (cases "unat last' + 1 < 2 ^ 64")
    case True
    with * show ?thesis by (simp add: unat_saturating_add word_le_nat_alt)
  next
    case False
    have "unat first < unat sz" "unat sz < 2 ^ 64"
      using * unat_less [of sz] by (simp_all add: word_less_nat_alt)
    with False show ?thesis by (simp add: unat_saturating_add)
  qed
  with * show ?thesis by (simp add: word_less_nat_alt)
qed

lemma saturating_sub_less: "suffix \<noteq> 0 \<Longrightarrow> sz \<noteq> 0 \<Longrightarrow> saturating_sub sz suffix < sz"
  for suffix sz :: u64
  by (simp add: word_less_nat_alt unat_saturating_sub unat_gt_0)

lemma single_Partial:
  assumes "single v sz = SelPartial rs"
  obtains s e where "rs = [(s, e)]" "s < e" "e \<le> sz"
proof -
  obtain a b where ab: "split_once CHR ''-'' v = Some (a, b)"
    using assms by (auto simp: single_def split: option.splits)
  show ?thesis
  proof (cases "a = []")
    case True
    then obtain suffix where "number b = Some suffix" "suffix \<noteq> 0" "sz \<noteq> 0"
        "rs = [(saturating_sub sz suffix, sz)]"
      using assms ab by (auto simp: single_def split: option.splits if_splits)
    then show ?thesis using that saturating_sub_less by blast
  next
    case False
    then obtain first where f: "number a = Some first" "first < sz"
      using assms ab by (auto simp: single_def Let_def not_le split: option.splits if_splits)
    show ?thesis
    proof (cases "b = []")
      case True
      then show ?thesis using that [of first sz] assms ab False f by (auto simp: single_def split: if_splits)
    next
      case b: False
      then obtain last' where "number b = Some last'" "\<not> last' < first"
          "rs = [(first, min (saturating_add last' 1) sz)]"
        using assms ab False f by (auto simp: single_def split: option.splits if_splits)
      then show ?thesis
        using that [of first "min (saturating_add last' 1) sz"] saturating_add_1_less f(2) by simp
    qed
  qed
qed

section \<open>Merging\<close>

definition covers :: "range list \<Rightarrow> u64 \<Rightarrow> bool" where
  "covers rs b \<longleftrightarrow> (\<exists>r \<in> set rs. fst r \<le> b \<and> b < snd r)"

definition proper :: "u64 \<Rightarrow> range list \<Rightarrow> bool" where
  "proper sz rs \<longleftrightarrow> (\<forall>r \<in> set rs. fst r < snd r \<and> snd r \<le> sz)"

text \<open>Ascending with gaps: each range ends before the next one starts.\<close>

definition separated :: "range list \<Rightarrow> bool" where
  "separated rs \<longleftrightarrow> sorted_wrt (\<lambda>r r'. snd r < fst r') rs"

definition total :: "range list \<Rightarrow> nat" where
  "total rs = (\<Sum>r \<leftarrow> rs. unat (snd r) - unat (fst r))"

lemma covers_simps:
  "covers [] b = False" "covers (r # rs) b \<longleftrightarrow> fst r \<le> b \<and> b < snd r \<or> covers rs b"
  "covers (rs @ rs') b \<longleftrightarrow> covers rs b \<or> covers rs' b" "covers (rev rs) b = covers rs b"
  by (auto simp: covers_def)

lemma proper_simps:
  "proper sz []" "proper sz (r # rs) \<longleftrightarrow> fst r < snd r \<and> snd r \<le> sz \<and> proper sz rs"
  "proper sz (rs @ rs') \<longleftrightarrow> proper sz rs \<and> proper sz rs'" "proper sz (rev rs) = proper sz rs"
  by (auto simp: proper_def)

text \<open>The start of the last merged range is not after the starts still to come.\<close>

definition before :: "range list \<Rightarrow> range list \<Rightarrow> bool" where
  "before m rs \<longleftrightarrow> sorted (map fst rs) \<and> (\<forall>r \<in> set rs. m = [] \<or> fst (hd m) \<le> fst r)"

lemma before_first: "before [] (r # rs) \<Longrightarrow> before [r] rs"
  by (auto simp: before_def)

lemma before_merge:
  assumes "before ((s, e) # m) ((s', e') # rs)"
  shows "before ((s, max e e') # m) rs" "before ((s', e') # (s, e) # m) rs" "s \<le> s'"
  using assms by (auto simp: before_def)

lemma merge_into_covers: "before m rs \<Longrightarrow> covers (merge_into m rs) b \<longleftrightarrow> covers (m @ rs) b"
proof (induction m rs rule: merge_into.induct)
  case (3 s e m s' e' rs)
  note IH = before_merge(1,2) [OF "3.prems"] and le = before_merge(3) [OF "3.prems"]
  show ?case
  proof (cases "s' \<le> e")
    case True
    have "s \<le> b \<and> b < max e e' \<longleftrightarrow> s \<le> b \<and> b < e \<or> s' \<le> b \<and> b < e'"
      using True le by (auto simp: less_max_iff_disj)
    with 3 True IH show ?thesis by (auto simp: covers_simps)
  next
    case False
    with 3 IH show ?thesis by (auto simp: covers_simps)
  qed
qed (simp_all add: covers_simps before_first)

lemma merge_into_proper: "proper sz (m @ rs) \<Longrightarrow> before m rs \<Longrightarrow> proper sz (merge_into m rs)"
proof (induction m rs rule: merge_into.induct)
  case (3 s e m s' e' rs)
  from before_merge [OF "3.prems"(2)] 3 show ?case
    by (simp add: proper_simps less_max_iff_disj)
qed (simp_all add: proper_simps before_first)

lemma merge_into_separated:
  "separated (rev m) \<Longrightarrow> before m rs \<Longrightarrow> \<forall>r \<in> set (m @ rs). fst r < snd r \<Longrightarrow> separated (merge_into m rs)"
proof (induction m rs rule: merge_into.induct)
  case (2 r rs)
  then show ?case by (simp add: separated_def before_first)
next
  case (3 s e m s' e' rs)
  note before = before_merge(1,2) [OF "3.prems"(2)] and le = before_merge(3) [OF "3.prems"(2)]
  have prev: "sorted_wrt (\<lambda>r r'. snd r < fst r') (rev m)" "\<forall>r \<in> set m. snd r < s"
    using "3.prems"(1) by (auto simp: separated_def sorted_wrt_append)
  show ?case
  proof (cases "s' \<le> e")
    case True
    then show ?thesis using 3 before prev by (auto simp: separated_def sorted_wrt_append less_max_iff_disj)
  next
    case False
    then have "\<forall>r \<in> set m. snd r < s'" using prev(2) le by (meson less_le_trans)
    with False show ?thesis using 3 before prev by (auto simp: separated_def sorted_wrt_append)
  qed
qed simp

lemma before_sort: "before [] (sort_key (\<lambda>r. (fst r, snd r)) rs)"
proof -
  have "sorted (map (\<lambda>r. (fst r, snd r)) (sort_key (\<lambda>r. (fst r, snd r)) rs))" by (rule sorted_sort_key)
  then show ?thesis
    unfolding before_def sorted_map by (auto elim!: sorted_wrt_mono_rel [rotated] simp: less_eq_prod_def)
qed

lemma merge_ranges_props:
  assumes "proper sz rs"
  shows "covers (merge_ranges rs) b \<longleftrightarrow> covers rs b" "proper sz (merge_ranges rs)"
    "separated (merge_ranges rs)"
  using assms before_sort [of rs]
    merge_into_covers [OF before_sort, of rs b] merge_into_proper [OF _ before_sort, of sz rs]
    merge_into_separated [OF _ before_sort, of rs]
  by (auto simp: merge_ranges_def covers_def proper_def separated_def)

text \<open>Ranges with gaps between them hold no more bytes than their extent.\<close>

lemma separated_total:
  "separated rs \<Longrightarrow> proper sz rs \<Longrightarrow> \<forall>r \<in> set rs. k \<le> fst r \<Longrightarrow> k \<le> sz \<Longrightarrow> total rs + unat k \<le> unat sz"
proof (induction rs arbitrary: k)
  case (Cons r rs)
  from Cons.prems have r: "k \<le> fst r" "fst r < snd r" "snd r \<le> sz" by (auto simp: proper_def)
  have "total rs + unat (snd r) \<le> unat sz"
    using Cons.prems r by (intro Cons.IH) (auto simp: separated_def proper_def intro: less_imp_le)
  with r show ?case by (auto simp: total_def word_le_nat_alt word_less_nat_alt)
qed (simp add: total_def word_le_nat_alt)

section \<open>Selecting\<close>

definition part_ranges :: "u64 \<Rightarrow> string \<Rightarrow> range list" where
  "part_ranges sz part = (case single (trim part) sz of SelPartial rs \<Rightarrow> rs | _ \<Rightarrow> [])"

lemma part_ranges_proper: "proper sz (part_ranges sz part)"
  by (auto simp: part_ranges_def proper_simps split: selection.split elim!: single_Partial)

lemma select_parts_Some:
  "select_parts i parts sz ranges = Some out \<Longrightarrow> out = ranges @ concat (map (part_ranges sz) parts)"
  by (induction i parts sz ranges rule: select_parts.induct)
    (auto simp: part_ranges_def split: selection.splits if_splits)

lemma proper_concat: "(\<And>p. proper sz (f p)) \<Longrightarrow> proper sz (concat (map f ps))"
  by (induction ps) (auto simp: proper_simps)

lemma covers_concat: "covers (concat (map f ps)) b \<longleftrightarrow> (\<exists>p \<in> set ps. covers (f p) b)"
  by (auto simp: covers_def)

lemma covers_ne: "covers rs b \<Longrightarrow> rs \<noteq> []"
  by (auto simp: covers_def)

lemma proper_covers: "proper sz rs \<Longrightarrow> rs \<noteq> [] \<Longrightarrow> \<exists>b. covers rs b"
  by (cases rs) (auto simp: proper_simps covers_simps intro!: exI [of _ "fst (hd rs)"])

lemma select_proper:
  assumes "select v sz = SelPartial rs"
  shows "rs \<noteq> [] \<and> proper sz rs"
proof -
  obtain spec parts where "select_parts 0 spec sz [] = Some parts" and p: "rs = merge_ranges parts" "parts \<noteq> []"
    using assms by (auto simp: select_def split: option.splits if_splits)
  then have "proper sz parts"
    using select_parts_Some [of 0 spec sz "[]" parts] by (simp add: proper_concat part_ranges_proper)
  with p have "covers rs b \<longleftrightarrow> covers parts b" for b using merge_ranges_props(1) by simp
  with p \<open>proper sz parts\<close> show ?thesis using merge_ranges_props(2) proper_covers covers_ne by blast
qed

lemma digits_no_dash: "CHR ''-'' \<notin> set (decimal n)" "CHR '','' \<notin> set (decimal n)"
proof -
  have "\<not> is_digit CHR ''-''" "\<not> is_digit CHR '',''" by (simp_all add: is_digit_def)
  then show "CHR ''-'' \<notin> set (decimal n)" "CHR '','' \<notin> set (decimal n)" using decimal_digits by blast+
qed

lemma digits_no_space: "c \<in> set (decimal n) \<Longrightarrow> \<not> is_space c"
  using decimal_digits [of c n] by (auto simp: is_digit_def is_space_def)

lemma number_decimal: "number (decimal (unat w)) = Some w"
  using decimal_digits [of _ "unat w"] by (simp add: number_def parse_decimal list_all_iff)

lemma bytes_prefix:
  "strip_prefix ''bytes='' (CHR ''b'' # CHR ''y'' # CHR ''t'' # CHR ''e'' # CHR ''s'' # CHR ''='' # spec) = Some spec"
  using strip_prefix_append [of "''bytes=''" spec] by simp

text \<open>A header with one part, without spaces.\<close>

lemma select_one:
  assumes "CHR '','' \<notin> set spec" "\<forall>c \<in> set spec. \<not> is_space c"
  shows "select (Some (''bytes='' @ spec)) sz = single spec sz"
proof -
  have "trim spec = spec" using assms(2) by (rule trim_id)
  then show ?thesis
    using assms(1)
    by (cases "single spec sz")
      (auto simp: select_def bytes_prefix split_on_single merge_ranges_def elim!: single_Partial)
qed

lemma select_first_last:
  "first \<le> last' \<Longrightarrow>
     select (Some (''bytes='' @ decimal (unat first) @ ''-'' @ decimal (unat last'))) sz =
       (if first < sz then SelPartial [(first, min (saturating_add last' 1) sz)] else Unsatisfiable)"
  by (subst select_one)
    (auto simp: digits_no_dash digits_no_space is_space_def [of "CHR ''-''"] single_def
      split_once_append number_decimal not_less)

section \<open>Properties\<close>

text \<open>
  C25: a partial selection names only bytes the blob holds, in ascending ranges with gaps, so no
  byte is sent twice and the total is at most the size; and it covers exactly the bytes that
  the satisfiable parts of the header name.
\<close>

theorem select_sound:
  assumes "select v sz = SelPartial rs"
  shows "\<exists>spec. v = Some (''bytes='' @ spec) \<and> rs \<noteq> [] \<and> proper sz rs \<and> separated rs \<and>
    total rs \<le> unat sz \<and>
    (\<forall>b. covers rs b \<longleftrightarrow> (\<exists>part \<in> set (split_on CHR '','' spec). covers (part_ranges sz part) b))"
proof -
  obtain spec ranges where spec: "v = Some (''bytes='' @ spec)"
      and ranges: "select_parts 0 (split_on CHR '','' spec) sz [] = Some ranges"
      and rs: "ranges \<noteq> []" "rs = merge_ranges ranges"
    using assms
    by (auto simp: select_def strip_prefix_Some split: option.splits if_splits Option.bind_splits)
  have parts: "ranges = concat (map (part_ranges sz) (split_on CHR '','' spec))"
    using select_parts_Some [OF ranges] by simp
  then have proper: "proper sz ranges" by (simp add: proper_concat part_ranges_proper)
  note m = merge_ranges_props [OF proper, folded rs(2)]
  have "rs \<noteq> []" using proper_covers [OF proper rs(1)] m(1) covers_ne by blast
  moreover have "total rs + unat (0 :: u64) \<le> unat sz"
    by (rule separated_total [OF m(3,2)]) simp_all
  ultimately show ?thesis
    using m spec parts by (auto simp: covers_concat)
qed

lemma select_sound_witness:
  "\<exists>rs. select (Some (''bytes='' @ decimal (unat (2 :: u64)) @ ''-'' @ decimal (unat (5 :: u64)))) 4 =
      SelPartial rs \<and> proper 4 rs \<and> total rs \<le> 4"
proof -
  have "select (Some (''bytes='' @ decimal (unat (2 :: u64)) @ ''-'' @ decimal (unat (5 :: u64)))) 4 =
      SelPartial [(2, 4)]"
    by (subst select_first_last) (simp_all add: saturating_add_def)
  from select_sound [OF this] this show ?thesis by auto
qed

text \<open>
  The three forms of a byte range. For every first and last position, suffix length and
  size, the header written with decimal numbers selects the bytes from the first to the last
  (or to the end), clamped to the size, and the suffix form the last bytes; a first position
  past the end and an empty suffix are unsatisfiable.
\<close>

theorem select_forms:
  "(first \<le> last' \<longrightarrow> select (Some (''bytes='' @ decimal (unat first) @ ''-'' @ decimal (unat last'))) sz =
       (if first < sz then SelPartial [(first, min (saturating_add last' 1) sz)] else Unsatisfiable)) \<and>
   select (Some (''bytes='' @ decimal (unat first) @ ''-'')) sz =
     (if first < sz then SelPartial [(first, sz)] else Unsatisfiable) \<and>
   select (Some (''bytes=-'' @ decimal (unat suffix))) sz =
     (if suffix = 0 \<or> sz = 0 then Unsatisfiable else SelPartial [(saturating_sub sz suffix, sz)])"
proof (intro conjI impI)
  show "select (Some (''bytes='' @ decimal (unat first) @ ''-'' @ decimal (unat last'))) sz =
      (if first < sz then SelPartial [(first, min (saturating_add last' 1) sz)] else Unsatisfiable)"
    if "first \<le> last'"
    using that by (rule select_first_last)
  show "select (Some (''bytes='' @ decimal (unat first) @ ''-'')) sz =
      (if first < sz then SelPartial [(first, sz)] else Unsatisfiable)"
    by (subst select_one)
      (auto simp: digits_no_dash digits_no_space is_space_def [of "CHR ''-''"] single_def
        split_once_append number_decimal not_less)
  have "select (Some (''bytes='' @ ''-'' @ decimal (unat suffix))) sz =
      (if suffix = 0 \<or> sz = 0 then Unsatisfiable else SelPartial [(saturating_sub sz suffix, sz)])"
    by (subst select_one)
      (auto simp: digits_no_dash digits_no_space is_space_def [of "CHR ''-''"] single_def number_decimal)
  then show "select (Some (''bytes=-'' @ decimal (unat suffix))) sz =
      (if suffix = 0 \<or> sz = 0 then Unsatisfiable else SelPartial [(saturating_sub sz suffix, sz)])"
    by simp
qed

lemma select_forms_witness:
  "select (Some (''bytes='' @ decimal (unat (2 :: u64)) @ ''-'' @ decimal (unat (5 :: u64)))) 4 =
     SelPartial [(2, 4)]"
proof -
  have "(2 :: u64) \<le> 5" "(2 :: u64) < 4" by simp_all
  with select_forms [of 2 5 4 0] show ?thesis by (simp add: saturating_add_def)
qed

end
