(* ===== verification/Gateway_Text.thy ===== *)
theory Gateway_Text
  imports Text
begin

text \<open>
  The text the gateway builds into responses, \<open>iroh-link-gateway/src/lib.rs\<close>: HTML escaping, links
  into a collection, query flags, download names, content types and sizes. Percent-encoding is
  a library outside the repository: it enters as a function \<open>pct\<close> of the set of characters to
  encode and the string, with what the gateway relies on in the locale \<open>percent_encoding\<close>.
\<close>

section \<open>HTML\<close>

fun escape_char :: "char \<Rightarrow> string" where
  "escape_char c =
     (if c = CHR ''&'' then ''&amp;''
      else if c = CHR ''<'' then ''&lt;''
      else if c = CHR ''>'' then ''&gt;''
      else if c = CHR 0x22 then ''&quot;''
      else if c = CHR 0x27 then ''&#39;''
      else [c])"

definition html_escape :: "string \<Rightarrow> string" where
  "html_escape s = concat (map escape_char s)"

section \<open>Percent-encoding\<close>

definition is_control :: "char \<Rightarrow> bool" where
  "is_control c \<longleftrightarrow> of_char c < (32::nat) \<or> of_char c = (127::nat)"

definition is_non_ascii :: "char \<Rightarrow> bool" where
  "is_non_ascii c \<longleftrightarrow> of_char c \<ge> (128::nat)"

definition PATH_SEGMENT :: "char \<Rightarrow> bool" where
  "PATH_SEGMENT c \<longleftrightarrow> is_control c \<or>
     c \<in> {CHR '' '', CHR ''%'', CHR ''#'', CHR ''?'', CHR ''/'', CHR 0x5C, CHR ''<'', CHR ''>'',
          CHR 0x22, CHR 0x27, CHR ''&''}"

definition ATTR_CHAR :: "char \<Rightarrow> bool" where
  "ATTR_CHAR c \<longleftrightarrow> \<not> is_alphanumeric c \<and>
     c \<notin> {CHR ''!'', CHR ''#'', CHR ''$'', CHR ''&'', CHR ''+'', CHR ''-'', CHR ''.'', CHR ''^'',
          CHR ''_'', CHR 0x60, CHR ''|'', CHR ''~''}"

text \<open>
  \<open>utf8_percent_encode\<close>: a byte in the set, or outside ASCII, becomes a percent sign and two
  upper-case hexadecimal digits; other bytes stay.
\<close>

definition is_hex :: "char \<Rightarrow> bool" where
  "is_hex c \<longleftrightarrow> is_digit c \<or> (65::nat) \<le> of_char c \<and> of_char c \<le> (70::nat)"

locale percent_encoding =
  fixes pct :: "(char \<Rightarrow> bool) \<Rightarrow> string \<Rightarrow> string"
  assumes pct_chars: "c \<in> set (pct S s) \<Longrightarrow>
      c = CHR ''%'' \<or> is_hex c \<or> c \<in> set s \<and> \<not> S c \<and> \<not> is_non_ascii c"
    and pct_empty: "pct S s = [] \<longleftrightarrow> s = []"

definition hex_digit :: "nat \<Rightarrow> char" where
  "hex_digit n = (if n < 10 then char_of (48 + n) else char_of (55 + n))"

definition pct_reference :: "(char \<Rightarrow> bool) \<Rightarrow> string \<Rightarrow> string" where
  "pct_reference S s = concat (map (\<lambda>c.
     if S c \<or> is_non_ascii c then [CHR ''%'', hex_digit (of_char c div 16), hex_digit (of_char c mod 16)] else [c]) s)"

lemma hex_digit_hex: "n < 16 \<Longrightarrow> is_hex (hex_digit n)"
  by (auto simp: hex_digit_def is_hex_def is_digit_def)

interpretation reference: percent_encoding pct_reference
proof
  have lt: "of_char c < (256 :: nat)" for c :: char by (rule nat_of_char_less_256)
  have hex: "is_hex (hex_digit (of_char c div 16))" "is_hex (hex_digit (of_char c mod 16))" for c :: char
    using lt [of c] by (auto intro!: hex_digit_hex less_mult_imp_div_less)
  fix c S s
  show "c \<in> set (pct_reference S s) \<Longrightarrow> c = CHR ''%'' \<or> is_hex c \<or> c \<in> set s \<and> \<not> S c \<and> \<not> is_non_ascii c"
    using hex by (auto simp: pct_reference_def split: if_splits)
  show "pct_reference S s = [] \<longleftrightarrow> s = []"
    by (cases s) (auto simp: pct_reference_def)
qed

section \<open>Links\<close>

datatype caching = Immutable | Revalidate

fun caching_header :: "caching \<Rightarrow> string" where
  "caching_header Immutable = ''public, max-age=31536000, immutable''"
| "caching_header Revalidate = ''public, no-cache''"

fun redirect_status :: "caching \<Rightarrow> nat" where
  "redirect_status Immutable = 301"
| "redirect_status Revalidate = 302"

record root =
  rt_encoded :: string
  rt_base :: string
  rt_caching :: caching

definition root_new :: "string \<Rightarrow> bool \<Rightarrow> root" where
  "root_new encoded subdomain =
     \<lparr>rt_encoded = encoded, rt_base = (if subdomain then [] else ''/blake3/'' @ encoded), rt_caching = Immutable\<rparr>"

definition root_at :: "string \<Rightarrow> string \<Rightarrow> caching \<Rightarrow> root" where
  "root_at encoded base c = \<lparr>rt_encoded = encoded, rt_base = base, rt_caching = c\<rparr>"

fun join :: "string \<Rightarrow> string list \<Rightarrow> string" where
  "join sep [] = []"
| "join sep [s] = s"
| "join sep (s # t # ss) = s @ sep @ join sep (t # ss)"

definition link :: "((char \<Rightarrow> bool) \<Rightarrow> string \<Rightarrow> string) \<Rightarrow> root \<Rightarrow> string \<Rightarrow> string" where
  "link pct r path =
     (let path = join ''/'' (map (pct PATH_SEGMENT) (split_on CHR ''/'' path));
          link = rt_base r @ ''/'' @ path
      in if starts_with link ''//'' then ''/.'' @ link else link)"

section \<open>Queries and headers\<close>

definition has_flag :: "string option \<Rightarrow> string \<Rightarrow> bool" where
  "has_flag query name \<longleftrightarrow>
     (case query of None \<Rightarrow> False
      | Some q \<Rightarrow> list_ex (\<lambda>pair. case strip_prefix name pair of None \<Rightarrow> False
          | Some rest \<Rightarrow> rest = [] \<or> starts_with rest ''='') (split_on CHR ''&'' q))"

definition str_contains :: "string \<Rightarrow> string \<Rightarrow> bool" where
  "str_contains s p \<longleftrightarrow> (\<exists>i \<le> length s. starts_with (drop i s) p)"

definition with_charset :: "string \<Rightarrow> bytes \<Rightarrow> string" where
  "with_charset mime prefix =
     (if \<not> starts_with mime ''text/'' \<or> str_contains mime ''charset='' then mime
      else
        (let charset =
           (if starts_with prefix [0xff, 0xfe] then ''utf-16le''
            else if starts_with prefix [0xfe, 0xff] then ''utf-16be'' else ''utf-8'')
         in mime @ ''; charset='' @ charset))"

definition attachment_char :: "char \<Rightarrow> char" where
  "attachment_char c =
     (if is_alphanumeric c \<or> c \<in> {CHR ''.'', CHR ''-'', CHR ''_'', CHR '' ''} then c else CHR ''_'')"

text \<open>
  The plain name replaces every other character. A character outside ASCII is a leading byte,
  which is replaced, and continuation bytes, which go with it.
\<close>

definition is_continuation :: "char \<Rightarrow> bool" where
  "is_continuation c \<longleftrightarrow> (128::nat) \<le> of_char c \<and> of_char c < (192::nat)"

definition attachment :: "((char \<Rightarrow> bool) \<Rightarrow> string \<Rightarrow> string) \<Rightarrow> string \<Rightarrow> string" where
  "attachment pct filename =
     ''attachment; filename='' @ [CHR 0x22] @ map attachment_char (filter (\<lambda>c. \<not> is_continuation c) filename) @ [CHR 0x22] @
     ''; filename*=UTF-8'' @ [CHR 0x27, CHR 0x27] @ pct ATTR_CHAR filename"

section \<open>Lemmas\<close>

text \<open>What a browser reads back: the five references the escaping writes.\<close>

definition html_refs :: "(string \<times> char) list" where
  "html_refs = [(''&amp;'', CHR ''&''), (''&lt;'', CHR ''<''), (''&gt;'', CHR ''>''),
     (''&quot;'', CHR 0x22), (''&#39;'', CHR 0x27)]"

fun read_ref :: "(string \<times> char) list \<Rightarrow> string \<Rightarrow> (char \<times> string) option" where
  "read_ref [] s = None"
| "read_ref ((r, c) # refs) s =
     (case strip_prefix r s of Some rest \<Rightarrow> Some (c, rest) | None \<Rightarrow> read_ref refs s)"

lemma read_ref_shorter: "read_ref refs s = Some (c, rest) \<Longrightarrow> length rest \<le> length s"
  by (induction refs s rule: read_ref.induct) (auto simp: strip_prefix_Some split: option.splits)

text \<open>Read from the left with as many steps as there are characters.\<close>

fun html_read :: "nat \<Rightarrow> string \<Rightarrow> string" where
  "html_read 0 s = []"
| "html_read (Suc n) [] = []"
| "html_read (Suc n) (c # s) =
     (case read_ref html_refs (c # s) of
        Some (d, rest) \<Rightarrow> d # html_read n rest
      | None \<Rightarrow> c # html_read n s)"

lemma strip_prefix_Cons:
  "strip_prefix (a # p) (b # s) = (if a = b then strip_prefix p s else None)" "strip_prefix [] s = Some s"
  "strip_prefix (a # p) [] = None"
  by (auto simp: strip_prefix_def)

lemma read_escaped: "escape_char c = [c] \<or> read_ref html_refs (escape_char c @ s) = Some (c, s)"
  by (simp add: html_refs_def strip_prefix_Cons)

lemma read_plain: "escape_char c = [c] \<Longrightarrow> read_ref html_refs (c # s) = None"
  by (auto simp: html_refs_def strip_prefix_Cons split: if_splits)

lemma html_read_step: "html_read (Suc n) (escape_char c @ s) = c # html_read n s"
proof (cases "escape_char c = [c]")
  case True
  then show ?thesis using read_plain [OF True, of s] by simp
next
  case False
  then have r: "read_ref html_refs (escape_char c @ s) = Some (c, s)" using read_escaped by blast
  obtain d ds where "escape_char c @ s = d # ds" by (cases "escape_char c @ s") (auto split: if_splits)
  with r show ?thesis by simp
qed

lemma html_read_escape: "html_read (length s) (html_escape s) = s"
proof (induction s)
  case (Cons c s)
  then show ?case
    using html_read_step [of "length s" c "html_escape s"] by (simp add: html_escape_def del: escape_char.simps)
qed (simp add: html_escape_def)

lemma html_escape_chars: "c \<in> set (html_escape s) \<Longrightarrow> c \<notin> {CHR ''<'', CHR ''>'', CHR 0x22, CHR 0x27}"
  by (auto simp: html_escape_def split: if_splits)

lemma join_chars: "c \<in> set (join sep ss) \<Longrightarrow> c \<in> set sep \<or> (\<exists>s \<in> set ss. c \<in> set s)"
  by (induction sep ss rule: join.induct) auto

context percent_encoding
begin

lemma segment_chars:
  assumes "c \<in> set (pct PATH_SEGMENT s)"
  shows "c \<notin> {CHR ''/'', CHR ''?'', CHR ''#'', CHR 0x5C, CHR ''<'', CHR ''>'', CHR 0x22, CHR 0x27, CHR ''&'', CHR '' ''}"
proof -
  have "\<not> is_hex CHR ''/''" "\<not> is_hex CHR ''?''" "\<not> is_hex CHR ''#''" "\<not> is_hex CHR 0x5C"
    "\<not> is_hex CHR ''<''" "\<not> is_hex CHR ''>''" "\<not> is_hex CHR 0x22" "\<not> is_hex CHR 0x27" "\<not> is_hex CHR ''&''"
    "\<not> is_hex CHR '' ''"
    by (simp_all add: is_hex_def is_digit_def)
  with pct_chars [OF assms] show ?thesis by (auto simp: PATH_SEGMENT_def)
qed

end

section \<open>Properties\<close>

text \<open>
  Escaping for HTML is safe and faithful: the escaped text contains no character that opens a tag or
  ends an attribute, and reading its character references gives back exactly the original text.
\<close>

lemma html_escape_safe:
  "(\<forall>c \<in> set (html_escape s). c \<notin> {CHR ''<'', CHR ''>'', CHR 0x22, CHR 0x27}) \<and>
   html_read (length s) (html_escape s) = s"
  using html_escape_chars html_read_escape by blast

text \<open>
  C33: a link into a collection stays on this gateway and is one path. For any name, hostile ones
  included, the link starts with a slash but not with two (which would name another host), and
  the part after the base holds no query, fragment, backslash, quote, angle bracket or space.
\<close>

theorem link_same_origin:
  assumes "percent_encoding pct" "rt_base r = [] \<or> (\<exists>b. rt_base r = CHR ''/'' # b \<and> b \<noteq> [] \<and> hd b \<noteq> CHR ''/'')"
  shows "starts_with (link pct r path) ''/'' \<and> \<not> starts_with (link pct r path) ''//'' \<and>
    (\<exists>rest. (link pct r path = rt_base r @ ''/'' @ rest \<or> link pct r path = ''/.'' @ rt_base r @ ''/'' @ rest) \<and>
       (\<forall>c \<in> set rest. c \<notin> {CHR ''?'', CHR ''#'', CHR 0x5C, CHR ''<'', CHR ''>'', CHR 0x22, CHR 0x27, CHR ''&'', CHR '' ''}))"
proof -
  define rest where "rest = join ''/'' (map (pct PATH_SEGMENT) (split_on CHR ''/'' path))"
  have eq: "link pct r path = (if starts_with (rt_base r @ ''/'' @ rest) ''//''
      then ''/.'' @ rt_base r @ ''/'' @ rest else rt_base r @ ''/'' @ rest)"
    by (simp add: link_def Let_def rest_def)
  have "\<forall>c \<in> set rest. c \<notin> {CHR ''?'', CHR ''#'', CHR 0x5C, CHR ''<'', CHR ''>'', CHR 0x22, CHR 0x27, CHR ''&'', CHR '' ''}"
    using join_chars [of _ "''/''"] percent_encoding.segment_chars [OF assms(1)]
    unfolding rest_def by fastforce
  moreover have "starts_with (link pct r path) ''/''" "\<not> starts_with (link pct r path) ''//''"
    using assms(2) by (auto simp: eq starts_with_def)
  ultimately show ?thesis using eq by auto
qed

lemma link_same_origin_witness:
  "\<not> starts_with (link pct_reference (root_new ''abc'' True) ''/evil.example/x'') ''//''"
  using link_same_origin [OF reference.percent_encoding_axioms, of "root_new ''abc'' True" "''/evil.example/x''"]
  by (simp add: root_new_def)

end
