(* ===== verification/Gateway_Collections.thy ===== *)
theory Gateway_Collections
  imports Gateway_Text Server_Limits
begin

text \<open>
  Collections in the gateway, \<open>iroh-link-gateway/src/lib.rs\<close>: which file, directory or redirect a URL
  path names (the choice \<open>collection_entry\<close> makes, \<open>Entries\<close>), the HTML listing, and the rewriting of
  subdomains to paths. The z-base-32 codec and the parser of URIs are arguments.
\<close>

section \<open>Hashes and subdomains\<close>

text \<open>\<open>z32\<close> is the codec of z-base-32: decoding, and encoding of bytes.\<close>

definition parse_z32_bytes :: "(string \<Rightarrow> bytes option) \<Rightarrow> (bytes \<Rightarrow> string) \<Rightarrow> string \<Rightarrow> bytes option" where
  "parse_z32_bytes dec enc v =
     (if length v \<noteq> 52 then None
      else case dec v of
        None \<Rightarrow> None
      | Some bs \<Rightarrow> if length bs = 32 \<and> enc bs = v then Some bs else None)"

definition SUBDOMAIN_ROUTES :: "(string \<times> string) list" where
  "SUBDOMAIN_ROUTES = [(''.blake3.localhost'', ''blake3''), (''.pkarr.localhost'', ''pkarr'')]"

definition to_ascii_lowercase :: "string \<Rightarrow> string" where
  "to_ascii_lowercase s =
     map (\<lambda>c. if (65::nat) \<le> of_char c \<and> of_char c \<le> (90::nat) then char_of (of_char c + (32::nat)) else c) s"

fun find_route :: "(string \<Rightarrow> bytes option) \<Rightarrow> (bytes \<Rightarrow> string) \<Rightarrow> (string \<times> string) list \<Rightarrow> string \<Rightarrow>
    (string \<times> string) option" where
  "find_route dec enc [] host = None"
| "find_route dec enc ((suffix, route) # rs) host =
     (case strip_suffix suffix host of
        Some label \<Rightarrow>
          if parse_z32_bytes dec enc label \<noteq> None then Some (label, route) else find_route dec enc rs host
      | None \<Rightarrow> find_route dec enc rs host)"

text \<open>The host of a request, in lower case: that of the URI, or of the \<open>Host\<close> header without its port.\<close>

definition request_host :: "string option \<Rightarrow> string option \<Rightarrow> string option" where
  "request_host uri_host header_host =
     map_option to_ascii_lowercase
       (case uri_host of Some h \<Rightarrow> Some h
        | None \<Rightarrow> map_option (\<lambda>h. case rsplit_once CHR '':'' h of None \<Rightarrow> h | Some (a, _) \<Rightarrow> a) header_host)"

text \<open>
  The rewritten path and query; \<open>None\<close> leaves the request alone. \<open>uri_ok\<close> says which strings parse as a
  URI.
\<close>

definition rewrite_subdomain :: "(string \<Rightarrow> bytes option) \<Rightarrow> (bytes \<Rightarrow> string) \<Rightarrow> (string \<Rightarrow> bool) \<Rightarrow> string option \<Rightarrow> string option \<Rightarrow>
    string option \<Rightarrow> string option" where
  "rewrite_subdomain dec enc uri_ok uri_host header_host path_and_query =
     (case Option.bind (request_host uri_host header_host) (find_route dec enc SUBDOMAIN_ROUTES) of
        None \<Rightarrow> None
      | Some (label, route) \<Rightarrow>
          (let p = (case path_and_query of None \<Rightarrow> ''/'' | Some p \<Rightarrow> p);
               rest = (case strip_prefix ''/'' p of None \<Rightarrow> p | Some r \<Rightarrow> r);
               rewritten = (if rest = [] \<or> starts_with rest ''?'' then ''/'' @ route @ ''/'' @ label @ rest
                            else ''/'' @ route @ ''/'' @ label @ ''/'' @ rest)
           in if uri_ok rewritten then Some rewritten else None))"

section \<open>Directories\<close>

type_synonym hash = bytes
type_synonym collection = "(string \<times> hash) list"

definition INDEX_FILE :: string where "INDEX_FILE = ''index.html''"

record entries =
  en_dirs :: "string fset"
  en_files :: "(string \<times> hash) list"

fun collect_entries :: "string \<Rightarrow> collection \<Rightarrow> entries \<Rightarrow> entries" where
  "collect_entries dir [] e = e"
| "collect_entries dir ((name, hash) # coll) e =
     (case strip_prefix dir name of
        None \<Rightarrow> collect_entries dir coll e
      | Some rest \<Rightarrow>
          (case split_once CHR ''/'' rest of
             Some (sub, _) \<Rightarrow> collect_entries dir coll (e\<lparr>en_dirs := finsert sub (en_dirs e)\<rparr>)
           | None \<Rightarrow> collect_entries dir coll (e\<lparr>en_files := en_files e @ [(rest, hash)]\<rparr>)))"

definition entries_new :: "string \<Rightarrow> collection \<Rightarrow> entries option" where
  "entries_new dir coll =
     (let e = collect_entries dir coll \<lparr>en_dirs = {||}, en_files = []\<rparr>
      in if dir \<noteq> [] \<and> en_dirs e = {||} \<and> en_files e = [] then None else Some e)"

section \<open>Serving a path\<close>

datatype response_plan =
    ServeFile hash string "string option"
  | Redirect nat string string
  | Listing string entries bool bool
  | NotFound

definition entry_dir :: "string \<Rightarrow> string" where
  "entry_dir path = (if path = [] \<or> ends_with path ''/'' then path else path @ ''/'')"

definition file_at :: "collection \<Rightarrow> string \<Rightarrow> hash option" where
  "file_at coll path =
     (if list_ex (\<lambda>(name, _). starts_with name (path @ ''/'')) coll then None
      else map_option snd (List.find (\<lambda>(name, _). name = path) coll))"

definition collection_entry :: "((char \<Rightarrow> bool) \<Rightarrow> string \<Rightarrow> string) \<Rightarrow> root \<Rightarrow> collection \<Rightarrow> string \<Rightarrow> string option \<Rightarrow>
    response_plan" where
  "collection_entry pct r coll url_path query =
     (let slash = ends_with url_path ''/'';
          path = (case strip_prefix ''/'' url_path of None \<Rightarrow> url_path | Some p \<Rightarrow> p)
      in case file_at coll path of
           Some h \<Rightarrow>
             ServeFile h path
               (if has_flag query ''download''
                then Some (case rsplit_once CHR ''/'' path of None \<Rightarrow> path | Some (_, f) \<Rightarrow> f) else None)
         | None \<Rightarrow>
             (let dir = entry_dir path in
              case entries_new dir coll of
                None \<Rightarrow> NotFound
              | Some e \<Rightarrow>
                  (let listing_flag = has_flag query ''listing'' in
                   case (if listing_flag then None else List.find (\<lambda>(name, _). name = INDEX_FILE) (en_files e)) of
                     Some (_, h) \<Rightarrow>
                       if \<not> slash then
                         Redirect (redirect_status (rt_caching r))
                           (link pct r dir @ (case query of None \<Rightarrow> [] | Some q \<Rightarrow> ''?'' @ q))
                           (caching_header (rt_caching r))
                       else ServeFile h (dir @ INDEX_FILE)
                              (if has_flag query ''download'' then Some INDEX_FILE else None)
                   | None \<Rightarrow> Listing dir e (has_flag query ''sizes'') listing_flag)))"

section \<open>Errors\<close>

datatype http_error = HttpError nat string

definition MAX_COLLECTION_ROOT_BYTES :: u64 where "MAX_COLLECTION_ROOT_BYTES = 1024 * 1024"

section \<open>Listings\<close>

definition SEPARATOR :: string where "SEPARATOR = ''&nbsp;/&nbsp;<wbr>''"

definition quot :: string where "quot = [CHR 0x22]"
definition nl :: string where "nl = [CHR 0x0A]"

text \<open>The byte count with binary units; \<open>fmt\<close> prints an \<open>f64\<close> with one decimal.\<close>

definition UNITS :: "string list" where
  "UNITS = [''B'', ''KiB'', ''MiB'', ''GiB'', ''TiB'', ''PiB'']"

fun scale :: "(rat \<Rightarrow> rat) \<Rightarrow> nat \<Rightarrow> rat \<Rightarrow> nat \<Rightarrow> rat \<times> nat" where
  "scale rnd 0 v unit = (v, unit)"
| "scale rnd (Suc n) v unit = (if v \<ge> 1024 then scale rnd n (rnd (v / 1024)) (Suc unit) else (v, unit))"

definition format_size :: "(rat \<Rightarrow> rat) \<Rightarrow> (rat \<Rightarrow> string) \<Rightarrow> u64 \<Rightarrow> string" where
  "format_size rnd fmt sz =
     (let (v, unit) = scale rnd (length UNITS - 1) (rnd (of_nat (unat sz))) 0
      in if unit = 0 then decimal (unat sz) @ '' B'' else fmt v @ '' '' @ UNITS ! unit)"

definition anchor :: "string \<Rightarrow> string \<Rightarrow> string" where
  "anchor href body = ''<a href='' @ quot @ href @ quot @ ''>'' @ body @ ''</a>''"

definition class_cell :: "string \<Rightarrow> string \<Rightarrow> string" where
  "class_cell c body = ''<td class='' @ quot @ c @ quot @ ''>'' @ body @ ''</td>''"

text \<open>The headings after the root: ancestors link to their listing, the last is plain text.\<close>

fun breadcrumbs :: "(string \<Rightarrow> string) \<Rightarrow> string \<Rightarrow> string \<Rightarrow> string list \<Rightarrow> string" where
  "breadcrumbs lnk q path [] = []"
| "breadcrumbs lnk q path [segment] = SEPARATOR @ html_escape segment"
| "breadcrumbs lnk q path (segment # t # ss) =
     (let path = path @ segment @ ''/''
      in SEPARATOR @ anchor (lnk path @ q) (html_escape segment) @ breadcrumbs lnk q path (t # ss))"

definition parent_dir :: "string \<Rightarrow> string" where
  "parent_dir trimmed =
     (let parent = (case rsplit_once CHR ''/'' trimmed of None \<Rightarrow> [] | Some (p, _) \<Rightarrow> p)
      in if parent = [] then [] else parent @ ''/'')"

definition dir_row :: "string \<Rightarrow> string \<Rightarrow> string" where
  "dir_row href label =
     ''<tr><td>'' @ anchor href (label @ ''/'') @ ''</td>'' @ class_cell ''size'' [] @ class_cell ''hash'' [] @
     class_cell ''download'' [] @ ''</tr>'' @ nl"

definition file_row :: "string \<Rightarrow> string \<Rightarrow> string \<Rightarrow> string \<Rightarrow> string" where
  "file_row href name sz encoded =
     ''<tr><td>'' @ anchor href name @ ''</td>'' @ class_cell ''size'' sz @
     class_cell ''hash'' (''<span title='' @ quot @ encoded @ quot @ ''>'' @ encoded @ ''</span>'') @
     class_cell ''download'' (anchor (href @ ''?download'') ''Download'') @ ''</tr>'' @ nl"

definition listing :: "((char \<Rightarrow> bool) \<Rightarrow> string \<Rightarrow> string) \<Rightarrow> (hash \<Rightarrow> string) \<Rightarrow> (u64 \<Rightarrow> string) \<Rightarrow> string \<Rightarrow>
    root \<Rightarrow> string \<Rightarrow> entries \<Rightarrow> (hash \<rightharpoonup> u64) option \<Rightarrow> bool \<Rightarrow> string" where
  "listing pct z32 size_text css r dir e sizes listing_flag =
     (let lnk = (\<lambda>path. html_escape (link pct r path));
          title = html_escape (rt_encoded r @ ''/'' @ dir);
          q = (if sizes \<noteq> None then (if listing_flag then ''?sizes&amp;listing'' else ''?sizes'')
               else if listing_flag then ''?listing'' else []);
          segments = filter (\<lambda>s. s \<noteq> []) (split_on CHR ''/'' dir);
          heading = (if segments = [] then rt_encoded r else anchor (lnk [] @ q) (rt_encoded r)) @
                    breadcrumbs lnk q [] segments @ SEPARATOR;
          head = ''<!DOCTYPE html>'' @ nl @ ''<html lang='' @ quot @ ''en'' @ quot @ ''>'' @ nl @
            ''<meta charset='' @ quot @ ''utf-8'' @ quot @ ''>'' @ nl @
            ''<meta name='' @ quot @ ''color-scheme'' @ quot @ '' content='' @ quot @ ''light dark'' @ quot @ ''>'' @ nl @
            ''<meta name='' @ quot @ ''viewport'' @ quot @ '' content='' @ quot @
              ''width=device-width, initial-scale=1'' @ quot @ ''>'' @ nl @
            ''<title>'' @ title @ ''</title>'' @ nl @ ''<style>'' @ css @ ''</style>'' @ nl @
            ''<h1>'' @ heading @ ''</h1>'' @ nl;
          fetch = (if sizes = None then
            ''<p class='' @ quot @ ''meta'' @ quot @ ''>'' @
            anchor (if listing_flag then ''?sizes&amp;listing'' else ''?sizes'') ''Fetch sizes'' @ ''</p>'' @ nl else []);
          up = (case strip_suffix ''/'' dir of None \<Rightarrow> []
                | Some trimmed \<Rightarrow> dir_row (lnk (parent_dir trimmed) @ q) ''..'');
          dirs = concat (map (\<lambda>sub. dir_row (lnk (dir @ sub @ ''/'') @ q) (html_escape sub))
                   (sorted_list_of_fset (en_dirs e)));
          files = concat (map (\<lambda>(file, h).
                   file_row (lnk (dir @ file)) (html_escape file)
                     (case sizes of None \<Rightarrow> []
                      | Some m \<Rightarrow> (case m h of None \<Rightarrow> ''?'' | Some sz \<Rightarrow> size_text sz)) (z32 h)) (en_files e))
      in head @ fetch @ ''<table>'' @ nl @ up @ dirs @ files @ ''</table>'' @ nl)"

section \<open>Lemmas\<close>

lemma collect_entries_files:
  "en_files (collect_entries dir coll e) =
     en_files e @ List.map_filter (\<lambda>(name, h). case strip_prefix dir name of None \<Rightarrow> None
       | Some rest \<Rightarrow> if CHR ''/'' \<in> set rest then None else Some (rest, h)) coll"
  by (induction dir coll e rule: collect_entries.induct)
    (auto simp: List.map_filter_def split_once_Some split: option.splits dest!: split_once_None [THEN iffD1])

lemma first_slash:
  assumes "c \<notin> set u" "c \<notin> set v" "u @ c # r = v @ c # t"
  shows "u = v"
proof -
  have "split_once c (u @ c # r) = Some (u, r)" "split_once c (v @ c # t) = Some (v, t)"
    using split_once_append [OF assms(1)] split_once_append [OF assms(2)] .
  then show ?thesis unfolding assms(3) by (metis option.inject prod.inject)
qed

lemma collect_entries_dirs:
  "sub |\<in>| en_dirs (collect_entries dir coll e) \<longleftrightarrow> sub |\<in>| en_dirs e \<or>
     CHR ''/'' \<notin> set sub \<and> (\<exists>name h rest. (name, h) \<in> set coll \<and> name = dir @ sub @ ''/'' @ rest)"
proof (induction dir coll e rule: collect_entries.induct)
  case (2 dir name h coll e)
  show ?case
  proof (cases "strip_prefix dir name")
    case None
    then have "name \<noteq> dir @ r" for r by auto
    with 2 None show ?thesis by auto
  next
    case (Some rest)
    then have name: "name = dir @ rest" by (simp add: strip_prefix_Some)
    show ?thesis
    proof (cases "split_once CHR ''/'' rest")
      case None
      then have "CHR ''/'' \<notin> set rest" by (simp add: split_once_None)
      with 2 Some None name show ?thesis by auto
    next
      case s: (Some p)
      obtain a b where p: "p = (a, b)" by (cases p)
      with s have rest: "rest = a @ CHR ''/'' # b" "CHR ''/'' \<notin> set a" by (auto simp: split_once_Some)
      from 2 Some s p name show ?thesis
        by (auto simp: rest dest: first_slash [OF _ rest(2)])
    qed
  qed
qed simp

lemma entries_files:
  "(f, h) \<in> set (en_files (collect_entries dir coll \<lparr>en_dirs = {||}, en_files = []\<rparr>)) \<longleftrightarrow>
     CHR ''/'' \<notin> set f \<and> (dir @ f, h) \<in> set coll"
proof -
  have "(f, h) \<in> set (List.map_filter (\<lambda>(name, h). case strip_prefix dir name of None \<Rightarrow> None
          | Some rest \<Rightarrow> if CHR ''/'' \<in> set rest then None else Some (rest, h)) coll) \<longleftrightarrow>
        CHR ''/'' \<notin> set f \<and> (dir @ f, h) \<in> set coll"
  proof (induction coll)
    case (Cons e coll)
    obtain n k where e: "e = (n, k)" by (cases e)
    show ?case
    proof (cases "strip_prefix dir n")
      case None
      then have "n \<noteq> dir @ f" by auto
      with Cons None show ?thesis by (auto simp: e List.map_filter_simps)
    next
      case (Some rest)
      then have "n = dir @ rest" by (simp add: strip_prefix_Some)
      with Cons Some show ?thesis by (auto simp: e List.map_filter_simps)
    qed
  qed (simp add: List.map_filter_simps)
  then show ?thesis by (simp add: collect_entries_files)
qed

lemma entries_dirs:
  "sub |\<in>| en_dirs (collect_entries dir coll \<lparr>en_dirs = {||}, en_files = []\<rparr>) \<longleftrightarrow>
     CHR ''/'' \<notin> set sub \<and> (\<exists>h rest. (dir @ sub @ ''/'' @ rest, h) \<in> set coll)"
  by (auto simp: collect_entries_dirs)

lemma entries_new_None:
  "entries_new dir coll = None \<longleftrightarrow> dir \<noteq> [] \<and> (\<forall>(name, h) \<in> set coll. \<not> starts_with name dir)"
proof -
  let ?e = "collect_entries dir coll \<lparr>en_dirs = {||}, en_files = []\<rparr>"
  have "(\<exists>sub. sub |\<in>| en_dirs ?e) \<or> (\<exists>f h. (f, h) \<in> set (en_files ?e)) \<longleftrightarrow>
        (\<exists>r h. (dir @ r, h) \<in> set coll)"
    unfolding entries_files entries_dirs by (metis append_Cons append_Nil split_list_first)
  moreover have "en_dirs ?e = {||} \<longleftrightarrow> \<not> (\<exists>sub. sub |\<in>| en_dirs ?e)" by auto
  moreover have "en_files ?e = [] \<longleftrightarrow> \<not> (\<exists>f h. (f, h) \<in> set (en_files ?e))"
    by (cases "en_files ?e") auto
  moreover have "(\<exists>r h. (dir @ r, h) \<in> set coll) \<longleftrightarrow> \<not> (\<forall>(name, h) \<in> set coll. \<not> starts_with name dir)"
    by (fastforce simp: starts_with_iff)
  moreover have "entries_new dir coll = None \<longleftrightarrow> dir \<noteq> [] \<and> en_dirs ?e = {||} \<and> en_files ?e = []"
    by (simp add: entries_new_def Let_def)
  ultimately show ?thesis by blast
qed

lemma file_at_Some:
  "file_at coll path = Some h \<longleftrightarrow>
     map_of coll path = Some h \<and> (\<forall>(name, h) \<in> set coll. \<not> starts_with name (path @ ''/''))"
proof -
  have "map_option snd (List.find (\<lambda>(name, _). name = path) coll) = map_of coll path"
    by (induction coll) auto
  then show ?thesis by (auto simp: file_at_def list_ex_iff)
qed

lemma find_index:
  "List.find (\<lambda>(name, _). name = n) fs = Some (m, h) \<Longrightarrow> m = n \<and> (n, h) \<in> set fs"
  by (auto simp: find_Some_iff) (metis nth_mem)

definition url_name :: "string \<Rightarrow> string" where
  "url_name url_path = (case strip_prefix ''/'' url_path of None \<Rightarrow> url_path | Some p \<Rightarrow> p)"

lemma url_name_slash: "url_name (''/'' @ name) = name"
  using strip_prefix_append [of "''/''" name] by (simp add: url_name_def del: append.simps)

lemma collection_entry_file:
  "file_at coll (url_name u) = Some h \<Longrightarrow>
     collection_entry pct r coll u q = ServeFile h (url_name u)
       (if has_flag q ''download''
        then Some (case rsplit_once CHR ''/'' (url_name u) of None \<Rightarrow> url_name u | Some (_, f) \<Rightarrow> f) else None)"
  by (simp add: collection_entry_def Let_def flip: url_name_def)

lemma collection_entry_NotFound:
  "collection_entry pct r coll u q = NotFound \<longleftrightarrow>
     file_at coll (url_name u) = None \<and> entries_new (entry_dir (url_name u)) coll = None"
  by (auto simp: collection_entry_def url_name_def Let_def split: option.splits if_splits)

text \<open>Nothing is found only where the collection has neither the name nor anything below it.\<close>

lemma not_found_iff:
  "file_at coll path = None \<and> entries_new (entry_dir path) coll = None \<longleftrightarrow>
     path \<noteq> [] \<and> (\<forall>(name, h) \<in> set coll. name \<noteq> path \<and> \<not> starts_with name (entry_dir path))"
proof -
  have dir: "entry_dir path = [] \<longleftrightarrow> path = []" by (simp add: entry_dir_def)
  have below: "starts_with path (entry_dir path) \<or> entry_dir path = path @ ''/''"
    by (auto simp: entry_dir_def starts_with_iff)
  have none: "file_at coll path = None \<longleftrightarrow>
      map_of coll path = None \<or> \<not> (\<forall>(name, h) \<in> set coll. \<not> starts_with name (path @ ''/''))"
    using file_at_Some [of coll path] by (metis option.exhaust option.distinct(1))
  have named: "map_of coll path = None \<longleftrightarrow> (\<forall>(name, h) \<in> set coll. name \<noteq> path)"
    by (force simp: map_of_eq_None_iff)
  show ?thesis
    unfolding none entries_new_None dir named using below by fastforce
qed

lemma entries_newD:
  assumes "entries_new dir coll = Some e"
  shows "e = collect_entries dir coll \<lparr>en_dirs = {||}, en_files = []\<rparr>"
  using assms by (auto simp: entries_new_def Let_def split: if_splits)

text \<open>What a directory answers, when the path is not a file.\<close>

lemma collection_entry_dir:
  assumes "file_at coll (url_name u) = None" "entries_new (entry_dir (url_name u)) coll = Some e"
  obtains (index) h where "(entry_dir (url_name u) @ INDEX_FILE, h) \<in> set coll" "ends_with u ''/''"
      "collection_entry pct r coll u q = ServeFile h (entry_dir (url_name u) @ INDEX_FILE)
         (if has_flag q ''download'' then Some INDEX_FILE else None)"
    | (redirect) h st loc cc where "(entry_dir (url_name u) @ INDEX_FILE, h) \<in> set coll" "\<not> ends_with u ''/''"
      "collection_entry pct r coll u q = Redirect st loc cc"
    | (list) "has_flag q ''listing'' \<or> (\<forall>h. (entry_dir (url_name u) @ INDEX_FILE, h) \<notin> set coll)"
      "collection_entry pct r coll u q =
         Listing (entry_dir (url_name u)) e (has_flag q ''sizes'') (has_flag q ''listing'')"
proof -
  let ?dir = "entry_dir (url_name u)"
  let ?find = "if has_flag q ''listing'' then None else List.find (\<lambda>(name, _). name = INDEX_FILE) (en_files e)"
  have e: "e = collect_entries ?dir coll \<lparr>en_dirs = {||}, en_files = []\<rparr>" by (rule entries_newD [OF assms(2)])
  have noslash: "CHR ''/'' \<notin> set INDEX_FILE" by (simp add: INDEX_FILE_def)
  note ce = collection_entry_def [of pct r coll u q, folded url_name_def, unfolded Let_def assms option.case]
  show thesis
  proof (cases ?find)
    case None
    have "(INDEX_FILE, h) \<notin> set (en_files e)" if "\<not> has_flag q ''listing''" for h
      using None that by (auto simp: find_None_iff)
    with None show thesis by (intro list) (auto simp: ce e entries_files noslash)
  next
    case (Some p)
    then obtain m h where p: "p = (m, h)" "(INDEX_FILE, h) \<in> set (en_files e)"
      by (cases p) (auto split: if_splits dest: find_index)
    then have mem: "(?dir @ INDEX_FILE, h) \<in> set coll" by (simp add: e entries_files)
    show thesis
    proof (cases "ends_with u ''/''")
      case True
      with Some p mem show thesis by (intro index) (auto simp: ce)
    next
      case False
      with Some p mem show thesis by (intro redirect) (auto simp: ce)
    qed
  qed
qed

section \<open>What a path of a collection serves\<close>

text \<open>
  C34. A path into a collection serves what the collection has there: a file is served under a
  name the collection gives its hash, the requested one or the \<open>index.html\<close> of the requested
  directory (only on a URL that ends with a slash; without one the answer is a redirect to such a
  URL); a listing shows exactly the files directly in the directory and exactly its immediate
  subdirectories. The answer is "not found" exactly when the path is not the root and the
  collection has neither that name nor a name below it, and every name with nothing below it is
  served under its own URL.
\<close>

theorem collection_entry_serves:
  "(case collection_entry pct r coll u q of
      ServeFile h name d \<Rightarrow> (name, h) \<in> set coll \<and>
        (name = url_name u \<or> name = entry_dir (url_name u) @ INDEX_FILE \<and> ends_with u ''/'')
    | Redirect st loc cc \<Rightarrow> \<not> ends_with u ''/'' \<and> (\<exists>h. (entry_dir (url_name u) @ INDEX_FILE, h) \<in> set coll)
    | Listing dir e s l \<Rightarrow> dir = entry_dir (url_name u) \<and>
        (l \<or> (\<forall>h. (dir @ INDEX_FILE, h) \<notin> set coll)) \<and>
        (\<forall>f h. (f, h) \<in> set (en_files e) \<longleftrightarrow> CHR ''/'' \<notin> set f \<and> (dir @ f, h) \<in> set coll) \<and>
        (\<forall>sub. sub |\<in>| en_dirs e \<longleftrightarrow> CHR ''/'' \<notin> set sub \<and> (\<exists>h rest. (dir @ sub @ ''/'' @ rest, h) \<in> set coll))
    | NotFound \<Rightarrow> True) \<and>
   (collection_entry pct r coll u q = NotFound \<longleftrightarrow> url_name u \<noteq> [] \<and>
      (\<forall>(name, h) \<in> set coll. name \<noteq> url_name u \<and> \<not> starts_with name (entry_dir (url_name u)))) \<and>
   (\<forall>name h. map_of coll name = Some h \<and> (\<forall>(n, h) \<in> set coll. \<not> starts_with n (name @ ''/'')) \<longrightarrow>
      (\<exists>d. collection_entry pct r coll (''/'' @ name) q = ServeFile h name d))"
  (is "?sound \<and> ?none \<and> ?complete")
proof (intro conjI)
  show ?sound
  proof (cases "file_at coll (url_name u)")
    case (Some h)
    then show ?thesis by (auto simp: collection_entry_file [OF Some] file_at_Some dest: map_of_SomeD)
  next
    case None
    show ?thesis
    proof (cases "entries_new (entry_dir (url_name u)) coll")
      case (Some e)
      show ?thesis
        by (rule collection_entry_dir [OF None Some, where q = q and pct = pct and r = r])
          (auto simp: entries_newD [OF Some] entries_files entries_dirs)
    qed (use None in \<open>simp add: collection_entry_NotFound [THEN iffD2]\<close>)
  qed
  show ?none unfolding collection_entry_NotFound not_found_iff ..
  have "\<exists>d. collection_entry pct r coll (''/'' @ name) q = ServeFile h name d" if "file_at coll name = Some h" for name h
    using collection_entry_file [of coll "''/'' @ name" h pct r q] that unfolding url_name_slash by blast
  then show ?complete by (simp add: file_at_Some)
qed

definition site :: collection where
  "site = [(''a/index.html'', [1]), (''a/b.txt'', [2]), (''a/c/d'', [3]), (''e'', [4])]"

theorem collection_entry_serves_witness:
  "(\<exists>d. collection_entry pct_reference (root_new ''h'' False) site ''/e'' None = ServeFile [4] ''e'' d) \<and>
   collection_entry pct_reference (root_new ''h'' False) site ''/x'' None = NotFound"
  using collection_entry_serves [where pct = pct_reference and r = "root_new ''h'' False" and coll = site
      and u = "''/x''" and q = None]
  by (simp add: site_def url_name_def entry_dir_def ends_with_def strip_suffix_def starts_with_def strip_prefix_def)

end
