(* ===== verification/Blob_Stream.thy ===== *)
theory Blob_Stream
  imports Ranges Gateway_Collections
begin

text \<open>
  Reading blobs from a provider, \<open>iroh-link-gateway/src/lib.rs\<close>: the body of a response
  (\<open>stream_content\<close>), the prefix a media type is guessed from (\<open>sniff\<close>), the size
  (\<open>verified_size\<close>), and the two blobs of a collection (\<open>read_collection_blob\<close>,
  \<open>read_collection\<close>). The provider's side, the state machine of \<open>iroh-blobs\<close>, is the sequence of
  items it returns; that each leaf is a piece of the blob is what Bao verifies, and enters as the
  hypothesis \<open>authentic\<close>.
\<close>

section \<open>What a provider returns\<close>

datatype bao_item = Parent | Leaf u64 bytes

datatype bao_read = Got bao_item | Failed

datatype blob_end = ClosingOk | ClosingError | ClosingTimeout | MoreChildren

text \<open>Half-open slices, as \<open>Bytes::slice\<close>.\<close>

definition byte_slice :: "'a list \<Rightarrow> nat \<Rightarrow> nat \<Rightarrow> 'a list" where
  "byte_slice xs a b = take (b - a) (drop a xs)"

section \<open>The body of a response\<close>

datatype stream_error = ReadElapsed | ReadFailed | Noncontiguous | Incomplete | UnexpectedChild
  | StartElapsed | StartFailed | SizeChanged

text \<open>
  The loop over the items: the pieces it yields, and the offset it ends at or its error. \<open>None\<close> is
  a read that runs into its timeout.
\<close>

fun stream_leaves :: "range \<Rightarrow> u64 \<Rightarrow> bao_read option list \<Rightarrow> bytes list \<times> (stream_error + u64)" where
  "stream_leaves rng offset [] = ([], Inr offset)"
| "stream_leaves rng offset (None # content) = ([], Inl ReadElapsed)"
| "stream_leaves rng offset (Some Failed # content) = ([], Inl ReadFailed)"
| "stream_leaves rng offset (Some (Got Parent) # content) = stream_leaves rng offset content"
| "stream_leaves rng offset (Some (Got (Leaf at_offset data)) # content) =
     (let start = max at_offset (fst rng);
          stop = min (at_offset + of_nat (length data)) (snd rng)
      in if start < stop then
           (if start \<noteq> offset then ([], Inl Noncontiguous)
            else let (pieces, r) = stream_leaves rng stop content
                 in (byte_slice data (unat (start - at_offset)) (unat (stop - at_offset)) # pieces, r))
         else stream_leaves rng offset content)"

definition stream_content :: "range \<Rightarrow> bao_read option list \<Rightarrow> blob_end \<Rightarrow> bytes list \<times> stream_error option" where
  "stream_content rng content fin =
     (let (pieces, r) = stream_leaves rng (fst rng) content
      in (pieces,
          case r of
            Inl e \<Rightarrow> Some e
          | Inr offset \<Rightarrow>
              if offset \<noteq> snd rng then Some Incomplete
              else (case fin of
                      MoreChildren \<Rightarrow> Some UnexpectedChild
                    | ClosingTimeout \<Rightarrow> Some ReadElapsed
                    | ClosingError \<Rightarrow> Some ReadFailed
                    | ClosingOk \<Rightarrow> None)))"

section \<open>The prefix and the size\<close>

definition SNIFF_BYTES :: u64 where "SNIFF_BYTES = 8192"

datatype read_error = ReadError | NoncontiguousPrefix | NoncontiguousComponent | TooLarge u64 | ExceedsLimit
  | IncompletePrefix | IncompleteComponent | UnexpectedChildBlob | InvalidHashSeq | MissingMeta
  | ExpectedMeta | InvalidMeta | LengthMismatch | InvalidHeader

fun sniff_leaves :: "bytes \<Rightarrow> bao_read list \<Rightarrow> read_error + bytes" where
  "sniff_leaves prefix [] = Inr prefix"
| "sniff_leaves prefix (Failed # content) = Inl ReadError"
| "sniff_leaves prefix (Got Parent # content) = sniff_leaves prefix content"
| "sniff_leaves prefix (Got (Leaf at_offset data) # content) =
     (let stop = min (unat (saturating_sub SNIFF_BYTES at_offset)) (length data)
      in if stop > 0 then
           (if at_offset \<noteq> of_nat (length prefix) then Inl NoncontiguousPrefix
            else sniff_leaves (prefix @ take stop data) content)
         else sniff_leaves prefix content)"

definition close_blob :: "blob_end \<Rightarrow> read_error + unit" where
  "close_blob fin = (case fin of MoreChildren \<Rightarrow> Inl UnexpectedChildBlob | ClosingOk \<Rightarrow> Inr () | _ \<Rightarrow> Inl ReadError)"

definition sniff :: "bao_read list \<Rightarrow> blob_end \<Rightarrow> u64 \<Rightarrow> read_error + u64 \<times> bytes" where
  "sniff content fin sz =
     (case sniff_leaves [] content of
        Inl e \<Rightarrow> Inl e
      | Inr prefix \<Rightarrow>
          (case close_blob fin of
             Inl e \<Rightarrow> Inl e
           | Inr _ \<Rightarrow>
               if (of_nat (length prefix) :: u64) \<noteq> min sz SNIFF_BYTES then Inl IncompletePrefix
               else Inr (sz, prefix)))"

definition verified_size :: "bao_read list \<Rightarrow> blob_end \<Rightarrow> u64 \<Rightarrow> read_error + u64" where
  "verified_size content fin sz =
     (if Failed \<in> set content then Inl ReadError
      else case close_blob fin of Inl e \<Rightarrow> Inl e | Inr _ \<Rightarrow> Inr sz)"

section \<open>Collections\<close>

fun component_leaves :: "u64 \<Rightarrow> bytes \<Rightarrow> bao_read list \<Rightarrow> read_error + bytes" where
  "component_leaves limit bs [] = Inr bs"
| "component_leaves limit bs (Failed # content) = Inl ReadError"
| "component_leaves limit bs (Got Parent # content) = component_leaves limit bs content"
| "component_leaves limit bs (Got (Leaf at_offset data) # content) =
     (if at_offset \<noteq> of_nat (length bs) then Inl NoncontiguousComponent
      else if \<not> of_nat (length data) \<le> limit - of_nat (length bs) then Inl ExceedsLimit
      else component_leaves limit (bs @ data) content)"

definition read_collection_blob :: "bao_read list \<Rightarrow> u64 \<Rightarrow> u64 \<Rightarrow> read_error + bytes" where
  "read_collection_blob content sz limit =
     (if \<not> sz \<le> limit then Inl (TooLarge limit)
      else case component_leaves limit [] content of
        Inl e \<Rightarrow> Inl e
      | Inr bs \<Rightarrow> if of_nat (length bs) \<noteq> sz then Inl IncompleteComponent else Inr bs)"

definition MAX_COLLECTION_NAME_BYTES :: usize where "MAX_COLLECTION_NAME_BYTES = 256"

text \<open>
  The formats of \<open>iroh-blobs\<close>: the hash sequence of a collection's root, the length of the header
  constant, the count that the metadata starts with, and the metadata itself (its names, and
  whether its header is the expected one).
\<close>

record collection_format =
  cf_hash_seq :: "bytes \<Rightarrow> hash list option"
  cf_header_len :: nat
  cf_count :: "bytes \<Rightarrow> nat option"
  cf_meta :: "bytes \<Rightarrow> (bool \<times> string list) option"

text \<open>
  The root, and then its first child with the metadata hash. \<open>child\<close> says whether the provider
  goes on with a child after the root, and \<open>fin\<close> how the connection ends after the metadata.
\<close>

definition names_limit :: "collection_format \<Rightarrow> nat \<Rightarrow> nat" where
  "names_limit F links = cf_header_len F + 10 + links * (MAX_COLLECTION_NAME_BYTES + 10)"

definition read_collection :: "collection_format \<Rightarrow> bao_read list \<Rightarrow> u64 \<Rightarrow> bool \<Rightarrow>
    (hash \<Rightarrow> bao_read list \<times> u64) \<Rightarrow> blob_end \<Rightarrow> read_error + collection" where
  "read_collection F root_content root_size child meta_content fin =
     (case read_collection_blob root_content root_size MAX_COLLECTION_ROOT_BYTES of
        Inl e \<Rightarrow> Inl e
      | Inr root_bytes \<Rightarrow>
          (case cf_hash_seq F root_bytes of
             None \<Rightarrow> Inl InvalidHashSeq
           | Some [] \<Rightarrow> Inl MissingMeta
           | Some (meta_hash # links) \<Rightarrow>
               if \<not> child then Inl ExpectedMeta
               else
                 (let (content, sz) = meta_content meta_hash
                  in case read_collection_blob content sz (of_nat (names_limit F (length links))) of
                       Inl e \<Rightarrow> Inl e
                     | Inr names \<Rightarrow>
                         (case cf_count F names of
                            None \<Rightarrow> Inl InvalidMeta
                          | Some count \<Rightarrow>
                              if count \<noteq> length links then Inl LengthMismatch
                              else (case cf_meta F names of
                                      None \<Rightarrow> Inl InvalidMeta
                                    | Some (header_ok, ns) \<Rightarrow>
                                        if \<not> header_ok then Inl InvalidHeader
                                        else (case close_blob fin of
                                                Inl e \<Rightarrow> Inl e
                                              | Inr _ \<Rightarrow> Inr (zip ns links)))))))"

section \<open>Verified content\<close>

text \<open>What Bao guarantees of a leaf: it is the piece of the blob at its offset.\<close>

definition leaf_of :: "bytes \<Rightarrow> u64 \<Rightarrow> bytes \<Rightarrow> bool" where
  "leaf_of blob at_offset data \<longleftrightarrow> unat at_offset + length data \<le> length blob \<and>
     data = byte_slice blob (unat at_offset) (unat at_offset + length data)"

fun read_ok :: "bytes \<Rightarrow> bao_read \<Rightarrow> bool" where
  "read_ok blob (Got (Leaf at_offset data)) = leaf_of blob at_offset data"
| "read_ok blob _ = True"

definition authentic :: "bytes \<Rightarrow> bao_read list \<Rightarrow> bool" where
  "authentic blob content \<longleftrightarrow> length blob < 2 ^ 64 \<and> list_all (read_ok blob) content"

text \<open>The reads that returned before their timeout.\<close>

definition returned :: "bao_read option list \<Rightarrow> bao_read list" where
  "returned content = List.map_filter id content"

lemma returned_simps [simp]:
  "returned [] = []" "returned (None # c) = returned c" "returned (Some r # c) = r # returned c"
  by (simp_all add: returned_def List.map_filter_simps)

lemma slice_append: "a \<le> b \<Longrightarrow> b \<le> c \<Longrightarrow> byte_slice xs a b @ byte_slice xs b c = byte_slice xs a c"
proof -
  assume "a \<le> b" "b \<le> c"
  then have "take (b - a) (drop a xs) @ take (c - b) (drop (b - a) (drop a xs)) = take ((b - a) + (c - b)) (drop a xs)"
    by (simp only: take_add)
  with \<open>a \<le> b\<close> \<open>b \<le> c\<close> show ?thesis by (simp add: byte_slice_def)
qed

lemma slice_same [simp]: "byte_slice xs a a = []"
  by (simp add: byte_slice_def)

lemma length_slice: "b \<le> length xs \<Longrightarrow> length (byte_slice xs a b) = b - a"
  by (auto simp: byte_slice_def)

lemma slice_slice:
  assumes "data = byte_slice xs a (a + n)" "a \<le> s" "s \<le> e" "e \<le> a + n"
  shows "byte_slice data (s - a) (e - a) = byte_slice xs s e"
  using assms by (simp add: byte_slice_def drop_take)

text \<open>The bounds of one leaf inside a range, read at the width of the machine.\<close>

lemma leaf_bounds:
  assumes "leaf_of blob o' data" "length blob < 2 ^ 64"
  shows "unat (max o' s) = max (unat o') (unat s)"
    "unat (min (o' + of_nat (length data)) e) = min (unat o' + length data) (unat e)"
proof -
  have "unat o' + length data < 2 ^ 64" using assms by (simp add: leaf_of_def)
  then have "unat (o' + of_nat (length data)) = unat o' + length data"
    by (simp add: unat_word_ariths unat_of_nat)
  then show "unat (max o' s) = max (unat o') (unat s)"
      "unat (min (o' + of_nat (length data)) e) = min (unat o' + length data) (unat e)"
    by (simp_all add: max_def min_def word_le_nat_alt)
qed

lemma leaf_piece:
  assumes leaf: "leaf_of blob o' data" and blob: "length blob < 2 ^ 64"
    and lt: "max o' s < min (o' + of_nat (length data)) e"
  shows "byte_slice data (unat (max o' s - o')) (unat (min (o' + of_nat (length data)) e - o')) =
    byte_slice blob (unat (max o' s)) (unat (min (o' + of_nat (length data)) e))"
proof -
  note b = leaf_bounds [OF leaf blob]
  have le: "o' \<le> max o' s" by simp
  with lt have le': "o' \<le> min (o' + of_nat (length data)) e" by (meson le_less_trans less_imp_le)
  from lt have lt': "unat (max o' s) < unat (min (o' + of_nat (length data)) e)" by (simp add: word_less_nat_alt)
  show ?thesis
    unfolding unat_sub [OF le] unat_sub [OF le']
    by (rule slice_slice [where n = "length data"])
      (use leaf lt' b in \<open>auto simp: leaf_of_def\<close>)
qed

lemma stream_leaves_slice:
  assumes "authentic blob (returned content)" "stream_leaves rng offset content = (pieces, r)"
    "offset \<le> snd rng"
  shows "\<exists>m. unat offset \<le> m \<and> m \<le> unat (snd rng) \<and> concat pieces = byte_slice blob (unat offset) m \<and>
    (\<forall>o'. r = Inr o' \<longrightarrow> m = unat o')"
  using assms
proof (induction rng offset content arbitrary: pieces r rule: stream_leaves.induct)
  case (5 rng offset o' data content)
  let ?start = "max o' (fst rng)" and ?stop = "min (o' + of_nat (length data)) (snd rng)"
  have leaf: "leaf_of blob o' data" and blob: "length blob < 2 ^ 64" and auth: "authentic blob (returned content)"
    using 5(3) by (auto simp: authentic_def)
  show ?case
  proof (cases "?start < ?stop")
    case lt: True
    show ?thesis
    proof (cases "?start = offset")
      case True
      obtain ps r' where rec: "stream_leaves rng ?stop content = (ps, r')" by fastforce
      have pieces: "pieces = byte_slice data (unat (?start - o')) (unat (?stop - o')) # ps" "r = r'"
        using 5(4) lt True rec by auto
      from 5(1) [OF refl refl lt _ auth rec] True obtain m where
        m: "unat ?stop \<le> m" "m \<le> unat (snd rng)" "concat ps = byte_slice blob (unat ?stop) m"
          "\<forall>o'. r' = Inr o' \<longrightarrow> m = unat o'" by auto
      have "unat offset \<le> unat ?stop" using lt True by (simp add: word_less_nat_alt)
      with m pieces leaf_piece [OF leaf blob lt] True show ?thesis
        by (intro exI [of _ m]) (auto simp: slice_append)
    next
      case False
      with 5(4,5) lt show ?thesis by (auto intro!: exI [of _ "unat offset"] simp: word_le_nat_alt)
    qed
  next
    case False
    with 5(4) have "stream_leaves rng offset content = (pieces, r)" by (auto simp: Let_def split: if_splits)
    from 5(2) [OF refl refl False auth this 5(5)] show ?thesis .
  qed
qed (auto simp: authentic_def word_le_nat_alt)

text \<open>
  Leaves that follow one another without a gap, from the byte \<open>a\<close> to the byte \<open>b\<close>: what a provider
  returns for a contiguous range of chunks.
\<close>

fun tiles :: "nat \<Rightarrow> bao_read option list \<Rightarrow> nat \<Rightarrow> bool" where
  "tiles a [] b \<longleftrightarrow> a = b"
| "tiles a (Some (Got Parent) # content) b \<longleftrightarrow> tiles a content b"
| "tiles a (Some (Got (Leaf at_offset data)) # content) b \<longleftrightarrow>
     unat at_offset = a \<and> tiles (a + length data) content b"
| "tiles a (_ # content) b \<longleftrightarrow> False"

lemma stream_leaves_tiles:
  assumes "authentic blob (returned content)" "tiles a content b" "s \<le> e"
    "unat offset = min (max a (unat s)) (unat e)"
  shows "\<exists>pieces o'. stream_leaves (s, e) offset content = (pieces, Inr o') \<and>
    unat o' = min (max b (unat s)) (unat e)"
  using assms
proof (induction a content b arbitrary: offset rule: tiles.induct)
  case (3 a o' data content b)
  let ?start = "max o' s" and ?stop = "min (o' + of_nat (length data)) e"
  have leaf: "leaf_of blob o' data" and blob: "length blob < 2 ^ 64" and auth: "authentic blob (returned content)"
    using 3(2) by (auto simp: authentic_def)
  note b = leaf_bounds [OF leaf blob]
  have a: "unat o' = a" and tiles: "tiles (a + length data) content b" using 3(3) by auto
  have lt_iff: "?start < ?stop \<longleftrightarrow> max a (unat s) < min (a + length data) (unat e)"
    unfolding word_less_nat_alt b a ..
  have se: "unat s \<le> unat e" using 3(4) by (simp add: word_le_nat_alt)
  show ?case
  proof (cases "?start < ?stop")
    case True
    then have "unat ?start = unat offset" using 3(5) lt_iff by (simp add: b a)
    then have "?start = offset" by (simp only: word_unat_eq_iff)
    moreover have "unat ?stop = min (max (a + length data) (unat s)) (unat e)"
      using True lt_iff by (simp add: b a)
    from 3(1) [OF auth tiles 3(4) this] obtain ps o'' where
      "stream_leaves (s, e) ?stop content = (ps, Inr o'')" "unat o'' = min (max b (unat s)) (unat e)" by blast
    ultimately show ?thesis using True by (simp add: Let_def)
  next
    case False
    then have "unat offset = min (max (a + length data) (unat s)) (unat e)"
      using 3(5) lt_iff se by auto
    from 3(1) [OF auth tiles 3(4) this] False show ?thesis by (auto simp: Let_def)
  qed
qed (auto simp: authentic_def)

lemma stream_content_tiles:
  assumes "authentic blob (returned content)" "tiles a content b" "s \<le> e" "a \<le> unat s" "unat e \<le> b"
  shows "snd (stream_content (s, e) content ClosingOk) = None"
proof -
  have "unat s \<le> unat e" using assms(3) by (simp add: word_le_nat_alt)
  then have "unat s = min (max a (unat s)) (unat e)" using assms(4) by simp
  from stream_leaves_tiles [OF assms(1-3) this] obtain pieces o' where
    r: "stream_leaves (s, e) s content = (pieces, Inr o')" "unat o' = min (max b (unat s)) (unat e)" by blast
  from r(2) assms(5) \<open>unat s \<le> unat e\<close> have "unat o' = unat e" by simp
  then have "o' = e" by (simp only: word_unat_eq_iff)
  with r(1) show ?thesis by (simp add: stream_content_def)
qed

section \<open>Prefixes and components\<close>

lemma take_shorter: "data = take k ys \<Longrightarrow> n \<le> k \<Longrightarrow> take n data = take n ys"
  by (metis min.absorb1 take_take)

lemma take_own_length: "xs = take n ys \<Longrightarrow> xs = take (length xs) ys"
  by (metis append_eq_conv_conj append_take_drop_id)

lemma leaf_of_append:
  assumes "leaf_of blob o' data" "bs = take (length bs) blob" "unat o' = length bs" "n \<le> length data"
  shows "bs @ take n data = take (length bs + n) blob"
proof -
  have "data = byte_slice blob (unat o') (unat o' + length data)" using assms(1) unfolding leaf_of_def by (rule conjunct2)
  then have "data = take (length data) (drop (length bs) blob)"
    unfolding byte_slice_def assms(3) add_diff_cancel_left' .
  then have "take n data = take n (drop (length bs) blob)" using assms(4) by (rule take_shorter)
  then show ?thesis using assms(2) by (metis take_add)
qed

lemma length_u64: "unat (w :: u64) = n \<longleftrightarrow> n < 2 ^ 64 \<and> w = of_nat n"
  using unat_less [of w] by (auto simp: unat_of_nat)

lemma leaf_offset:
  assumes "authentic blob (Got (Leaf o' data) # content)" "o' = of_nat (length bs)" "length bs \<le> length blob"
  shows "unat o' = length bs"
  using assms by (simp add: authentic_def unat_of_nat)

lemma sniff_leaves_prefix:
  assumes "authentic blob content" "sniff_leaves prefix content = Inr out"
    "prefix = take (length prefix) blob" "length prefix \<le> 8192"
  shows "out = take (length out) blob \<and> length out \<le> 8192"
  using assms
proof (induction prefix content rule: sniff_leaves.induct)
  case (4 prefix o' data content)
  let ?stop = "min (unat (saturating_sub SNIFF_BYTES o')) (length data)"
  have leaf: "leaf_of blob o' data" and auth: "authentic blob content" using 4(3) by (auto simp: authentic_def)
  show ?case
  proof (cases "?stop > 0")
    case True
    with 4(4) have o': "o' = of_nat (length prefix)"
      and rec: "sniff_leaves (prefix @ take ?stop data) content = Inr out"
      by (auto simp: Let_def split: if_splits)
    have "length prefix \<le> length blob" using 4(5) by (metis length_take min.cobounded1)
    then have off: "unat o' = length prefix" using leaf_offset [OF 4(3) o'] by simp
    have eq: "prefix @ take ?stop data = take (length prefix + ?stop) blob"
      by (rule leaf_of_append [OF leaf 4(5) off]) simp
    then have "prefix @ take ?stop data = take (length (prefix @ take ?stop data)) blob" by (rule take_own_length)
    moreover have "length (prefix @ take ?stop data) \<le> 8192"
      using off 4(6) by (auto simp: unat_saturating_sub SNIFF_BYTES_def)
    ultimately show ?thesis using 4(1) [OF refl True _ auth rec] o' by blast
  next
    case False
    with 4(4) have "sniff_leaves prefix content = Inr out" by (auto simp: Let_def split: if_splits)
    from 4(2) [OF refl False auth this 4(5,6)] show ?thesis .
  qed
qed (auto simp: authentic_def)

text \<open>The prefix is the start of the blob, cut at the size the provider reported or 8192 bytes.\<close>

lemma sniff_exact:
  assumes "authentic blob content" "sniff content fin sz = Inr (sz', prefix)"
  shows "sz' = sz \<and> prefix = take (min (unat sz) 8192) blob"
proof -
  have s: "sniff_leaves [] content = Inr prefix" "sz' = sz" "of_nat (length prefix) = min sz SNIFF_BYTES"
    using assms(2) by (auto simp: sniff_def split: sum.splits if_splits)
  from sniff_leaves_prefix [OF assms(1) s(1)] have p: "prefix = take (length prefix) blob" "length prefix \<le> 8192" by auto
  have "unat (of_nat (length prefix) :: u64) = length prefix" using p(2) by (simp add: unat_of_nat)
  then have "length prefix = min (unat sz) 8192"
    using s(3) by (simp add: min_def word_le_nat_alt SNIFF_BYTES_def split: if_splits)
  with p s show ?thesis by metis
qed

lemma component_leaves_prefix:
  assumes "authentic blob content" "component_leaves limit bs content = Inr out"
    "bs = take (length bs) blob" "length bs \<le> unat limit"
  shows "out = take (length out) blob \<and> length out \<le> unat limit"
  using assms
proof (induction limit bs content rule: component_leaves.induct)
  case (4 limit bs o' data content)
  have leaf: "leaf_of blob o' data" and auth: "authentic blob content" and blob: "length blob < 2 ^ 64"
    using 4(2) by (auto simp: authentic_def)
  have o': "o' = of_nat (length bs)" and le: "of_nat (length data) \<le> limit - of_nat (length bs)"
    and rec: "component_leaves limit (bs @ data) content = Inr out"
    using 4(3) by (auto split: if_splits)
  have len: "length bs \<le> length blob" using 4(4) by (metis length_take min.cobounded1)
  then have off: "unat o' = length bs" using leaf_offset [OF 4(2) o'] by simp
  have eq: "bs @ data = take (length bs + length data) blob"
    using leaf_of_append [OF leaf 4(4) off, of "length data"] by simp
  have u: "unat (of_nat (length bs) :: u64) = length bs" "unat (of_nat (length data) :: u64) = length data"
    using len blob leaf by (auto simp: unat_of_nat leaf_of_def)
  then have "unat (limit - of_nat (length bs)) = unat limit - length bs"
    using 4(5) unat_sub [of "of_nat (length bs)" limit] by (simp add: word_le_nat_alt)
  then have "length (bs @ data) \<le> unat limit" using le u 4(5) by (simp add: word_le_nat_alt)
  moreover have "bs @ data = take (length (bs @ data)) blob" using eq by (rule take_own_length)
  ultimately show ?case using 4(1) [OF _ _ auth rec] o' le by blast
qed (auto simp: authentic_def)

text \<open>A component of a collection is read whole and never beyond its limit.\<close>

lemma read_collection_blob_exact:
  assumes "authentic blob content" "read_collection_blob content sz limit = Inr bs"
  shows "length bs = unat sz \<and> length bs \<le> unat limit \<and> bs = take (unat sz) blob"
proof -
  have c: "component_leaves limit [] content = Inr bs" "of_nat (length bs) = sz"
    using assms(2) by (auto simp: read_collection_blob_def split: sum.splits if_splits)
  from component_leaves_prefix [OF assms(1) c(1)] have p: "bs = take (length bs) blob" "length bs \<le> unat limit" by auto
  have "length bs < 2 ^ 64" using p(2) unat_less [of limit] by simp
  then have "length bs = unat sz" using c(2) by (metis length_u64)
  with p show ?thesis by metis
qed

section \<open>Properties\<close>

text \<open>
  The body of a response is the requested bytes. Whatever verified pieces the provider
  returns, in whatever order and however often, the bytes streamed are a prefix of the requested
  slice of the blob, and a body that ends without an error is exactly that slice. A provider that
  returns the pieces of a contiguous part of the blob that includes the range, and closes, is
  streamed to the end without an error.
\<close>

theorem stream_content_exact:
  assumes "authentic blob (returned content)" "s \<le> e" "unat e \<le> length blob"
    "stream_content (s, e) content fin = (pieces, err)"
  shows "(\<exists>m \<le> unat e. concat pieces = byte_slice blob (unat s) m) \<and>
    (err = None \<longrightarrow> concat pieces = byte_slice blob (unat s) (unat e)) \<and>
    (\<forall>a b. tiles a content b \<and> a \<le> unat s \<and> unat e \<le> b \<and> fin = ClosingOk \<longrightarrow> err = None)"
proof (intro conjI impI allI)
  obtain r where r: "stream_leaves (s, e) s content = (pieces, r)"
    using assms(4) by (auto simp: stream_content_def split: prod.splits)
  from stream_leaves_slice [OF assms(1) r] assms(2) obtain m where
    m: "m \<le> unat e" "concat pieces = byte_slice blob (unat s) m" "\<forall>o'. r = Inr o' \<longrightarrow> m = unat o'" by auto
  then show "\<exists>m \<le> unat e. concat pieces = byte_slice blob (unat s) m" by blast
  have err: "err = None \<longleftrightarrow> r = Inr e \<and> fin = ClosingOk"
    using assms(4) r by (auto simp: stream_content_def split: sum.splits if_splits blob_end.splits)
  show "concat pieces = byte_slice blob (unat s) (unat e)" if "err = None"
    using that err m by auto
  show "err = None" if "tiles a content b \<and> a \<le> unat s \<and> unat e \<le> b \<and> fin = ClosingOk" for a b
    using stream_content_tiles [OF assms(1) _ assms(2)] that assms(4) by (metis snd_conv)
qed

end
