(* ===== verification/Gateway_Serve.thy ===== *)
theory Gateway_Serve
  imports Blob_Stream
begin

text \<open>
  Responses with blob content, \<open>serve_blob\<close> of \<open>iroh-link-gateway/src/lib.rs\<close>: validators, byte
  ranges, multipart bodies and their announced length. The boundary is the random string the
  code draws; what the provider returns for a range of chunks is the argument \<open>fetch\<close>.
\<close>

section \<open>Model\<close>

datatype http_method = GET | HEAD

record source =
  src_size :: u64
  src_mime :: string

text \<open>A header value that is not text is \<open>None\<close>.\<close>

record request_headers =
  if_none_match :: "string option list"
  if_range :: "string option"
  range_headers :: "string option list"

datatype body = EmptyBody | TextBody string | Streamed "bytes list" "stream_error option"

record response =
  rs_status :: nat
  rs_headers :: "(string \<times> string) list"
  rs_body :: body

datatype start_result = StartTimeout | StartError | Started "bao_read option list" blob_end u64

record chunk_ops =
  full_chunks :: "u64 \<Rightarrow> u64"
  num_chunks :: "u64 \<Rightarrow> u64"

definition crlf :: string where "crlf = [CHR 0x0D, CHR 0x0A]"

definition number_text :: "u64 \<Rightarrow> string" where "number_text n = decimal (unat n)"

definition part_header :: "source \<Rightarrow> range \<Rightarrow> string \<Rightarrow> string" where
  "part_header src rng boundary =
     ''--'' @ boundary @ crlf @ ''Content-Type: '' @ src_mime src @ crlf @
     ''Content-Range: bytes '' @ number_text (fst rng) @ ''-'' @ number_text (snd rng - 1) @ ''/'' @
     number_text (src_size src) @ crlf @ crlf"

definition closing_delimiter :: "string \<Rightarrow> string" where
  "closing_delimiter boundary = ''--'' @ boundary @ ''--'' @ crlf"

definition checked_add :: "u64 \<Rightarrow> u64 \<Rightarrow> u64 option" where
  "checked_add a b = (if unat a + unat b < 2 ^ 64 then Some (a + b) else None)"

fun add_parts :: "source \<Rightarrow> string \<Rightarrow> range list \<Rightarrow> u64 \<Rightarrow> u64 option" where
  "add_parts src boundary [] acc = Some acc"
| "add_parts src boundary (rng # ranges) acc =
     Option.bind (checked_add acc (of_nat (length (part_header src rng boundary)))) (\<lambda>t.
     Option.bind (checked_add t (snd rng - fst rng)) (\<lambda>t.
     Option.bind (checked_add t 2) (\<lambda>t. add_parts src boundary ranges t)))"

definition multipart_length :: "source \<Rightarrow> range list \<Rightarrow> string \<Rightarrow> u64 option" where
  "multipart_length src ranges boundary =
     add_parts src boundary ranges (of_nat (length (closing_delimiter boundary)))"

definition chunks_for :: "chunk_ops \<Rightarrow> range \<Rightarrow> u64 \<times> u64" where
  "chunks_for C rng = (full_chunks C (fst rng), num_chunks C (snd rng))"

fun multipart_content :: "chunk_ops \<Rightarrow> (u64 \<times> u64 \<Rightarrow> start_result) \<Rightarrow> source \<Rightarrow> string \<Rightarrow> range list \<Rightarrow>
    bytes list \<times> stream_error option" where
  "multipart_content C fetch src boundary [] = ([ascii (closing_delimiter boundary)], None)"
| "multipart_content C fetch src boundary (rng # ranges) =
     (case fetch (chunks_for C rng) of
        StartTimeout \<Rightarrow> ([], Some StartElapsed)
      | StartError \<Rightarrow> ([], Some StartFailed)
      | Started content fin sz \<Rightarrow>
          if sz \<noteq> src_size src then ([], Some SizeChanged)
          else
            (let (pieces, err) = stream_content rng content fin
             in case err of
                  Some e \<Rightarrow> (ascii (part_header src rng boundary) # pieces, Some e)
                | None \<Rightarrow>
                    (let (more, err) = multipart_content C fetch src boundary ranges
                     in (ascii (part_header src rng boundary) # pieces @ ascii crlf # more, err))))"

definition etag :: "string \<Rightarrow> string" where "etag encoded = quot @ encoded @ quot"

text \<open>\<open>If-None-Match\<close>: a comma-separated list of weak or strong tags, or a star.\<close>

definition not_modified :: "string \<Rightarrow> string option list \<Rightarrow> bool" where
  "not_modified tag values =
     list_ex (\<lambda>v. case v of None \<Rightarrow> False
       | Some h \<Rightarrow> list_ex (\<lambda>h. trim h = ''*'' \<or>
           (case strip_prefix ''W/'' (trim h) of None \<Rightarrow> trim h | Some t \<Rightarrow> t) = tag) (split_on CHR '','' h)) values"

definition choose_selection :: "string \<Rightarrow> http_method \<Rightarrow> request_headers \<Rightarrow> u64 \<Rightarrow> selection" where
  "choose_selection tag method headers sz =
     (if method = HEAD \<or> (case if_range headers of None \<Rightarrow> False | Some v \<Rightarrow> v \<noteq> tag) then SelFull
      else select (case range_headers headers of [h] \<Rightarrow> h | _ \<Rightarrow> None) sz)"

definition base_headers :: "((char \<Rightarrow> bool) \<Rightarrow> string \<Rightarrow> string) \<Rightarrow> source \<Rightarrow> string \<Rightarrow> string option \<Rightarrow> caching \<Rightarrow>
    (string \<times> string) list" where
  "base_headers pct src encoded download c =
     [(''content-type'', src_mime src), (''accept-ranges'', ''bytes''), (''etag'', etag encoded),
      (''cache-control'', caching_header c), (''x-content-type-options'', ''nosniff'')] @
     (case download of None \<Rightarrow> [] | Some filename \<Rightarrow> [(''content-disposition'', attachment pct filename)])"

definition UPSTREAM :: http_error where "UPSTREAM = HttpError 502 ''provider lookup or transfer failed''"
definition TIMEOUT_ERROR :: http_error where "TIMEOUT_ERROR = HttpError 504 ''provider lookup or transfer timed out''"

text \<open>The end of the handler, for one range: its body is fetched unless nothing is to be sent.\<close>

definition serve_range :: "chunk_ops \<Rightarrow> (u64 \<times> u64 \<Rightarrow> start_result) \<Rightarrow> source \<Rightarrow> http_method \<Rightarrow> nat \<Rightarrow>
    (string \<times> string) list \<Rightarrow> range \<Rightarrow> http_error + response" where
  "serve_range C fetch src method status headers rng =
     (let headers = headers @ [(''content-length'', number_text (snd rng - fst rng))] in
      if method = HEAD \<or> \<not> fst rng < snd rng then
        Inr \<lparr>rs_status = status, rs_headers = headers, rs_body = EmptyBody\<rparr>
      else (case fetch (chunks_for C rng) of
              StartTimeout \<Rightarrow> Inl TIMEOUT_ERROR
            | StartError \<Rightarrow> Inl UPSTREAM
            | Started content fin sz \<Rightarrow>
                if sz \<noteq> src_size src then Inl (HttpError 502 ''provider changed blob size'')
                else (let (pieces, err) = stream_content rng content fin
                      in Inr \<lparr>rs_status = status, rs_headers = headers, rs_body = Streamed pieces err\<rparr>)))"

definition serve_blob :: "((char \<Rightarrow> bool) \<Rightarrow> string \<Rightarrow> string) \<Rightarrow> chunk_ops \<Rightarrow> (u64 \<times> u64 \<Rightarrow> start_result) \<Rightarrow>
    string \<Rightarrow> source \<Rightarrow> string \<Rightarrow> string option \<Rightarrow> caching \<Rightarrow> http_method \<Rightarrow> request_headers \<Rightarrow>
    http_error + response" where
  "serve_blob pct C fetch boundary src encoded download c method headers =
     (let tag = etag encoded;
          base = base_headers pct src encoded download c
      in if not_modified tag (if_none_match headers) then
           Inr \<lparr>rs_status = 304, rs_headers = base, rs_body = EmptyBody\<rparr>
         else case choose_selection tag method headers (src_size src) of
           Unsatisfiable \<Rightarrow>
             Inr \<lparr>rs_status = 416,
                  rs_headers = [(''content-range'', ''bytes */'' @ number_text (src_size src)),
                                (''accept-ranges'', ''bytes''), (''cache-control'', ''no-store'')],
                  rs_body = EmptyBody\<rparr>
         | SelFull \<Rightarrow> serve_range C fetch src method 200 base (0, src_size src)
         | SelPartial ranges \<Rightarrow>
             if length ranges > 1 then
               (case multipart_length src ranges boundary of
                  None \<Rightarrow> Inl (HttpError 400 ''multipart response too large'')
                | Some n \<Rightarrow>
                    (let (pieces, err) = multipart_content C fetch src boundary ranges
                     in Inr \<lparr>rs_status = 206,
                             rs_headers = filter (\<lambda>(name, _). name \<noteq> ''content-type'') base @
                               [(''content-type'', ''multipart/byteranges; boundary='' @ boundary),
                                (''content-length'', number_text n)],
                             rs_body = Streamed pieces err\<rparr>))
             else
               (let rng = last ranges
                in serve_range C fetch src method 206
                     (base @ [(''content-range'', ''bytes '' @ number_text (fst rng) @ ''-'' @
                        number_text (snd rng - 1) @ ''/'' @ number_text (src_size src))]) rng))"

section \<open>Lengths\<close>

definition part_body :: "bytes \<Rightarrow> source \<Rightarrow> string \<Rightarrow> range \<Rightarrow> bytes" where
  "part_body blob src boundary rng =
     ascii (part_header src rng boundary) @ byte_slice blob (unat (fst rng)) (unat (snd rng)) @ ascii crlf"

definition multipart_body :: "bytes \<Rightarrow> source \<Rightarrow> string \<Rightarrow> range list \<Rightarrow> bytes" where
  "multipart_body blob src boundary ranges =
     concat (map (part_body blob src boundary) ranges) @ ascii (closing_delimiter boundary)"

lemma length_crlf [simp]: "length crlf = 2"
  by (simp add: crlf_def)

lemma part_header_short:
  assumes "length (src_mime src) + length boundary < 2 ^ 32"
  shows "length (part_header src rng boundary) < 2 ^ 33"
proof -
  have "length (part_header src rng boundary) =
      47 + length boundary + length (src_mime src) + length (decimal (unat (fst rng))) +
      length (decimal (unat (snd rng - 1))) + length (decimal (unat (src_size src)))"
    by (simp add: part_header_def number_text_def)
  with assms length_decimal_u64 [of "fst rng"] length_decimal_u64 [of "snd rng - 1"] length_decimal_u64 [of "src_size src"]
  show ?thesis by simp
qed

lemma checked_add_Some: "checked_add a b = Some c \<Longrightarrow> unat c = unat a + unat b"
  by (auto simp: checked_add_def unat_word_ariths split: if_splits)

lemma add_parts_length:
  assumes "add_parts src boundary ranges acc = Some n" "proper sz ranges" "unat sz \<le> length blob"
    "length (src_mime src) + length boundary < 2 ^ 32"
  shows "unat n = unat acc + length (concat (map (part_body blob src boundary) ranges))"
  using assms
proof (induction src boundary ranges acc rule: add_parts.induct)
  case (2 src boundary rng ranges acc)
  then obtain t u v where steps: "checked_add acc (of_nat (length (part_header src rng boundary))) = Some t"
      "checked_add t (snd rng - fst rng) = Some u" "checked_add u 2 = Some v" "add_parts src boundary ranges v = Some n"
    by (auto simp: bind_eq_Some_conv)
  have r: "fst rng < snd rng" "snd rng \<le> sz" "proper sz ranges" using 2(3) by (simp_all add: proper_simps)
  have "unat (of_nat (length (part_header src rng boundary)) :: u64) = length (part_header src rng boundary)"
    using part_header_short [OF 2(5), of rng] by (simp add: unat_of_nat)
  moreover have "unat (snd rng - fst rng) = unat (snd rng) - unat (fst rng)"
    using r(1) by (simp add: unat_sub less_imp_le)
  moreover have "unat (snd rng) \<le> length blob" using r(2) 2(4) by (simp add: word_le_nat_alt)
  ultimately have "unat v = unat acc + length (part_body blob src boundary rng)"
    using steps(1-3) [THEN checked_add_Some] by (simp add: part_body_def length_slice)
  with 2(1) [OF steps(1-4) r(3) 2(4,5)] show ?case by simp
qed simp

lemma multipart_length_exact:
  assumes "multipart_length src ranges boundary = Some n" "proper sz ranges" "unat sz \<le> length blob"
    "length (src_mime src) + length boundary < 2 ^ 32"
  shows "unat n = length (multipart_body blob src boundary ranges)"
proof -
  have "length (closing_delimiter boundary) < 2 ^ 64" using assms(4) by (simp add: closing_delimiter_def)
  then have "unat (of_nat (length (closing_delimiter boundary)) :: u64) = length (closing_delimiter boundary)"
    by (simp add: unat_of_nat)
  with add_parts_length [OF _ assms(2-4), of "of_nat (length (closing_delimiter boundary))" n] assms(1)
  show ?thesis by (simp add: multipart_length_def multipart_body_def)
qed

section \<open>Bodies\<close>

text \<open>Every answer of the provider holds verified pieces of the blob.\<close>

definition authentic_provider :: "bytes \<Rightarrow> (u64 \<times> u64 \<Rightarrow> start_result) \<Rightarrow> bool" where
  "authentic_provider blob fetch \<longleftrightarrow>
     (\<forall>c content fin sz. fetch c = Started content fin sz \<longrightarrow> authentic blob (returned content))"

lemma stream_content_done:
  assumes "authentic blob (returned content)" "fst rng \<le> snd rng" "stream_content rng content fin = (pieces, None)"
  shows "concat pieces = byte_slice blob (unat (fst rng)) (unat (snd rng))"
proof -
  obtain o' where "stream_leaves rng (fst rng) content = (pieces, Inr o')" "o' = snd rng"
    using assms(3) by (auto simp: stream_content_def split: prod.splits sum.splits if_splits)
  with stream_leaves_slice [OF assms(1) this(1) assms(2)] show ?thesis by auto
qed

lemma multipart_content_done:
  assumes "authentic_provider blob fetch" "proper sz ranges"
    "multipart_content C fetch src boundary ranges = (pieces, None)"
  shows "concat pieces = multipart_body blob src boundary ranges"
  using assms(2,3)
proof (induction ranges arbitrary: pieces)
  case (Cons rng ranges)
  obtain content fin ps more where
    parts: "fetch (chunks_for C rng) = Started content fin (src_size src)" "stream_content rng content fin = (ps, None)"
      "multipart_content C fetch src boundary ranges = (more, None)"
      "pieces = ascii (part_header src rng boundary) # ps @ ascii crlf # more"
    using Cons.prems(2)
    by (auto split: start_result.splits if_splits prod.splits option.splits)
  have r: "fst rng \<le> snd rng" "proper sz ranges" using Cons.prems(1) by (auto simp: proper_simps)
  have "authentic blob (returned content)" using assms(1) parts(1) unfolding authentic_provider_def by blast
  from stream_content_done [OF this r(1) parts(2)] Cons.IH [OF r(2) parts(3)] parts(4)
  show ?case by (simp add: multipart_body_def part_body_def)
qed (auto simp: multipart_body_def)

text \<open>What the body of a response to \<open>GET\<close> should hold for each selection.\<close>

fun selected_body :: "bytes \<Rightarrow> source \<Rightarrow> string \<Rightarrow> selection \<Rightarrow> bytes" where
  "selected_body blob src boundary SelFull = blob"
| "selected_body blob src boundary (SelPartial [rng]) = byte_slice blob (unat (fst rng)) (unat (snd rng))"
| "selected_body blob src boundary (SelPartial ranges) = multipart_body blob src boundary ranges"
| "selected_body blob src boundary Unsatisfiable = []"

lemma serve_range_body:
  assumes "authentic_provider blob fetch" "fst rng \<le> snd rng" "unat (snd rng) \<le> length blob"
    "serve_range C fetch src method status headers rng = Inr resp"
    "map_of headers ''content-length'' = None"
  shows "rs_status resp = status \<and>
    map_of (rs_headers resp) ''content-length'' = Some (decimal (unat (snd rng) - unat (fst rng))) \<and>
    (\<forall>pieces. rs_body resp = Streamed pieces None \<longrightarrow>
       concat pieces = byte_slice blob (unat (fst rng)) (unat (snd rng))) \<and>
    (rs_body resp = EmptyBody \<longleftrightarrow> method = HEAD \<or> fst rng = snd rng)"
proof -
  have sub: "unat (snd rng - fst rng) = unat (snd rng) - unat (fst rng)" using assms(2) by (rule unat_sub)
  show ?thesis
  proof (cases "method = HEAD \<or> \<not> fst rng < snd rng")
    case True
    with assms(2,4,5) sub show ?thesis
      by (auto simp: serve_range_def number_text_def map_add_def)
  next
    case False
    then obtain content fin pieces err where
      f: "fetch (chunks_for C rng) = Started content fin (src_size src)" "stream_content rng content fin = (pieces, err)"
        "resp = \<lparr>rs_status = status, rs_headers = headers @ [(''content-length'', number_text (snd rng - fst rng))],
          rs_body = Streamed pieces err\<rparr>"
      using assms(4) by (auto simp: serve_range_def Let_def split: start_result.splits if_splits prod.splits)
    have "authentic blob (returned content)" using assms(1) f(1) unfolding authentic_provider_def by blast
    from stream_content_done [OF this assms(2)] f False assms(5) sub show ?thesis
      by (auto simp: number_text_def map_add_def)
  qed
qed

lemma base_headers_length [simp]:
  "map_of (base_headers pct src encoded download c) ''content-length'' = None"
  "map_of (filter (\<lambda>(name, _). name \<noteq> ''content-type'') (base_headers pct src encoded download c)) ''content-length'' = None"
  by (auto simp: base_headers_def split: option.split)

lemma byte_slice_all: "n = length xs \<Longrightarrow> byte_slice xs 0 n = xs"
  by (simp add: byte_slice_def)

section \<open>What a response carries\<close>

lemma serve_blob_body:
  assumes "authentic_provider blob fetch" "unat (src_size src) = length blob"
    "length (src_mime src) + length boundary < 2 ^ 32"
    "serve_blob pct C fetch boundary src encoded download c method headers = Inr resp"
  shows "(rs_status resp \<in> {200, 206} \<and>
      map_of (rs_headers resp) ''content-length'' = Some (decimal (length
        (selected_body blob src boundary (choose_selection (etag encoded) method headers (src_size src))))) \<and>
      (\<forall>pieces. rs_body resp = Streamed pieces None \<longrightarrow> concat pieces =
        selected_body blob src boundary (choose_selection (etag encoded) method headers (src_size src))) \<and>
      (rs_body resp = EmptyBody \<longleftrightarrow> method = HEAD \<or> blob = [])) \<or>
    rs_status resp = 304 \<and> not_modified (etag encoded) (if_none_match headers) \<and> rs_body resp = EmptyBody \<or>
    rs_status resp = 416 \<and> choose_selection (etag encoded) method headers (src_size src) = Unsatisfiable \<and>
      rs_body resp = EmptyBody"
proof (cases "not_modified (etag encoded) (if_none_match headers)")
  case True
  then show ?thesis using assms(4) by (auto simp: serve_blob_def Let_def)
next
  case nm: False
  let ?base = "base_headers pct src encoded download c"
  show ?thesis
  proof (cases "choose_selection (etag encoded) method headers (src_size src)")
    case SelFull
    then have "serve_range C fetch src method 200 ?base (0, src_size src) = Inr resp"
      using assms(4) nm by (simp add: serve_blob_def)
    from serve_range_body [OF assms(1) _ _ this] assms(2) SelFull show ?thesis
      by (auto simp: byte_slice_all unat_eq_0)
  next
    case (SelPartial ranges)
    then have get: "method \<noteq> HEAD" and "\<exists>v. select v (src_size src) = SelPartial ranges"
      by (auto simp: choose_selection_def split: if_splits)
    then have ne: "ranges \<noteq> []" and pr: "proper (src_size src) ranges" using select_proper by blast+
    have blob: "blob \<noteq> []"
      using ne pr assms(2) by (cases ranges) (auto simp: proper_simps word_less_nat_alt word_le_nat_alt)
    show ?thesis
    proof (cases "length ranges > 1")
      case True
      then obtain r1 r2 rs where rs: "ranges = r1 # r2 # rs"
        by (metis One_nat_def Suc_less_eq length_Cons list.exhaust list.size(3) not_less_zero ne)
      obtain n pieces err where f: "multipart_length src ranges boundary = Some n"
          "multipart_content C fetch src boundary ranges = (pieces, err)"
          "rs_status resp = 206" "rs_body resp = Streamed pieces err"
          "map_of (rs_headers resp) ''content-length'' = Some (number_text n)"
        using assms(4) nm SelPartial True
        by (auto simp: serve_blob_def Let_def map_add_def split: option.splits prod.splits)
      have "unat n = length (multipart_body blob src boundary ranges)"
        using multipart_length_exact [OF f(1) pr _ assms(3)] assms(2) by simp
      with f multipart_content_done [OF assms(1) pr] SelPartial rs get blob show ?thesis
        by (auto simp: number_text_def)
    next
      case False
      with ne obtain rng where rng: "ranges = [rng]" by (cases ranges) auto
      have r: "fst rng < snd rng" "unat (snd rng) \<le> length blob"
        using pr assms(2) by (auto simp: rng proper_simps word_le_nat_alt)
      obtain hs where hs: "serve_range C fetch src method 206 hs rng = Inr resp" "map_of hs ''content-length'' = None"
        using assms(4) nm SelPartial by (auto simp: serve_blob_def rng Let_def map_add_def)
      from serve_range_body [OF assms(1) less_imp_le [OF r(1)] r(2) hs] r SelPartial get blob show ?thesis
        by (auto simp: rng length_slice)
    qed
  next
    case Unsatisfiable
    then show ?thesis using assms(4) nm by (auto simp: serve_blob_def Let_def)
  qed
qed

text \<open>A request without conditions and ranges gets the whole blob, when the provider streams it.\<close>

definition plain_request :: "request_headers \<Rightarrow> bool" where
  "plain_request headers \<longleftrightarrow> if_none_match headers = [] \<and> if_range headers = None \<and> range_headers headers = []"

definition streams_blob :: "chunk_ops \<Rightarrow> bytes \<Rightarrow> (u64 \<times> u64 \<Rightarrow> start_result) \<Rightarrow> u64 \<Rightarrow> bool" where
  "streams_blob C blob fetch sz \<longleftrightarrow>
     (\<exists>content b. fetch (chunks_for C (0, sz)) = Started content ClosingOk sz \<and> tiles 0 content b \<and> length blob \<le> b)"

lemma serve_blob_plain:
  assumes "authentic_provider blob fetch" "unat (src_size src) = length blob" "plain_request headers"
    "streams_blob C blob fetch (src_size src)"
  shows "\<exists>resp. serve_blob pct C fetch boundary src encoded download c GET headers = Inr resp \<and> rs_status resp = 200 \<and>
    (blob = [] \<longrightarrow> rs_body resp = EmptyBody) \<and>
    map_of (rs_headers resp) ''content-type'' = Some (src_mime src) \<and>
    map_of (rs_headers resp) ''content-length'' = Some (decimal (length blob)) \<and>
    (blob \<noteq> [] \<longrightarrow> (\<exists>pieces. rs_body resp = Streamed pieces None \<and> concat pieces = blob))"
proof -
  let ?rng = "(0, src_size src)"
  have sel: "choose_selection (etag encoded) GET headers (src_size src) = SelFull" "\<not> not_modified (etag encoded) (if_none_match headers)"
    using assms(3) by (simp_all add: plain_request_def choose_selection_def select_def not_modified_def)
  then have serve: "serve_blob pct C fetch boundary src encoded download c GET headers =
      serve_range C fetch src GET 200 (base_headers pct src encoded download c) ?rng"
    by (simp add: serve_blob_def)
  obtain content b where f: "fetch (chunks_for C ?rng) = Started content ClosingOk (src_size src)"
      "tiles 0 content b" "length blob \<le> b"
    using assms(4) unfolding streams_blob_def by blast
  have auth: "authentic blob (returned content)" using assms(1) f(1) unfolding authentic_provider_def by blast
  have "snd (stream_content ?rng content ClosingOk) = None"
    by (rule stream_content_tiles [OF auth f(2)]) (use f(3) assms(2) in simp_all)
  then obtain pieces where pieces: "stream_content ?rng content ClosingOk = (pieces, None)" by (metis prod.collapse)
  from stream_content_done [OF auth _ this] assms(2) have "concat pieces = blob" by (simp add: byte_slice_all)
  moreover have "0 < src_size src \<longleftrightarrow> blob \<noteq> []" using assms(2) by (auto simp: word_less_nat_alt)
  ultimately show ?thesis
    unfolding serve serve_range_def using f(1) pieces assms(2)
    by (auto simp: Let_def number_text_def map_add_def base_headers_def split: option.split)
qed

text \<open>
  C36. A response says how long its body is and carries exactly the selected bytes. For every
  response of status 200 or 206 the announced length is that of the selected content: the whole
  blob, one slice of it, or the multipart body with a delimiter and header for each part; and a
  body that ends without an error is exactly that content. Only \<open>HEAD\<close> requests and empty blobs
  get no body. Every other response is 304, for a matching validator, or 416, for ranges outside
  the blob.
\<close>

theorem serve_blob_exact:
  assumes "authentic_provider blob fetch" "unat (src_size src) = length blob"
    "length (src_mime src) + length boundary < 2 ^ 32"
    "serve_blob pct C fetch boundary src encoded download c method headers = Inr resp"
  shows "(rs_status resp \<in> {200, 206} \<and>
      map_of (rs_headers resp) ''content-length'' = Some (decimal (length
        (selected_body blob src boundary (choose_selection (etag encoded) method headers (src_size src))))) \<and>
      (\<forall>pieces. rs_body resp = Streamed pieces None \<longrightarrow> concat pieces =
        selected_body blob src boundary (choose_selection (etag encoded) method headers (src_size src))) \<and>
      (rs_body resp = EmptyBody \<longleftrightarrow> method = HEAD \<or> blob = [])) \<or>
    rs_status resp = 304 \<and> not_modified (etag encoded) (if_none_match headers) \<and> rs_body resp = EmptyBody \<or>
    rs_status resp = 416 \<and> choose_selection (etag encoded) method headers (src_size src) = Unsatisfiable \<and>
      rs_body resp = EmptyBody"
  by (rule serve_blob_body [OF assms])

definition sample_chunks :: chunk_ops where
  "sample_chunks = \<lparr>full_chunks = (\<lambda>n. n div 1024), num_chunks = (\<lambda>n. (n + 1023) div 1024)\<rparr>"

definition sample_fetch :: "u64 \<times> u64 \<Rightarrow> start_result" where
  "sample_fetch c = Started [Some (Got (Leaf 0 [1, 2, 3, 4]))] ClosingOk 4"

definition sample_request :: request_headers where
  "sample_request = \<lparr>if_none_match = [], if_range = None, range_headers = []\<rparr>"

theorem serve_blob_exact_witness:
  "\<exists>resp. serve_blob pct_reference sample_chunks sample_fetch ''b'' \<lparr>src_size = 4, src_mime = ''text/plain''\<rparr> ''h'' None
      Immutable GET sample_request = Inr resp \<and>
    map_of (rs_headers resp) ''content-length'' = Some (decimal (length [1 :: u8, 2, 3, 4])) \<and>
    (\<exists>pieces. rs_body resp = Streamed pieces None \<and> concat pieces = [1, 2, 3, 4])"
proof -
  let ?src = "\<lparr>src_size = 4, src_mime = ''text/plain''\<rparr>"
  have auth: "authentic_provider [1, 2, 3, 4] sample_fetch"
    by (auto simp: authentic_provider_def sample_fetch_def authentic_def leaf_of_def byte_slice_def)
  have sel: "choose_selection (etag ''h'') GET sample_request 4 = SelFull"
    by (simp add: choose_selection_def sample_request_def select_def)
  obtain resp where resp: "serve_blob pct_reference sample_chunks sample_fetch ''b'' ?src ''h'' None
      Immutable GET sample_request = Inr resp" "rs_status resp = 200" "\<exists>pieces. rs_body resp = Streamed pieces None"
    using sel by (simp add: serve_blob_def serve_range_def not_modified_def sample_request_def sample_fetch_def
        stream_content_def byte_slice_def)
  from resp(3) obtain pieces where p: "rs_body resp = Streamed pieces None" by blast
  have "map_of (rs_headers resp) ''content-length'' = Some (decimal (length [1 :: u8, 2, 3, 4]))" "concat pieces = [1, 2, 3, 4]"
    using serve_blob_exact [OF auth _ _ resp(1)] resp(2) p sel by simp_all
  with resp(1) p show ?thesis by blast
qed

end
