(* ===== verification/Gateway_Providers.thy ===== *)
theory Gateway_Providers
  imports Gateway_Collections Lru
begin

text \<open>
  Which endpoints the gateway asks for a hash: the cache of verified providers and failed lookups
  (\<open>provider_cache.rs\<close>), the providers that links name (\<open>hints.rs\<close>), and the race of probes
  (\<open>providers.rs\<close>), all under \<open>iroh-link-gateway/src/\<close>. The caches work on the interface of \<open>Lru\<close>; the
  clock is an argument.
\<close>

type_synonym endpoint_id = bytes

section \<open>The provider cache\<close>

definition PROVIDER_TTL :: duration where "PROVIDER_TTL = secs (5 * 60)"
definition MISS_TTL :: duration where "MISS_TTL = secs 5"
definition MAX_PROVIDERS :: usize where "MAX_PROVIDERS = 4"

record probed =
  probed_at :: instant
  probed_latency :: duration

datatype miss = MissNotFound | MissTimedOut

record provider_entry =
  pe_providers :: "(endpoint_id \<times> probed) list"
  pe_missing :: "(miss \<times> instant) option"

definition entry_default :: provider_entry where
  "entry_default = \<lparr>pe_providers = [], pe_missing = None\<rparr>"

type_synonym 'c provider_lru = "('c, hash, provider_entry) lru_ops"

definition retain_fresh :: "instant \<Rightarrow> provider_entry \<Rightarrow> provider_entry" where
  "retain_fresh now e =
     e\<lparr>pe_providers := filter (\<lambda>(_, probed). now - probed_at probed < PROVIDER_TTL) (pe_providers e)\<rparr>"

definition pc_providers :: "'c provider_lru \<Rightarrow> hash \<Rightarrow> instant \<Rightarrow> 'c \<Rightarrow> (endpoint_id \<times> probed) list \<times> 'c" where
  "pc_providers L hash now c =
     (case lru_peek L c hash of
        None \<Rightarrow> ([], c)
      | Some e \<Rightarrow>
          (sort_key (\<lambda>(_, probed). probed_latency probed) (pe_providers (retain_fresh now e)),
           lru_get_mut L hash (retain_fresh now) c))"

definition drop_provider :: "endpoint_id \<Rightarrow> provider_entry \<Rightarrow> provider_entry" where
  "drop_provider provider e = e\<lparr>pe_providers := filter (\<lambda>(known, _). known \<noteq> provider) (pe_providers e)\<rparr>"

definition confirm_entry :: "endpoint_id \<Rightarrow> probed \<Rightarrow> provider_entry \<Rightarrow> provider_entry" where
  "confirm_entry provider probed e =
     \<lparr>pe_providers = take MAX_PROVIDERS ((provider, probed) # pe_providers (drop_provider provider e)),
      pe_missing = None\<rparr>"

definition pc_confirm :: "'c provider_lru \<Rightarrow> hash \<Rightarrow> endpoint_id \<Rightarrow> duration \<Rightarrow> instant \<Rightarrow> 'c \<Rightarrow> 'c" where
  "pc_confirm L hash provider latency now c =
     lru_upsert L hash entry_default (confirm_entry provider \<lparr>probed_at = now, probed_latency = latency\<rparr>) c"

definition pc_forget :: "'c provider_lru \<Rightarrow> hash \<Rightarrow> endpoint_id \<Rightarrow> 'c \<Rightarrow> 'c" where
  "pc_forget L hash provider c = lru_get_mut L hash (drop_provider provider) c"

definition missing_at :: "instant \<Rightarrow> provider_entry \<Rightarrow> miss option" where
  "missing_at now e =
     (case pe_missing e of
        Some (miss, at_time) \<Rightarrow> if now - at_time < MISS_TTL then Some miss else None
      | None \<Rightarrow> None)"

definition pc_missing :: "'c provider_lru \<Rightarrow> hash \<Rightarrow> instant \<Rightarrow> 'c \<Rightarrow> miss option \<times> 'c" where
  "pc_missing L hash now c =
     (case lru_peek L c hash of
        None \<Rightarrow> (None, c)
      | Some e \<Rightarrow>
          (missing_at now e,
           lru_get_mut L hash (\<lambda>e. if missing_at now e = None then e\<lparr>pe_missing := None\<rparr> else e) c))"

definition pc_record_missing :: "'c provider_lru \<Rightarrow> hash \<Rightarrow> miss \<Rightarrow> instant \<Rightarrow> 'c \<Rightarrow> 'c" where
  "pc_record_missing L hash miss now c =
     lru_upsert L hash entry_default (\<lambda>e. e\<lparr>pe_missing := Some (miss, now)\<rparr>) c"

section \<open>Hints from links\<close>

definition MAX_PER_URL :: usize where "MAX_PER_URL = 4"
definition MAX_PER_HASH :: usize where "MAX_PER_HASH = 8"
definition HINT_TTL :: duration where "HINT_TTL = secs (10 * 60)"

record hint =
  hint_provider :: endpoint_id
  hint_confirmed :: instant

type_synonym 'c hint_lru = "('c, hash, hint list) lru_ops"

text \<open>
  \<open>z32\<close> and \<open>unz32\<close> are the codec of z-base-32, \<open>id_bytes\<close> and \<open>id_text\<close> the two constructors of an endpoint ID,
  which reject what is not a key.
\<close>

record id_ext =
  ie_decode :: "string \<Rightarrow> bytes option"
  ie_encode :: "bytes \<Rightarrow> string"
  ie_from_bytes :: "bytes \<Rightarrow> endpoint_id option"
  ie_from_str :: "string \<Rightarrow> endpoint_id option"

definition parse_provider :: "id_ext \<Rightarrow> string \<Rightarrow> endpoint_id option" where
  "parse_provider x v =
     (case parse_z32_bytes (ie_decode x) (ie_encode x) v of
        Some bs \<Rightarrow> ie_from_bytes x bs
      | None \<Rightarrow> ie_from_str x v)"

definition provider_value :: "string \<Rightarrow> string option" where
  "provider_value pair =
     (case split_once CHR ''='' pair of
        Some (name, v) \<Rightarrow> if name = ''provider'' then Some v else if pair = ''provider'' then Some [] else None
      | None \<Rightarrow> if pair = ''provider'' then Some [] else None)"

fun parse_pairs :: "id_ext \<Rightarrow> string list \<Rightarrow> endpoint_id list \<Rightarrow> http_error + endpoint_id list" where
  "parse_pairs x [] providers = Inr providers"
| "parse_pairs x (pair # pairs) providers =
     (case provider_value pair of
        None \<Rightarrow> parse_pairs x pairs providers
      | Some v \<Rightarrow>
          (case parse_provider x v of
             None \<Rightarrow> Inl (HttpError 400 ''invalid provider: expected an endpoint ID in z-base-32 or hex'')
           | Some p \<Rightarrow>
               parse_pairs x pairs (if p \<in> set providers then providers else providers @ [p])))"

definition parse_query :: "id_ext \<Rightarrow> string option \<Rightarrow> http_error + endpoint_id list" where
  "parse_query x query =
     (case parse_pairs x (case query of None \<Rightarrow> [] | Some q \<Rightarrow> split_on CHR ''&'' q) [] of
        Inl e \<Rightarrow> Inl e
      | Inr providers \<Rightarrow>
          if length providers > MAX_PER_URL then Inl (HttpError 400 ''a URL may name at most four providers'')
          else Inr providers)"

definition add_hints :: "endpoint_id list \<Rightarrow> instant \<Rightarrow> hint list \<Rightarrow> hint list" where
  "add_hints providers now known =
     take MAX_PER_HASH (map (\<lambda>p. \<lparr>hint_provider = p, hint_confirmed = now\<rparr>) providers @
       filter (\<lambda>h. hint_provider h \<notin> set providers) known)"

definition hints_add :: "'c hint_lru \<Rightarrow> hash \<Rightarrow> endpoint_id list \<Rightarrow> instant \<Rightarrow> 'c \<Rightarrow> 'c" where
  "hints_add L hash providers now c = lru_upsert L hash [] (add_hints providers now) c"

definition add_from_query :: "id_ext \<Rightarrow> 'c hint_lru \<Rightarrow> hash \<Rightarrow> string option \<Rightarrow> instant \<Rightarrow> 'c \<Rightarrow>
    (http_error + unit) \<times> 'c" where
  "add_from_query x L hash query now c =
     (case parse_query x query of
        Inl e \<Rightarrow> (Inl e, c)
      | Inr providers \<Rightarrow> (Inr (), if providers \<noteq> [] then hints_add L hash providers now c else c))"

fun confirm_first :: "endpoint_id \<Rightarrow> instant \<Rightarrow> hint list \<Rightarrow> hint list" where
  "confirm_first p now [] = []"
| "confirm_first p now (h # hs) =
     (if hint_provider h = p then h\<lparr>hint_confirmed := now\<rparr> # hs else h # confirm_first p now hs)"

definition hints_confirm :: "'c hint_lru \<Rightarrow> hash \<Rightarrow> endpoint_id \<Rightarrow> instant \<Rightarrow> 'c \<Rightarrow> 'c" where
  "hints_confirm L hash provider now c = lru_get_mut L hash (confirm_first provider now) c"

definition hints_get :: "'c hint_lru \<Rightarrow> hash \<Rightarrow> instant \<Rightarrow> 'c \<Rightarrow> endpoint_id list \<times> 'c" where
  "hints_get L hash now c =
     (case lru_peek L c hash of
        None \<Rightarrow> ([], c)
      | Some known \<Rightarrow>
          (let retain = filter (\<lambda>h. now - hint_confirmed h < HINT_TTL);
               c = lru_get_mut L hash retain c
           in (map hint_provider (retain known), if retain known = [] then lru_pop L hash c else c)))"

section \<open>The race of probes\<close>

definition CONCURRENT_PROBES :: usize where "CONCURRENT_PROBES = 3"

datatype provenance = Discovered | Linked | Verified probed

text \<open>
  The stream that \<open>race_probes\<close> builds: candidates still to come, endpoints already taken from them,
  probes in flight, finished probes with their outcome, and what was yielded. A step takes the
  next candidate while fewer than three probes run, or finishes any running probe.
\<close>

record race =
  candidates :: "(endpoint_id \<times> provenance) list"
  seen :: "endpoint_id fset"
  in_flight :: "(endpoint_id \<times> provenance) list"
  finished :: "(endpoint_id \<times> duration option) list"
  yielded :: "endpoint_id list"

definition race_start :: "(endpoint_id \<times> provenance) list \<Rightarrow> race" where
  "race_start cs = \<lparr>candidates = cs, seen = {||}, in_flight = [], finished = [], yielded = []\<rparr>"

definition take_candidate :: "race \<Rightarrow> race option" where
  "take_candidate r =
     (case candidates r of
        [] \<Rightarrow> None
      | (p, v) # cs \<Rightarrow>
          if CONCURRENT_PROBES \<le> length (in_flight r) then None
          else if p |\<in>| seen r then Some (r\<lparr>candidates := cs\<rparr>)
          else Some (r\<lparr>candidates := cs, seen := finsert p (seen r), in_flight := in_flight r @ [(p, v)]\<rparr>))"

definition finish_probe :: "nat \<Rightarrow> duration option \<Rightarrow> race \<Rightarrow> race option" where
  "finish_probe i latency r =
     (if i < length (in_flight r) then
        (let p = fst (in_flight r ! i)
         in Some (r\<lparr>in_flight := take i (in_flight r) @ drop (Suc i) (in_flight r),
                   finished := finished r @ [(p, latency)],
                   yielded := (if latency = None then yielded r else yielded r @ [p])\<rparr>))
      else None)"

inductive race_step :: "race \<Rightarrow> race \<Rightarrow> bool" where
  take: "take_candidate r = Some r' \<Longrightarrow> race_step r r'"
| finish: "finish_probe i latency r = Some r' \<Longrightarrow> race_step r r'"

inductive race_reaches :: "(endpoint_id \<times> provenance) list \<Rightarrow> race \<Rightarrow> bool" for cs where
  start: "race_reaches cs (race_start cs)"
| step: "race_reaches cs r \<Longrightarrow> race_step r r' \<Longrightarrow> race_reaches cs r'"

text \<open>
  One probe: connecting and reading a verified size, within the deadline. \<open>ended\<close> is when the
  second answer, or the error, arrives.
\<close>

definition PROVIDER_PROBE_TIMEOUT :: duration where "PROVIDER_PROBE_TIMEOUT = secs 10"

definition probe_provider :: "'e + 'k \<Rightarrow> ('k \<Rightarrow> 'e + u64) \<Rightarrow> instant \<Rightarrow> instant \<Rightarrow> duration option" where
  "probe_provider connect verified_size started ended =
     (if ended - started > PROVIDER_PROBE_TIMEOUT then None
      else case connect of
        Inl _ \<Rightarrow> None
      | Inr connection \<Rightarrow>
          (case verified_size connection of Inl _ \<Rightarrow> None | Inr sz \<Rightarrow> Some (ended - started)))"

lemma probe_passed: "probe_provider connect verified_size started ended = Some latency \<longleftrightarrow>
    latency = ended - started \<and> latency \<le> secs 10 \<and> (\<exists>c sz. connect = Inr c \<and> verified_size c = Inr sz)"
  by (auto simp: probe_provider_def PROVIDER_PROBE_TIMEOUT_def split: sum.splits)

text \<open>What finished probes leave in the cache: \<open>verified_providers\<close> confirms or forgets each endpoint.\<close>

definition record_probe :: "'c provider_lru \<Rightarrow> hash \<Rightarrow> endpoint_id \<times> duration option \<times> instant \<Rightarrow> 'c \<Rightarrow> 'c" where
  "record_probe L hash = (\<lambda>(p, latency, now) c.
     case latency of Some l \<Rightarrow> pc_confirm L hash p l now c | None \<Rightarrow> pc_forget L hash p c)"

section \<open>Histories of the provider cache\<close>

datatype pc_op =
    Providers hash instant
  | Confirm hash endpoint_id duration instant
  | Forget hash endpoint_id
  | Missing hash instant
  | RecordMissing hash miss instant

fun pc_step :: "'c provider_lru \<Rightarrow> pc_op \<Rightarrow> 'c \<Rightarrow> 'c" where
  "pc_step L (Providers h now) c = snd (pc_providers L h now c)"
| "pc_step L (Confirm h p l now) c = pc_confirm L h p l now c"
| "pc_step L (Forget h p) c = pc_forget L h p c"
| "pc_step L (Missing h now) c = snd (pc_missing L h now c)"
| "pc_step L (RecordMissing h m now) c = pc_record_missing L h m now c"

text \<open>The last word on an endpoint was a passed probe; the last lookup failed and nobody was found since.\<close>

definition ends_probe :: "hash \<Rightarrow> endpoint_id \<Rightarrow> pc_op \<Rightarrow> bool" where
  "ends_probe h p op \<longleftrightarrow> op = Forget h p \<or> (\<exists>l t. op = Confirm h p l t)"

definition ends_miss :: "hash \<Rightarrow> pc_op \<Rightarrow> bool" where
  "ends_miss h op \<longleftrightarrow> (\<exists>p l t. op = Confirm h p l t) \<or> (\<exists>m t. op = RecordMissing h m t)"

definition last_word :: "pc_op list \<Rightarrow> pc_op \<Rightarrow> (pc_op \<Rightarrow> bool) \<Rightarrow> bool" where
  "last_word ops op ends \<longleftrightarrow> (\<exists>xs ys. ops = xs @ op # ys \<and> (\<forall>y \<in> set ys. \<not> ends y))"

definition entry_ok :: "pc_op list \<Rightarrow> hash \<Rightarrow> provider_entry \<Rightarrow> bool" where
  "entry_ok ops h e \<longleftrightarrow> length (pe_providers e) \<le> MAX_PROVIDERS \<and> distinct (map fst (pe_providers e)) \<and>
     (\<forall>(p, pr) \<in> set (pe_providers e). last_word ops (Confirm h p (probed_latency pr) (probed_at pr)) (ends_probe h p)) \<and>
     (\<forall>m t. pe_missing e = Some (m, t) \<longrightarrow> last_word ops (RecordMissing h m t) (ends_miss h))"

text \<open>Operations after which the entry of a hash is always still there: the cache does not evict it on the way.\<close>

fun stays :: "'c provider_lru \<Rightarrow> hash \<Rightarrow> pc_op list \<Rightarrow> 'c \<Rightarrow> bool" where
  "stays L h [] c \<longleftrightarrow> True"
| "stays L h (op # ops) c \<longleftrightarrow> lru_peek L (pc_step L op c) h \<noteq> None \<and> stays L h ops (pc_step L op c)"

text \<open>The readings of the clock by which an operation drops what is too old for a hash.\<close>

definition reads_within :: "hash \<Rightarrow> instant \<Rightarrow> duration \<Rightarrow> pc_op \<Rightarrow> bool" where
  "reads_within h t ttl op \<longleftrightarrow> (\<forall>now. op = Providers h now \<or> op = Missing h now \<longrightarrow> now - t < ttl)"

definition confirms :: "hash \<Rightarrow> pc_op \<Rightarrow> bool" where
  "confirms h op \<longleftrightarrow> (\<exists>p l t. op = Confirm h p l t)"

lemma last_word_snoc: "last_word (ops @ [op]) op ends"
  unfolding last_word_def by (intro exI [of _ ops] exI [of _ "[]"]) simp

lemma last_word_later: "last_word ops op ends \<Longrightarrow> \<not> ends op' \<Longrightarrow> last_word (ops @ [op']) op ends"
proof -
  assume "last_word ops op ends" "\<not> ends op'"
  then obtain xs ys where "ops = xs @ op # ys" "\<forall>y \<in> set ys. \<not> ends y" unfolding last_word_def by blast
  with \<open>\<not> ends op'\<close> show ?thesis
    unfolding last_word_def by (intro exI [of _ xs] exI [of _ "ys @ [op']"]) auto
qed

lemma entry_default_ok: "entry_ok ops h entry_default"
  by (simp add: entry_ok_def entry_default_def)

lemma entry_filter_ok:
  "entry_ok ops h e \<Longrightarrow> entry_ok ops h (e\<lparr>pe_providers := filter P (pe_providers e)\<rparr>)"
  unfolding entry_ok_def by (auto simp: distinct_map_filter le_trans [OF length_filter_le])

lemma entry_later_ok:
  assumes "entry_ok ops h e" "\<And>p pr. (p, pr) \<in> set (pe_providers e) \<Longrightarrow> \<not> ends_probe h p op" 
    "pe_missing e \<noteq> None \<Longrightarrow> \<not> ends_miss h op"
  shows "entry_ok (ops @ [op]) h e"
  using assms unfolding entry_ok_def by (auto intro!: last_word_later)

lemma entry_confirm_ok:
  assumes "entry_ok ops h e"
  shows "entry_ok (ops @ [Confirm h p l t]) h (confirm_entry p \<lparr>probed_at = t, probed_latency = l\<rparr> e)"
proof -
  let ?op = "Confirm h p l t" and ?e = "drop_provider p e"
  have "entry_ok ops h ?e" unfolding drop_provider_def by (rule entry_filter_ok [OF assms])
  then have old: "distinct (map fst (pe_providers ?e))" "p \<notin> fst ` set (pe_providers ?e)"
      "\<And>q pr. (q, pr) \<in> set (pe_providers ?e) \<Longrightarrow>
        last_word ops (Confirm h q (probed_latency pr) (probed_at pr)) (ends_probe h q)"
    by (auto simp: entry_ok_def drop_provider_def)
  have new: "last_word (ops @ [?op]) (Confirm h q (probed_latency pr) (probed_at pr)) (ends_probe h q)"
    if "(q, pr) \<in> set (pe_providers ?e)" for q pr
  proof (rule last_word_later [OF old(3) [OF that]])
    show "\<not> ends_probe h q ?op" using that old(2) by (force simp: ends_probe_def)
  qed
  have "distinct (map fst ((p, \<lparr>probed_at = t, probed_latency = l\<rparr>) # pe_providers ?e))"
    using old(1,2) by auto
  then have "distinct (map fst (pe_providers (confirm_entry p \<lparr>probed_at = t, probed_latency = l\<rparr> e)))"
    unfolding confirm_entry_def by (simp only: provider_entry.simps take_map [symmetric] distinct_take)
  moreover have "\<forall>(q, pr) \<in> set (pe_providers (confirm_entry p \<lparr>probed_at = t, probed_latency = l\<rparr> e)).
      last_word (ops @ [?op]) (Confirm h q (probed_latency pr) (probed_at pr)) (ends_probe h q)"
    using new last_word_snoc [of ops ?op] by (auto simp: confirm_entry_def dest!: in_set_takeD)
  ultimately show ?thesis by (auto simp: entry_ok_def confirm_entry_def)
qed

locale provider_cache = lru_cache L e for L :: "'c provider_lru" and e :: 'c
begin

definition cache_ok :: "pc_op list \<Rightarrow> 'c \<Rightarrow> bool" where
  "cache_ok ops c \<longleftrightarrow> (\<forall>h entry. lru_peek L c h = Some entry \<longrightarrow> entry_ok ops h entry)"

lemma cache_ok_update:
  assumes "cache_ok ops c"
    "\<And>k. k \<noteq> h \<Longrightarrow> (\<forall>p. \<not> ends_probe k p op) \<and> \<not> ends_miss k op"
    "\<And>entry. lru_peek L c' h = Some entry \<Longrightarrow> entry_ok (ops @ [op]) h entry"
    "\<And>k entry. k \<noteq> h \<Longrightarrow> lru_peek L c' k = Some entry \<Longrightarrow> lru_peek L c k = Some entry"
  shows "cache_ok (ops @ [op]) c'"
  unfolding cache_ok_def
proof (intro allI impI)
  fix k entry assume k: "lru_peek L c' k = Some entry"
  show "entry_ok (ops @ [op]) k entry"
  proof (cases "k = h")
    case False
    with assms(1,4) k have "entry_ok ops k entry" unfolding cache_ok_def by blast
    with assms(2) [OF False] show ?thesis by (auto intro: entry_later_ok)
  qed (use assms(3) k in simp)
qed

lemma cache_ok_get_mut:
  assumes "cache_ok ops c" "\<And>k. k \<noteq> h \<Longrightarrow> (\<forall>p. \<not> ends_probe k p op) \<and> \<not> ends_miss k op"
    "\<And>entry. entry_ok ops h entry \<Longrightarrow> entry_ok (ops @ [op]) h (f entry)"
  shows "cache_ok (ops @ [op]) (lru_get_mut L h f c)"
  by (rule cache_ok_update [OF assms(1), where h = h])
    (use assms in \<open>auto simp: get_mut_peek cache_ok_def\<close>)

lemma cache_ok_upsert:
  assumes "cache_ok ops c" "\<And>k. k \<noteq> h \<Longrightarrow> (\<forall>p. \<not> ends_probe k p op) \<and> \<not> ends_miss k op"
    "\<And>entry. entry_ok ops h entry \<Longrightarrow> entry_ok (ops @ [op]) h (f entry)"
  shows "cache_ok (ops @ [op]) (lru_upsert L h entry_default f c)"
  by (rule cache_ok_update [OF assms(1), where h = h])
    (use assms entry_default_ok in \<open>auto simp: upsert_peek cache_ok_def dest: upsert_other split: option.split\<close>)

lemma cache_ok_step: "cache_ok ops c \<Longrightarrow> cache_ok (ops @ [op]) (pc_step L op c)"
proof (cases op)
  assume ok: "cache_ok ops c"
  have keep: "entry_ok (ops @ [op]) h entry" if "entry_ok ops h entry"
    "\<And>p. \<not> ends_probe h p op" "\<not> ends_miss h op" for h entry
    using that by (auto intro: entry_later_ok)
  { case (Providers h now)
    have "cache_ok (ops @ [op]) (lru_get_mut L h (retain_fresh now) c)"
      by (rule cache_ok_get_mut [OF ok])
        (auto simp: Providers ends_probe_def ends_miss_def retain_fresh_def intro!: entry_later_ok entry_filter_ok)
    moreover have "cache_ok (ops @ [op]) c"
      using ok keep unfolding cache_ok_def by (auto simp: Providers ends_probe_def ends_miss_def)
    ultimately show ?thesis by (auto simp: Providers pc_providers_def split: option.split) }
  { case (Confirm h p l t)
    show ?thesis unfolding Confirm pc_step.simps pc_confirm_def
      by (rule cache_ok_upsert [OF ok]) (auto simp: ends_probe_def ends_miss_def entry_confirm_ok) }
  { case (Forget h p)
    have "entry_ok (ops @ [Forget h p]) h (drop_provider p entry)" if "entry_ok ops h entry" for entry
      using that unfolding drop_provider_def
      by (intro entry_later_ok entry_filter_ok) (auto simp: ends_probe_def ends_miss_def)
    then show ?thesis unfolding Forget pc_step.simps pc_forget_def
      by (intro cache_ok_get_mut [OF ok]) (auto simp: ends_probe_def ends_miss_def) }
  { case (Missing h now)
    have clear: "entry_ok ops h (entry\<lparr>pe_missing := None\<rparr>)" if "entry_ok ops h entry" for entry
      using that by (simp add: entry_ok_def)
    have "cache_ok (ops @ [op])
        (lru_get_mut L h (\<lambda>e. if missing_at now e = None then e\<lparr>pe_missing := None\<rparr> else e) c)"
      by (rule cache_ok_get_mut [OF ok])
        (auto simp: Missing ends_probe_def ends_miss_def intro!: entry_later_ok clear)
    moreover have "cache_ok (ops @ [op]) c"
      using ok keep unfolding cache_ok_def by (auto simp: Missing ends_probe_def ends_miss_def)
    ultimately show ?thesis by (auto simp: Missing pc_missing_def split: option.split) }
  { case (RecordMissing h m t)
    have "entry_ok (ops @ [RecordMissing h m t]) h (entry\<lparr>pe_missing := Some (m, t)\<rparr>)" if "entry_ok ops h entry" for entry
    proof -
      have "entry_ok (ops @ [RecordMissing h m t]) h (entry\<lparr>pe_missing := None\<rparr>)"
        using that by (intro entry_later_ok) (auto simp: entry_ok_def ends_probe_def)
      with last_word_snoc [of ops "RecordMissing h m t"] show ?thesis by (auto simp: entry_ok_def)
    qed
    then show ?thesis unfolding RecordMissing pc_step.simps pc_record_missing_def
      by (intro cache_ok_upsert [OF ok]) (auto simp: ends_probe_def ends_miss_def) }
qed

lemma cache_ok_history: "cache_ok ops (fold (pc_step L) ops e)"
  by (induction ops rule: rev_induct) (simp_all add: cache_ok_step, simp add: cache_ok_def peek_empty)

lemma providers_listed:
  assumes "(ps, c') = pc_providers L h now (fold (pc_step L) ops e)"
  shows "length ps \<le> MAX_PROVIDERS \<and> distinct (map fst ps) \<and> sorted (map (probed_latency \<circ> snd) ps) \<and>
    (\<forall>(p, pr) \<in> set ps. now - probed_at pr < PROVIDER_TTL \<and>
       last_word ops (Confirm h p (probed_latency pr) (probed_at pr)) (ends_probe h p))"
proof (cases "lru_peek L (fold (pc_step L) ops e) h")
  case None
  with assms show ?thesis by (simp add: pc_providers_def)
next
  case (Some entry)
  then have "entry_ok ops h entry" using cache_ok_history [of ops] unfolding cache_ok_def by blast
  then have ok: "entry_ok ops h (retain_fresh now entry)" unfolding retain_fresh_def by (rule entry_filter_ok)
  have ps: "ps = sort_key (\<lambda>(_, pr). probed_latency pr) (pe_providers (retain_fresh now entry))"
    using assms Some by (simp add: pc_providers_def)
  have "sorted (map (\<lambda>(_, pr). probed_latency pr) ps)" unfolding ps by (rule sorted_sort_key)
  moreover have "distinct (map fst ps)"
    using ok unfolding ps entry_ok_def by (simp add: distinct_map)
  moreover have "now - probed_at pr < PROVIDER_TTL" if "(p, pr) \<in> set ps" for p pr
    using that by (auto simp: ps retain_fresh_def)
  ultimately show ?thesis
    using ok by (auto simp: entry_ok_def ps comp_def case_prod_unfold)
qed

lemma confirm_listed:
  assumes "now - t < PROVIDER_TTL"
  shows "(p, \<lparr>probed_at = t, probed_latency = l\<rparr>) \<in> set (fst (pc_providers L h now (pc_confirm L h p l t c)))"
  using assms
  by (simp add: pc_providers_def pc_confirm_def upsert_peek retain_fresh_def confirm_entry_def MAX_PROVIDERS_def set_insort_key)

text \<open>What happens to the entry of a hash, when it is not evicted.\<close>

lemma pc_step_entry:
  assumes "lru_peek L c h = Some en" "lru_peek L (pc_step L op c) h = Some e'"
  shows "e' = (case op of
      Providers k now \<Rightarrow> if k = h then retain_fresh now en else en
    | Confirm k p l t \<Rightarrow> if k = h then confirm_entry p \<lparr>probed_at = t, probed_latency = l\<rparr> en else en
    | Forget k p \<Rightarrow> if k = h then drop_provider p en else en
    | Missing k now \<Rightarrow> if k = h \<and> missing_at now en = None then en\<lparr>pe_missing := None\<rparr> else en
    | RecordMissing k m t \<Rightarrow> if k = h then en\<lparr>pe_missing := Some (m, t)\<rparr> else en)"
proof (cases op)
  case (Confirm k p l t)
  have "lru_peek L c h = Some e'" if "k \<noteq> h"
    using upsert_other [OF that [symmetric]] assms(2) unfolding Confirm pc_step.simps pc_confirm_def by blast
  with assms show ?thesis by (auto simp: Confirm pc_confirm_def upsert_peek)
next
  case (RecordMissing k m t)
  have "lru_peek L c h = Some e'" if "k \<noteq> h"
    using upsert_other [OF that [symmetric]] assms(2) unfolding RecordMissing pc_step.simps pc_record_missing_def by blast
  with assms show ?thesis by (auto simp: RecordMissing pc_record_missing_def upsert_peek)
qed (use assms in \<open>auto simp: pc_providers_def pc_forget_def pc_missing_def get_mut_peek split: option.splits if_splits\<close>)

text \<open>A miss outlives every reading, of its own hash and of others, until it is replaced, disproved or too old.\<close>

lemma miss_stays:
  assumes "lru_peek L c h = Some en" "pe_missing en = Some (m, t)" "stays L h ops c"
    "\<And>op. op \<in> set ops \<Longrightarrow> \<not> ends_miss h op \<and> reads_within h t MISS_TTL op"
  shows "\<exists>e'. lru_peek L (fold (pc_step L) ops c) h = Some e' \<and> pe_missing e' = Some (m, t)"
  using assms
proof (induction ops arbitrary: c en)
  case (Cons op ops)
  from Cons.prems(3) obtain e' where e': "lru_peek L (pc_step L op c) h = Some e'" by auto
  have "\<not> ends_miss h op \<and> reads_within h t MISS_TTL op" using Cons.prems(4) by simp
  then have "pe_missing e' = Some (m, t)"
    using pc_step_entry [OF Cons.prems(1) e'] Cons.prems(2)
    by (auto simp: ends_miss_def reads_within_def retain_fresh_def drop_provider_def missing_at_def split: pc_op.splits if_splits)
  with Cons.IH [OF e'] Cons.prems(3,4) show ?case by simp
qed simp

text \<open>A passed probe stays listed until a later probe of the endpoint, four others, or its age end it.\<close>

lemma provider_step:
  assumes "lru_peek L c h = Some en" "lru_peek L (pc_step L op c) h = Some e'" "pe_providers en = xs @ (p, pr) # ys"
    "\<not> ends_probe h p op" "reads_within h (probed_at pr) PROVIDER_TTL op"
    "length xs + (if confirms h op then 1 else 0) < MAX_PROVIDERS"
  shows "\<exists>xs' ys'. pe_providers e' = xs' @ (p, pr) # ys' \<and> length xs' \<le> length xs + (if confirms h op then 1 else 0)"
proof -
  note step = pc_step_entry [OF assms(1,2)]
  have same: ?thesis if "pe_providers e' = pe_providers en" using that assms(3) by (intro exI [of _ xs] exI [of _ ys]) simp
  have filtered: ?thesis if "pe_providers e' = filter P (pe_providers en)" "P (p, pr)" for P
    using that assms(3) by (intro exI [of _ "filter P xs"] exI [of _ "filter P ys"]) (simp add: trans_le_add1)
  show ?thesis
  proof (cases op)
    case (Providers k now)
    then show ?thesis
      using step assms(5) same filtered [of "\<lambda>(_, probed). now - probed_at probed < PROVIDER_TTL"]
      by (auto simp: retain_fresh_def reads_within_def split: if_splits)
  next
    case (Confirm k q l t)
    show ?thesis
    proof (cases "k = h")
      case True
      let ?P = "\<lambda>(known, _). known \<noteq> q" and ?new = "(q, \<lparr>probed_at = t, probed_latency = l\<rparr>)"
      have "q \<noteq> p" "confirms h op" using assms(4) True by (auto simp: Confirm ends_probe_def confirms_def)
      then have "pe_providers e' = take MAX_PROVIDERS ((?new # filter ?P xs) @ (p, pr) # filter ?P ys)"
        using step assms(3) True by (simp add: Confirm confirm_entry_def drop_provider_def)
      moreover have len: "length (?new # filter ?P xs) \<le> length xs + 1" by simp
      moreover have "length (?new # filter ?P xs) < MAX_PROVIDERS" using le_less_trans [OF len] assms(6) \<open>confirms h op\<close> by simp
      then obtain n where "MAX_PROVIDERS - length (?new # filter ?P xs) = Suc n" using Suc_diff_Suc by metis
      ultimately have "pe_providers e' = (?new # filter ?P xs) @ (p, pr) # take n (filter ?P ys)"
        by (simp only: take_append take_Suc_Cons) simp
      with len \<open>confirms h op\<close> show ?thesis
        by (intro exI [of _ "?new # filter ?P xs"] exI [of _ "take n (filter ?P ys)"]) simp
    qed (use step same in \<open>simp add: Confirm\<close>)
  next
    case (Forget k q)
    then show ?thesis
      using step assms(4) same filtered [of "\<lambda>(known, _). known \<noteq> q"]
      by (auto simp: drop_provider_def ends_probe_def split: if_splits)
  qed (use step same in \<open>auto split: if_splits\<close>)
qed

lemma provider_stays:
  assumes "lru_peek L c h = Some en" "pe_providers en = xs @ (p, pr) # ys" "stays L h ops c"
    "length xs + length (filter (confirms h) ops) < MAX_PROVIDERS"
    "\<And>op. op \<in> set ops \<Longrightarrow> \<not> ends_probe h p op \<and> reads_within h (probed_at pr) PROVIDER_TTL op"
  shows "\<exists>e'. lru_peek L (fold (pc_step L) ops c) h = Some e' \<and> (p, pr) \<in> set (pe_providers e')"
  using assms
proof (induction ops arbitrary: c en xs ys)
  case (Cons op ops)
  from Cons.prems(3) obtain e' where e': "lru_peek L (pc_step L op c) h = Some e'" by auto
  have op: "\<not> ends_probe h p op" "reads_within h (probed_at pr) PROVIDER_TTL op" using Cons.prems(5) by simp_all
  have "length xs + (if confirms h op then 1 else 0) < MAX_PROVIDERS" using Cons.prems(4) by (auto split: if_splits)
  from provider_step [OF Cons.prems(1) e' Cons.prems(2) op this] obtain xs' ys' where
    "pe_providers e' = xs' @ (p, pr) # ys'" "length xs' \<le> length xs + (if confirms h op then 1 else 0)" by blast
  with Cons.IH [OF e', of xs' ys'] Cons.prems(3-5) show ?case by (auto split: if_splits)
qed auto

text \<open>So what was recorded is read: the failure by every lookup, the endpoint in every listing.\<close>

lemma recorded_miss_read:
  assumes "stays L h ops (pc_record_missing L h m t c)" "now - t < MISS_TTL"
    "\<And>op. op \<in> set ops \<Longrightarrow> \<not> ends_miss h op \<and> reads_within h t MISS_TTL op"
  shows "fst (pc_missing L h now (fold (pc_step L) ops (pc_record_missing L h m t c))) = Some m"
proof -
  have "\<exists>en. lru_peek L (pc_record_missing L h m t c) h = Some en \<and> pe_missing en = Some (m, t)"
    by (simp add: pc_record_missing_def upsert_peek)
  then obtain e' where "lru_peek L (fold (pc_step L) ops (pc_record_missing L h m t c)) h = Some e'" "pe_missing e' = Some (m, t)"
    using miss_stays [OF _ _ assms(1,3)] by blast
  then show ?thesis using assms(2) by (simp add: pc_missing_def missing_at_def)
qed

lemma confirmed_listed:
  assumes "stays L h ops (pc_confirm L h p l t c)" "now - t < PROVIDER_TTL" "length (filter (confirms h) ops) < MAX_PROVIDERS"
    "\<And>op. op \<in> set ops \<Longrightarrow> \<not> ends_probe h p op \<and> reads_within h t PROVIDER_TTL op"
  shows "(p, \<lparr>probed_at = t, probed_latency = l\<rparr>) \<in>
    set (fst (pc_providers L h now (fold (pc_step L) ops (pc_confirm L h p l t c))))"
proof -
  let ?pr = "\<lparr>probed_at = t, probed_latency = l\<rparr>" and ?c = "pc_confirm L h p l t c"
  have "\<exists>en ys. lru_peek L ?c h = Some en \<and> pe_providers en = [] @ (p, ?pr) # ys"
    by (simp add: pc_confirm_def upsert_peek confirm_entry_def MAX_PROVIDERS_def)
  then obtain en ys where "lru_peek L ?c h = Some en" "pe_providers en = [] @ (p, ?pr) # ys" by blast
  from provider_stays [OF this assms(1)] assms(3,4) obtain e' where
    "lru_peek L (fold (pc_step L) ops ?c) h = Some e'" "(p, ?pr) \<in> set (pe_providers e')" by auto
  then show ?thesis using assms(2) by (auto simp: pc_providers_def retain_fresh_def)
qed

lemma missing_reported:
  assumes "fst (pc_missing L h now (fold (pc_step L) ops e)) = Some m"
  shows "\<exists>t. now - t < MISS_TTL \<and> last_word ops (RecordMissing h m t) (ends_miss h)"
proof -
  obtain entry where entry: "lru_peek L (fold (pc_step L) ops e) h = Some entry" "missing_at now entry = Some m"
    using assms by (auto simp: pc_missing_def split: option.splits)
  then have "entry_ok ops h entry" using cache_ok_history [of ops] unfolding cache_ok_def by blast
  with entry(2) show ?thesis by (auto simp: missing_at_def entry_ok_def split: option.splits if_splits)
qed

end

interpretation listed: provider_cache list_lru "(n, [])" for n ..

section \<open>Properties\<close>

text \<open>
  C37. The provider cache names endpoints that recently served the hash. After any sequence of its
  operations, whatever the cache evicted, it lists at most four distinct endpoints, the fastest
  probe first; each passed a probe for this very hash less than five minutes ago, with the
  latency it is listed with, and has not failed or repeated one since. An endpoint that just
  passed is listed. A failed lookup is only reported when one was recorded for the hash less than
  five seconds ago and no provider was found since.
\<close>

theorem provider_cache_sound:
  assumes "lru_cache L e"
  shows "(\<forall>ps c'. (ps, c') = pc_providers L h now (fold (pc_step L) ops e) \<longrightarrow>
      length ps \<le> 4 \<and> distinct (map fst ps) \<and> sorted (map (probed_latency \<circ> snd) ps) \<and>
      (\<forall>(p, pr) \<in> set ps. now - probed_at pr < secs 300 \<and>
         last_word ops (Confirm h p (probed_latency pr) (probed_at pr)) (ends_probe h p))) \<and>
    (now - t < secs 300 \<longrightarrow> (p, \<lparr>probed_at = t, probed_latency = l\<rparr>) \<in>
       set (fst (pc_providers L h now (fold (pc_step L) (ops @ [Confirm h p l t]) e)))) \<and>
    (\<forall>m. fst (pc_missing L h now (fold (pc_step L) ops e)) = Some m \<longrightarrow>
       (\<exists>t. now - t < secs 5 \<and> last_word ops (RecordMissing h m t) (ends_miss h)))"
proof -
  have P: "provider_cache L e" using assms by (rule provider_cache.intro)
  show ?thesis
    using provider_cache.providers_listed [OF P, of _ _ h now ops] provider_cache.missing_reported [OF P, of h now ops]
      provider_cache.confirm_listed [OF P, of now t p l h "fold (pc_step L) ops e"]
    by (simp add: PROVIDER_TTL_def MISS_TTL_def MAX_PROVIDERS_def)
qed

theorem provider_cache_sound_witness:
  "([9], \<lparr>probed_at = 7, probed_latency = 3\<rparr>) \<in>
     set (fst (pc_providers list_lru [1] 8 (fold (pc_step list_lru) [Forget [1] [9], Confirm [1] [9] 3 7] (5, []))))"
proof -
  have "(8::nat) - 7 < secs 300" by (simp add: secs_def)
  with provider_cache_sound [OF list_lru.lru_cache_axioms, of "[1]" 8 "[Forget [1] [9]]" 5 7 "[9]" 3]
  show ?thesis by simp
qed

section \<open>The race is bounded and ends\<close>

definition race_ok :: "(endpoint_id \<times> provenance) list \<Rightarrow> race \<Rightarrow> bool" where
  "race_ok cs r \<longleftrightarrow> length (in_flight r) \<le> CONCURRENT_PROBES \<and>
     distinct (map fst (finished r) @ map fst (in_flight r)) \<and>
     fset (seen r) = set (map fst (finished r) @ map fst (in_flight r)) \<and>
     fst ` set cs = fset (seen r) \<union> fst ` set (candidates r) \<and>
     yielded r = map fst (filter (\<lambda>(_, latency). latency \<noteq> None) (finished r))"

definition race_left :: "race \<Rightarrow> nat" where
  "race_left r = 2 * length (candidates r) + length (in_flight r)"

inductive_cases race_stepE: "race_step r r'"

lemma take_candidate_ok: "race_ok cs r \<Longrightarrow> take_candidate r = Some r' \<Longrightarrow> race_ok cs r' \<and> race_left r' < race_left r"
proof -
  assume ok: "race_ok cs r" and t: "take_candidate r = Some r'"
  then obtain p v cs' where cs': "candidates r = (p, v) # cs'" "length (in_flight r) < CONCURRENT_PROBES"
    by (auto simp: take_candidate_def split: list.splits if_splits)
  show ?thesis
  proof (cases "p |\<in>| seen r")
    case True
    then have "r' = r\<lparr>candidates := cs'\<rparr>" using t cs' by (simp add: take_candidate_def)
    moreover have "fset (seen r) \<union> fst ` set (candidates r) = fset (seen r) \<union> fst ` set cs'"
      using True by (auto simp: cs'(1))
    ultimately show ?thesis using ok by (simp add: race_ok_def race_left_def cs'(1))
  next
    case False
    then have r': "r' = r\<lparr>candidates := cs', seen := finsert p (seen r), in_flight := in_flight r @ [(p, v)]\<rparr>"
      using t cs' by (simp add: take_candidate_def)
    have "p \<notin> set (map fst (finished r) @ map fst (in_flight r))" using False ok by (simp add: race_ok_def)
    moreover have "fset (seen r) \<union> fst ` set (candidates r) = fset (seen r') \<union> fst ` set cs'"
      by (auto simp: cs'(1) r')
    ultimately show ?thesis using ok cs' by (simp add: race_ok_def race_left_def r')
  qed
qed

lemma remove_nth:
  assumes "i < length xs" "distinct xs"
  shows "distinct (take i xs @ drop (Suc i) xs)" "set (take i xs @ drop (Suc i) xs) = set xs - {xs ! i}"
proof -
  have split: "xs = take i xs @ xs ! i # drop (Suc i) xs" using assms(1) by (rule id_take_nth_drop)
  then have "distinct (take i xs @ xs ! i # drop (Suc i) xs)" using assms(2) by simp
  then show "distinct (take i xs @ drop (Suc i) xs)" by simp
  have "set xs = set (take i xs @ xs ! i # drop (Suc i) xs)" using split by simp
  with \<open>distinct (take i xs @ xs ! i # drop (Suc i) xs)\<close>
  show "set (take i xs @ drop (Suc i) xs) = set xs - {xs ! i}" by auto
qed

lemma finish_probe_ok:
  assumes "race_ok cs r" "finish_probe i latency r = Some r'"
  shows "race_ok cs r' \<and> race_left r' < race_left r"
proof -
  let ?ps = "map fst (in_flight r)"
  have i: "i < length (in_flight r)" and r': "r' = r\<lparr>in_flight := take i (in_flight r) @ drop (Suc i) (in_flight r),
      finished := finished r @ [(?ps ! i, latency)],
      yielded := (if latency = None then yielded r else yielded r @ [?ps ! i])\<rparr>"
    using assms(2) by (auto simp: finish_probe_def Let_def split: if_splits)
  have m: "map fst (in_flight r') = take i ?ps @ drop (Suc i) ?ps" by (simp add: r' take_map drop_map)
  have d: "distinct ?ps" "i < length ?ps" "?ps ! i \<in> set ?ps" using assms(1) i by (auto simp: race_ok_def)
  note rem = remove_nth [OF d(2,1)]
  have "distinct (map fst (finished r') @ map fst (in_flight r'))"
    using assms(1) rem d(3) unfolding m by (auto simp: race_ok_def r')
  moreover have "set (map fst (finished r') @ map fst (in_flight r')) = set (map fst (finished r) @ ?ps)"
    unfolding m set_append rem(2) [unfolded set_append] using d(3) by (auto simp: r')
  moreover have "length (in_flight r') < length (in_flight r)" using i by (simp add: r')
  ultimately show ?thesis using assms(1) by (auto simp: race_ok_def race_left_def r')
qed

lemma race_step_ok: "race_ok cs r \<Longrightarrow> race_step r r' \<Longrightarrow> race_ok cs r' \<and> race_left r' < race_left r"
  by (auto elim!: race_stepE dest: take_candidate_ok finish_probe_ok)

lemma race_reaches_ok: "race_reaches cs r \<Longrightarrow> race_ok cs r"
proof (induction rule: race_reaches.induct)
  case (step r r')
  then show ?case using race_step_ok by blast
qed (simp add: race_ok_def race_start_def)

lemma race_stuck:
  assumes "\<nexists>r'. race_step r r'"
  shows "candidates r = [] \<and> in_flight r = []"
proof -
  have "finish_probe 0 None r = None" using assms race_step.finish by (metis option.exhaust)
  then have "in_flight r = []" by (auto simp: finish_probe_def split: if_splits)
  moreover have "take_candidate r = None" using assms race_step.take by (metis option.exhaust)
  ultimately show ?thesis
    by (auto simp: take_candidate_def CONCURRENT_PROBES_def split: list.splits if_splits prod.splits)
qed

text \<open>
  C38. The race of probes is bounded, fair to every candidate, and ends. In whatever order probes
  finish, at most three run at once, no endpoint is probed twice, only candidates are probed, and
  exactly the endpoints whose probe passed are yielded, in the order they finished. Every step
  makes the race shorter, and when no step is left every endpoint among the candidates has been
  probed.
\<close>

theorem race_probes_complete:
  assumes "race_reaches cs r"
  shows "length (in_flight r) \<le> 3 \<and> distinct (map fst (finished r) @ map fst (in_flight r)) \<and>
    set (map fst (finished r) @ map fst (in_flight r)) \<subseteq> fst ` set cs \<and>
    yielded r = map fst (filter (\<lambda>(_, latency). latency \<noteq> None) (finished r)) \<and>
    (\<forall>r'. race_step r r' \<longrightarrow> race_left r' < race_left r) \<and>
    ((\<nexists>r'. race_step r r') \<longrightarrow> set (map fst (finished r)) = fst ` set cs)"
proof -
  have ok: "race_ok cs r" by (rule race_reaches_ok [OF assms])
  then have "set (map fst (finished r)) = fst ` set cs" if "\<nexists>r'. race_step r r'"
    using race_stuck [OF that] unfolding race_ok_def by auto
  with ok race_step_ok [OF ok] show ?thesis unfolding race_ok_def CONCURRENT_PROBES_def by blast
qed

theorem race_probes_complete_witness:
  "\<exists>r. race_reaches [([1], Linked), ([2], Discovered), ([1], Discovered)] r \<and> in_flight r = [([1], Linked), ([2], Discovered)] \<and>
     length (in_flight r) \<le> 3"
proof -
  let ?cs = "[([1], Linked), ([2], Discovered), ([1], Discovered)]"
  obtain r where r: "race_reaches ?cs r" "in_flight r = [([1], Linked), ([2], Discovered)]"
  proof -
    have "race_step (race_start ?cs) \<lparr>candidates = [([2], Discovered), ([1], Discovered)], seen = {|[1]|},
        in_flight = [([1], Linked)], finished = [], yielded = []\<rparr>"
      by (rule race_step.take) (simp add: take_candidate_def race_start_def CONCURRENT_PROBES_def)
    moreover have "race_step \<lparr>candidates = [([2], Discovered), ([1], Discovered)], seen = {|[1]|},
        in_flight = [([1], Linked)], finished = [], yielded = []\<rparr>
      \<lparr>candidates = [([1], Discovered)], seen = {|[2], [1]|},
        in_flight = [([1], Linked), ([2], Discovered)], finished = [], yielded = []\<rparr>"
      by (rule race_step.take) (simp add: take_candidate_def CONCURRENT_PROBES_def)
    ultimately have "race_reaches ?cs \<lparr>candidates = [([1], Discovered)], seen = {|[2], [1]|},
        in_flight = [([1], Linked), ([2], Discovered)], finished = [], yielded = []\<rparr>"
      using race_reaches.step [OF race_reaches.step [OF race_reaches.start]] by blast
    from that [OF this] show thesis by simp
  qed
  with conjunct1 [OF race_probes_complete [OF r(1)]] show ?thesis by blast
qed

end
