(* ===== verification/Gateway_State.thy ===== *)
theory Gateway_State
  imports Gateway_Serve Gateway_Providers
begin

text \<open>
  The gateway's own state and the operations on it, \<open>Gateway\<close> in \<open>iroh-link-gateway/src/lib.rs\<close>:
  finding a provider (\<open>connection\<close>) and the caches of sources, collections and sizes. What the network
  does in one request is the record \<open>gateway_env\<close>.
\<close>

section \<open>State\<close>

type_synonym connection_id = nat

type_synonym blob_source = "connection_id \<times> source"
type_synonym collection_source = "connection_id \<times> collection"

record ('p, 'h, 's, 'c, 'z) gateway_ops =
  op_providers :: "'p provider_lru"
  op_hints :: "'h hint_lru"
  op_sources :: "('s, hash, blob_source) lru_ops"
  op_collections :: "('c, hash, collection_source) lru_ops"
  op_sizes :: "('z, hash, u64) lru_ops"

record ('p, 'h, 's, 'c, 'z) gateway =
  gw_providers :: 'p
  gw_hints :: 'h
  gw_sources :: 's
  gw_collections :: 'c
  gw_sizes :: 'z

text \<open>
  The environment of one request: the clock at its start and at the end of the lookup for a provider;
  the probes that finish when a list of candidates is
  raced (up to the first that passes), and whether the deadline for discovery passed; connecting;
  which connections are closed; what reading a blob, a size or a collection returns; the content of a
  range of chunks; the size requests of a listing in the order they finish, and whether the
  deadline passed before the rest; and the random boundary of a multipart body. \<open>None\<close> is the
  deadline of the request.
\<close>

record gateway_env =
  ge_now :: instant
  ge_done :: instant
  ge_race :: "(endpoint_id \<times> provenance) list \<Rightarrow> (endpoint_id \<times> duration option \<times> instant) list \<times> bool"
  ge_connect :: "endpoint_id \<Rightarrow> (unit + connection_id) option"
  ge_closed :: "connection_id \<Rightarrow> bool"
  ge_sniff :: "connection_id \<Rightarrow> hash \<Rightarrow> (read_error + u64 \<times> bytes) option"
  ge_size :: "connection_id \<Rightarrow> hash \<Rightarrow> read_error + u64"
  ge_collection :: "connection_id \<Rightarrow> hash \<Rightarrow> (read_error + collection) option"
  ge_fetch :: "connection_id \<Rightarrow> hash \<Rightarrow> u64 \<times> u64 \<Rightarrow> start_result"
  ge_sizes :: "hash list \<Rightarrow> hash list \<times> bool"
  ge_boundary :: string
  ge_guess :: "string \<Rightarrow> string option"
  ge_classify :: "string option \<Rightarrow> bytes \<Rightarrow> string"

section \<open>Finding a provider\<close>

definition NOT_FOUND :: http_error where
  "NOT_FOUND = HttpError 404 ''no verified provider found for this hash''"

definition lookup_candidates :: "endpoint_id list \<Rightarrow> (endpoint_id \<times> probed) list \<Rightarrow> (endpoint_id \<times> provenance) list" where
  "lookup_candidates hinted known = map (\<lambda>p. (p, Linked)) hinted @ map (\<lambda>(p, probed). (p, Verified probed)) known"

definition passed :: "(endpoint_id \<times> duration option \<times> instant) list \<Rightarrow> endpoint_id option" where
  "passed probes = map_option fst (List.find (\<lambda>(_, latency, _). latency \<noteq> None) probes)"

definition connection :: "('p, 'h, 's, 'c, 'z) gateway_ops \<Rightarrow> gateway_env \<Rightarrow> hash \<Rightarrow>
    ('p, 'h, 's, 'c, 'z) gateway \<Rightarrow> (http_error + connection_id) \<times> ('p, 'h, 's, 'c, 'z) gateway" where
  "connection G env hash g =
     (let (hinted, hs) = hints_get (op_hints G) hash (ge_now env) (gw_hints g);
          (miss, ps) = (if hinted = [] then pc_missing (op_providers G) hash (ge_now env) (gw_providers g)
                        else (None, gw_providers g));
          g = g\<lparr>gw_hints := hs, gw_providers := ps\<rparr>
      in case miss of
           Some MissNotFound \<Rightarrow> (Inl NOT_FOUND, g)
         | Some MissTimedOut \<Rightarrow> (Inl TIMEOUT_ERROR, g)
         | None \<Rightarrow>
             (let (known, ps) = pc_providers (op_providers G) hash (ge_now env) ps;
                  (probes, elapsed) = ge_race env (lookup_candidates hinted known);
                  ps = fold (record_probe (op_providers G) hash) probes ps
              in case passed probes of
                   Some provider \<Rightarrow>
                     (let g = g\<lparr>gw_providers := ps,
                                gw_hints := hints_confirm (op_hints G) hash provider (ge_done env) hs\<rparr>
                      in (case ge_connect env provider of
                            None \<Rightarrow> Inl TIMEOUT_ERROR
                          | Some (Inl _) \<Rightarrow> Inl UPSTREAM
                          | Some (Inr conn) \<Rightarrow> Inr conn, g))
                 | None \<Rightarrow>
                     (let miss = (if elapsed then MissTimedOut else MissNotFound)
                      in (Inl (if elapsed then TIMEOUT_ERROR else NOT_FOUND),
                          g\<lparr>gw_providers := pc_record_missing (op_providers G) hash miss (ge_done env) ps\<rparr>))))"

section \<open>Sources\<close>

text \<open>\<open>Path::extension\<close>: after the last dot of the last component, unless the dot starts it.\<close>

definition path_file_name :: "string \<Rightarrow> string option" where
  "path_file_name name =
     (let parts = filter (\<lambda>s. s \<noteq> [] \<and> s \<noteq> ''.'') (split_on CHR ''/'' name)
      in if parts = [] \<or> last parts = ''..'' then None else Some (last parts))"

definition path_extension :: "string \<Rightarrow> string option" where
  "path_extension name =
     (case path_file_name name of
        None \<Rightarrow> None
      | Some file \<Rightarrow>
          (case rsplit_once CHR ''.'' file of
             None \<Rightarrow> None
           | Some (stem, ext) \<Rightarrow> if stem = [] then None else Some ext))"

definition source_on_connection :: "gateway_env \<Rightarrow> connection_id \<Rightarrow> hash \<Rightarrow> string option \<Rightarrow> http_error + blob_source" where
  "source_on_connection env conn hash name =
     (case ge_sniff env conn hash of
        None \<Rightarrow> Inl TIMEOUT_ERROR
      | Some (Inl _) \<Rightarrow> Inl UPSTREAM
      | Some (Inr (sz, prefix)) \<Rightarrow>
          (let supplied = Option.bind (Option.bind name path_extension) (ge_guess env);
               mime = ge_classify env supplied prefix
           in Inr (conn, \<lparr>src_size = sz, src_mime = with_charset mime prefix\<rparr>)))"

definition source_for :: "('p, 'h, 's, 'c, 'z) gateway_ops \<Rightarrow> gateway_env \<Rightarrow> hash \<Rightarrow>
    ('p, 'h, 's, 'c, 'z) gateway \<Rightarrow> (http_error + blob_source) \<times> ('p, 'h, 's, 'c, 'z) gateway" where
  "source_for G env hash g =
     (let (cached, cs) = lru_get (op_sources G) hash (gw_sources g);
          g = g\<lparr>gw_sources := cs\<rparr>;
          fetch = (let (conn, g) = connection G env hash g
                   in case conn of
                        Inl e \<Rightarrow> (Inl e, g)
                      | Inr conn \<Rightarrow>
                          (case source_on_connection env conn hash None of
                             Inl e \<Rightarrow> (Inl e, g)
                           | Inr src \<Rightarrow> (Inr src, g\<lparr>gw_sources := lru_put (op_sources G) hash src (gw_sources g)\<rparr>)))
      in case cached of
           Some src \<Rightarrow> if \<not> ge_closed env (fst src) then (Inr src, g) else fetch
         | None \<Rightarrow> fetch)"

definition size_for :: "('p, 'h, 's, 'c, 'z) gateway_ops \<Rightarrow> gateway_env \<Rightarrow> hash \<Rightarrow> connection_id \<Rightarrow>
    ('p, 'h, 's, 'c, 'z) gateway \<Rightarrow> (read_error + u64) \<times> ('p, 'h, 's, 'c, 'z) gateway" where
  "size_for G env hash conn g =
     (case lru_peek (op_sources G) (gw_sources g) hash of
        Some src \<Rightarrow> (Inr (src_size (snd src)), g)
      | None \<Rightarrow>
          (let (known, zs) = lru_get (op_sizes G) hash (gw_sizes g);
               g = g\<lparr>gw_sizes := zs\<rparr>
           in case known of
                Some sz \<Rightarrow> (Inr sz, g)
              | None \<Rightarrow>
                  (case ge_size env conn hash of
                     Inl e \<Rightarrow> (Inl e, g)
                   | Inr sz \<Rightarrow> (Inr sz, g\<lparr>gw_sizes := lru_put (op_sizes G) hash sz (gw_sizes g)\<rparr>))))"

text \<open>The sizes of a listing; the requests run concurrently, \<open>hashes\<close> is the order they finish in.\<close>

fun sizes_for :: "('p, 'h, 's, 'c, 'z) gateway_ops \<Rightarrow> gateway_env \<Rightarrow> hash list \<Rightarrow> connection_id \<Rightarrow>
    ('p, 'h, 's, 'c, 'z) gateway \<Rightarrow> (hash \<rightharpoonup> u64) \<times> ('p, 'h, 's, 'c, 'z) gateway" where
  "sizes_for G env [] conn g = (Map.empty, g)"
| "sizes_for G env (hash # hashes) conn g =
     (let (r, g) = size_for G env hash conn g;
          (m, g) = sizes_for G env hashes conn g
      in (case r of Inl _ \<Rightarrow> m | Inr sz \<Rightarrow> [hash \<mapsto> sz] ++ m, g))"

section \<open>Collections\<close>

definition collection_on_connection :: "('p, 'h, 's, 'c, 'z) gateway_ops \<Rightarrow> gateway_env \<Rightarrow> hash \<Rightarrow> connection_id \<Rightarrow>
    ('p, 'h, 's, 'c, 'z) gateway \<Rightarrow> (http_error + collection_source) \<times> ('p, 'h, 's, 'c, 'z) gateway" where
  "collection_on_connection G env hash conn g =
     (let (cached, cs) = lru_get (op_collections G) hash (gw_collections g);
          g = g\<lparr>gw_collections := cs\<rparr>;
          fetch = (case ge_collection env conn hash of
                     None \<Rightarrow> (Inl TIMEOUT_ERROR, g)
                   | Some (Inl _) \<Rightarrow> (Inl (HttpError 422 ''not a collection''), g)
                   | Some (Inr coll) \<Rightarrow>
                       (Inr (conn, coll),
                        g\<lparr>gw_collections := lru_put (op_collections G) hash (conn, coll) (gw_collections g)\<rparr>))
      in case cached of
           Some src \<Rightarrow> if \<not> ge_closed env (fst src) then (Inr src, g) else fetch
         | None \<Rightarrow> fetch)"

definition collection_for :: "('p, 'h, 's, 'c, 'z) gateway_ops \<Rightarrow> gateway_env \<Rightarrow> hash \<Rightarrow>
    ('p, 'h, 's, 'c, 'z) gateway \<Rightarrow> (http_error + collection_source) \<times> ('p, 'h, 's, 'c, 'z) gateway" where
  "collection_for G env hash g =
     (let (cached, cs) = lru_get (op_collections G) hash (gw_collections g);
          g = g\<lparr>gw_collections := cs\<rparr>;
          fetch = (let (conn, g) = connection G env hash g
                   in case conn of Inl e \<Rightarrow> (Inl e, g) | Inr conn \<Rightarrow> collection_on_connection G env hash conn g)
      in case cached of
           Some src \<Rightarrow> if \<not> ge_closed env (fst src) then (Inr src, g) else fetch
         | None \<Rightarrow> fetch)"

section \<open>What a lookup for a provider leaves behind\<close>

definition hinted_at :: "('p, 'h, 's, 'c, 'z) gateway_ops \<Rightarrow> gateway_env \<Rightarrow> hash \<Rightarrow> ('p, 'h, 's, 'c, 'z) gateway \<Rightarrow> endpoint_id list" where
  "hinted_at G env hash g = fst (hints_get (op_hints G) hash (ge_now env) (gw_hints g))"

text \<open>The candidates a lookup races, unless a recent failure answers it.\<close>

definition looks_up :: "('p, 'h, 's, 'c, 'z) gateway_ops \<Rightarrow> gateway_env \<Rightarrow> hash \<Rightarrow> ('p, 'h, 's, 'c, 'z) gateway \<Rightarrow>
    (endpoint_id \<times> provenance) list option" where
  "looks_up G env hash g =
     (let (miss, ps) = (if hinted_at G env hash g = [] then pc_missing (op_providers G) hash (ge_now env) (gw_providers g)
                        else (None, gw_providers g))
      in if miss \<noteq> None then None
         else Some (lookup_candidates (hinted_at G env hash g)
                (fst (pc_providers (op_providers G) hash (ge_now env) ps))))"

lemma connection_cases:
  obtains (known) m where "looks_up G env hash g = None" "hinted_at G env hash g = []"
      "fst (pc_missing (op_providers G) hash (ge_now env) (gw_providers g)) = Some m"
      "fst (connection G env hash g) = Inl (if m = MissTimedOut then TIMEOUT_ERROR else NOT_FOUND)"
    | (found) cs probes elapsed p ps where "looks_up G env hash g = Some cs" "ge_race env cs = (probes, elapsed)"
      "passed probes = Some p" "gw_providers (snd (connection G env hash g)) = fold (record_probe (op_providers G) hash) probes ps"
      "fst (connection G env hash g) = (case ge_connect env p of None \<Rightarrow> Inl TIMEOUT_ERROR
         | Some (Inl _) \<Rightarrow> Inl UPSTREAM | Some (Inr conn) \<Rightarrow> Inr conn)"
    | (failed) cs probes elapsed ps where "looks_up G env hash g = Some cs" "ge_race env cs = (probes, elapsed)"
      "passed probes = None"
      "gw_providers (snd (connection G env hash g)) =
         pc_record_missing (op_providers G) hash (if elapsed then MissTimedOut else MissNotFound) (ge_done env) ps"
      "fst (connection G env hash g) = Inl (if elapsed then TIMEOUT_ERROR else NOT_FOUND)"
proof -
  obtain hinted hs where h: "hints_get (op_hints G) hash (ge_now env) (gw_hints g) = (hinted, hs)" by fastforce
  obtain miss ps where m: "(if hinted = [] then pc_missing (op_providers G) hash (ge_now env) (gw_providers g)
      else (None, gw_providers g)) = (miss, ps)" by fastforce
  have hi: "hinted_at G env hash g = hinted" by (simp add: hinted_at_def h)
  show thesis
  proof (cases miss)
    case (Some v)
    with m have "hinted = []" by (auto split: if_splits)
    with m Some show thesis
      by (intro known [of v]) (cases v; simp add: looks_up_def hi connection_def h)+
  next
    case None
    obtain known ps' where k: "pc_providers (op_providers G) hash (ge_now env) ps = (known, ps')" by fastforce
    obtain probes elapsed where r: "ge_race env (lookup_candidates hinted known) = (probes, elapsed)" by fastforce
    have look: "looks_up G env hash g = Some (lookup_candidates hinted known)"
      using m None k by (simp add: looks_up_def hi)
    show thesis
    proof (cases "passed probes")
      case n: None
      show thesis
        by (rule failed [OF look r n]) (use h m None k r n in \<open>simp_all add: connection_def\<close>)
    next
      case (Some p)
      show thesis
        by (rule found [OF look r Some]) (use h m None k r Some in \<open>simp_all add: connection_def\<close>)
    qed
  qed
qed

text \<open>
  What a lookup does to the provider cache are operations of its history; one that a recent failure answers only reads.
\<close>

definition probe_op :: "hash \<Rightarrow> endpoint_id \<times> duration option \<times> instant \<Rightarrow> pc_op" where
  "probe_op hash = (\<lambda>(p, latency, now). case latency of Some l \<Rightarrow> Confirm hash p l now | None \<Rightarrow> Forget hash p)"

lemma fold_probes: "fold (record_probe L hash) probes c = fold (pc_step L) (map (probe_op hash) probes) c"
  by (induction probes arbitrary: c) (auto simp: record_probe_def probe_op_def split: option.split)

lemma connection_ops:
  "\<exists>ops. gw_providers (snd (connection G env hash g)) = fold (pc_step (op_providers G)) ops (gw_providers g) \<and>
     (looks_up G env hash g = None \<longrightarrow> ops = [Missing hash (ge_now env)])"
proof -
  let ?L = "op_providers G" and ?now = "ge_now env"
  obtain hinted hs where h: "hints_get (op_hints G) hash ?now (gw_hints g) = (hinted, hs)" by fastforce
  obtain miss ps where m: "(if hinted = [] then pc_missing ?L hash ?now (gw_providers g) else (None, gw_providers g)) = (miss, ps)"
    by fastforce
  define start where "start = (if hinted = [] then [Missing hash ?now] else [])"
  have ps: "ps = fold (pc_step ?L) start (gw_providers g)" using m by (auto simp: start_def split: if_splits)
  have hi: "hinted_at G env hash g = hinted" by (simp add: hinted_at_def h)
  show ?thesis
  proof (cases miss)
    case (Some v)
    with m have empty: "hinted = []" by (auto split: if_splits)
    have "gw_providers (snd (connection G env hash g)) = ps"
      using h m Some empty by (cases v) (simp_all add: connection_def)
    with ps empty show ?thesis by (intro exI [of _ start]) (simp add: start_def)
  next
    case None
    then have look: "looks_up G env hash g \<noteq> None" using m by (simp add: looks_up_def hi)
    obtain known ps' where k: "pc_providers ?L hash ?now ps = (known, ps')" by fastforce
    obtain probes elapsed where r: "ge_race env (lookup_candidates hinted known) = (probes, elapsed)" by fastforce
    define probed where "probed = start @ [Providers hash ?now] @ map (probe_op hash) probes"
    have "fold (record_probe ?L hash) probes ps' = fold (pc_step ?L) probed (gw_providers g)"
      using k ps by (simp add: probed_def fold_probes)
    then have "\<exists>ops. gw_providers (snd (connection G env hash g)) = fold (pc_step ?L) ops (gw_providers g)"
    proof (cases "passed probes")
      case n: None
      assume "fold (record_probe ?L hash) probes ps' = fold (pc_step ?L) probed (gw_providers g)"
      with h m None k r n show ?thesis
        by (intro exI [of _ "probed @ [RecordMissing hash (if elapsed then MissTimedOut else MissNotFound) (ge_done env)]"])
          (simp add: connection_def)
    next
      case (Some p)
      assume "fold (record_probe ?L hash) probes ps' = fold (pc_step ?L) probed (gw_providers g)"
      with h m None k r Some show ?thesis by (intro exI [of _ probed]) (simp add: connection_def)
    qed
    with look show ?thesis by auto
  qed
qed

lemma passed_last: "\<forall>(q, latency, u) \<in> set fails. latency = None \<Longrightarrow> passed (fails @ [(p, Some l, t)]) = Some p"
  unfolding passed_def by (induction fails) auto

text \<open>
  C26. A lookup for a provider is trusted and remembered. A connection is only made to an endpoint
  that passed its probe in this lookup. After any operations of other requests on the cache of providers, in any
  interleaving, and for as long as it does not evict the hash:
  the endpoint that passed is listed among the known providers, with its latency, for five minutes, unless it is probed
  again or as many other endpoints as the cache holds passed since; and when no probe passed, every request for the
  hash in the next five seconds that no link names a provider for, however many there are, fails the same way,
  without probing anyone, whatever the network would answer, unless another lookup of the hash ended since.
\<close>

theorem connection_remembers:
  assumes "lru_cache (op_providers G) e" "looks_up G env hash g = Some cs" "ge_race env cs = (probes, elapsed)"
    "connection G env hash g = (r, g')"
  shows "(\<forall>conn. r = Inr conn \<longrightarrow> (\<exists>p. passed probes = Some p \<and> ge_connect env p = Some (Inr conn))) \<and>
    (\<forall>fails p l t now ops. probes = fails @ [(p, Some l, t)] \<and> (\<forall>(q, latency, u) \<in> set fails. latency = None) \<and>
       now - t < secs 300 \<and> stays (op_providers G) hash ops (gw_providers g') \<and> length (filter (confirms hash) ops) < 4 \<and>
       (\<forall>op \<in> set ops. \<not> ends_probe hash p op \<and> reads_within hash t (secs 300) op) \<longrightarrow>
       (p, \<lparr>probed_at = t, probed_latency = l\<rparr>) \<in>
         set (fst (pc_providers (op_providers G) hash now (fold (pc_step (op_providers G)) ops (gw_providers g'))))) \<and>
    (\<forall>env' ops g''. passed probes = None \<and> gw_providers g'' = fold (pc_step (op_providers G)) ops (gw_providers g') \<and>
       stays (op_providers G) hash ops (gw_providers g') \<and>
       (\<forall>op \<in> set ops. \<not> ends_miss hash op \<and> reads_within hash (ge_done env) (secs 5) op) \<and>
       hinted_at G env' hash g'' = [] \<and> ge_now env' - ge_done env < secs 5 \<longrightarrow>
       looks_up G env' hash g'' = None \<and> fst (connection G env' hash g'') = r)"
proof (cases rule: connection_cases [of G env hash g])
  case (known m)
  with assms(2) show ?thesis by simp
next
  case (found cs' probes' elapsed' p ps)
  with assms(2-4) have p: "passed probes = Some p"
      and ps: "gw_providers g' = fold (record_probe (op_providers G) hash) probes ps"
      and r: "r = (case ge_connect env p of None \<Rightarrow> Inl TIMEOUT_ERROR
         | Some (Inl _) \<Rightarrow> Inl UPSTREAM | Some (Inr conn) \<Rightarrow> Inr conn)"
    by auto
  have P: "provider_cache (op_providers G) e" using assms(1) by (rule provider_cache.intro)
  have "(q, \<lparr>probed_at = t, probed_latency = l\<rparr>) \<in>
      set (fst (pc_providers (op_providers G) hash now (fold (pc_step (op_providers G)) ops (gw_providers g'))))"
    if probes: "probes = fails @ [(q, Some l, t)]" and ops: "now - t < secs 300"
      "stays (op_providers G) hash ops (gw_providers g')" "length (filter (confirms hash) ops) < 4"
      "\<forall>op \<in> set ops. \<not> ends_probe hash q op \<and> reads_within hash t (secs 300) op" for fails q l t now ops
  proof -
    have g': "gw_providers g' = pc_confirm (op_providers G) hash q l t (fold (record_probe (op_providers G) hash) fails ps)"
      unfolding ps probes by (simp add: record_probe_def)
    show ?thesis
      unfolding g' using ops
      by (intro provider_cache.confirmed_listed [OF P])
        (auto simp: g' PROVIDER_TTL_def MAX_PROVIDERS_def secs_def)
  qed
  with p r show ?thesis by (auto split: option.splits sum.splits)
next
  case (failed cs' probes' elapsed' ps)
  let ?m = "if elapsed then MissTimedOut else MissNotFound"
  from failed assms(2-4) have none: "passed probes = None"
      and ps: "gw_providers g' = pc_record_missing (op_providers G) hash ?m (ge_done env) ps"
      and r: "r = Inl (if elapsed then TIMEOUT_ERROR else NOT_FOUND)"
    by auto
  have P: "provider_cache (op_providers G) e" using assms(1) by (rule provider_cache.intro)
  have "looks_up G env' hash g'' = None \<and> fst (connection G env' hash g'') = r"
    if ops: "gw_providers g'' = fold (pc_step (op_providers G)) ops (gw_providers g')"
      "stays (op_providers G) hash ops (gw_providers g')"
      "\<forall>op \<in> set ops. \<not> ends_miss hash op \<and> reads_within hash (ge_done env) (secs 5) op"
      and quiet: "hinted_at G env' hash g'' = []" "ge_now env' - ge_done env < secs 5" for env' ops g''
  proof -
    have miss: "fst (pc_missing (op_providers G) hash (ge_now env') (gw_providers g'')) = Some ?m"
      unfolding ops(1) ps by (rule provider_cache.recorded_miss_read [OF P])
        (use ops(2,3) quiet(2) in \<open>auto simp: ps MISS_TTL_def\<close>)
    then have "looks_up G env' hash g'' = None"
      using quiet(1) by (auto simp: looks_up_def split: prod.split)
    then show ?thesis
      by (cases rule: connection_cases [of G env' hash g'']) (use miss r in \<open>auto split: if_splits\<close>)
  qed
  with none r show ?thesis by (auto simp: passed_last)
qed

definition sample_gateway where
  "sample_gateway = \<lparr>gw_providers = (9, []), gw_hints = (9, []), gw_sources = (9, []), gw_collections = (9, []),
     gw_sizes = (9, [])\<rparr>"

definition sample_ops where
  "sample_ops = \<lparr>op_providers = list_lru, op_hints = list_lru, op_sources = list_lru, op_collections = list_lru,
     op_sizes = list_lru\<rparr>"

definition sample_env :: gateway_env where
  "sample_env = \<lparr>ge_now = 0, ge_done = 0, ge_race = (\<lambda>_. ([([7], None, 0)], False)), ge_connect = (\<lambda>_. None),
     ge_closed = (\<lambda>_. False), ge_sniff = (\<lambda>_ _. None), ge_size = (\<lambda>_ _. Inl ReadError),
     ge_collection = (\<lambda>_ _. None),
     ge_fetch = (\<lambda>_ _ _. StartError), ge_sizes = (\<lambda>hs. (hs, False)), ge_boundary = ''b'', ge_guess = (\<lambda>_. None), ge_classify = (\<lambda>_ _. [])\<rparr>"

text \<open>A lookup that finds nobody, and two more requests after it: the second reading still finds the failure.\<close>

theorem connection_remembers_witness:
  "fst (connection sample_ops sample_env [1] (snd (connection sample_ops sample_env [1]
      (snd (connection sample_ops sample_env [1] sample_gateway))))) =
     fst (connection sample_ops sample_env [1] sample_gateway)"
proof -
  let ?g1 = "snd (connection sample_ops sample_env [1] sample_gateway)"
  let ?g2 = "snd (connection sample_ops sample_env [1] ?g1)"
  have lru: "lru_cache (op_providers sample_ops) (9, [])"
    unfolding sample_ops_def by (simp add: list_lru.lru_cache_axioms)
  have hints: "hinted_at sample_ops sample_env [1] ?g1 = []" "hinted_at sample_ops sample_env [1] ?g2 = []"
    by (simp_all add: hinted_at_def connection_def hints_get_def sample_ops_def sample_gateway_def sample_env_def
        list_lru_def pc_missing_def pc_providers_def passed_def pc_record_missing_def lru_upsert_def lru_get_mut_def
        missing_at_def entry_default_def list_remove_def MISS_TTL_def secs_def record_probe_def pc_forget_def Let_def)
  have look: "looks_up sample_ops sample_env [1] sample_gateway = Some []"
    by (simp add: looks_up_def hinted_at_def hints_get_def sample_ops_def sample_gateway_def sample_env_def
        list_lru_def pc_missing_def pc_providers_def lookup_candidates_def)
  have race: "ge_race sample_env [] = ([([7], None, 0)], False)" by (simp add: sample_env_def)
  have quiet: "passed [([7], None, 0)] = None" "ge_now sample_env - ge_done sample_env < secs 5"
    by (simp_all add: passed_def sample_env_def secs_def)
  note remembers = connection_remembers [OF lru look race surjective_pairing]
  have "looks_up sample_ops sample_env [1] ?g1 = None"
    using remembers quiet hints(1) by (metis (no_types, lifting) empty_iff empty_set fold_simps(1) stays.simps(1))
  then have g2: "gw_providers ?g2 = fold (pc_step (op_providers sample_ops)) [Missing [1] 0] (gw_providers ?g1)"
    using connection_ops [of sample_ops sample_env "[1]" ?g1] by (auto simp: sample_env_def)
  have kept: "stays (op_providers sample_ops) [1] [Missing [1] 0] (gw_providers ?g1)"
    by (simp add: connection_def hints_get_def sample_ops_def sample_gateway_def sample_env_def
        list_lru_def pc_missing_def pc_providers_def passed_def pc_record_missing_def lru_upsert_def lru_get_mut_def
        missing_at_def entry_default_def list_remove_def MISS_TTL_def secs_def record_probe_def pc_forget_def Let_def)
  have op: "\<forall>op \<in> set [Missing [1] 0]. \<not> ends_miss [1] op \<and> reads_within [1] (ge_done sample_env) (secs 5) op"
    by (simp add: ends_miss_def reads_within_def sample_env_def secs_def)
  from remembers g2 kept op quiet hints(2) show ?thesis by blast
qed

end
