(* ===== verification/Gateway_Routes.thy ===== *)
theory Gateway_Routes
  imports Gateway_State
begin

text \<open>
  The handlers of the gateway's routes, \<open>iroh-link-gateway/src/lib.rs\<close>: from the hash, path and query
  of a request to its response (\<open>blob\<close>, \<open>serve_root\<close>, \<open>collection_path\<close>, \<open>serve_path\<close>,
  \<open>collection_entry\<close>), the response of an error, and the sandbox of path routes. Each handler runs on
  the gateway's state and returns the new one.
\<close>

section \<open>Handlers\<close>

text \<open>
  What the handlers call: percent-encoding, the codecs of identifiers, the chunk arithmetic of Bao,
  rounding and printing of \<open>f64\<close>, and the style sheet of the listing.
\<close>

record http_ext =
  hx_pct :: "(char \<Rightarrow> bool) \<Rightarrow> string \<Rightarrow> string"
  hx_ids :: id_ext
  hx_chunks :: chunk_ops
  hx_rnd :: "rat \<Rightarrow> rat"
  hx_fmt :: "rat \<Rightarrow> string"
  hx_css :: string

text \<open>
  The pages for \<open>?debug\<close> are streamed while their lookups run: the providers of a hash, and the answers
  for a Pkarr key, with its name and the host of a subdomain.
\<close>

datatype http_reply = DebugProviders hash | DebugPkarr bytes string "string option" | Reply response

definition parse_path_hash :: "id_ext \<Rightarrow> string \<Rightarrow> http_error + hash" where
  "parse_path_hash x encoded =
     (case parse_z32_bytes (ie_decode x) (ie_encode x) encoded of
        None \<Rightarrow> Inl (HttpError 400 ''invalid z-base-32 BLAKE3 hash'')
      | Some bs \<Rightarrow> Inr bs)"

text \<open>A blob that is served over a connection; \<open>serve_blob\<close> fetches its content from there.\<close>

definition serve_source :: "http_ext \<Rightarrow> gateway_env \<Rightarrow> caching \<Rightarrow> hash \<Rightarrow> blob_source \<Rightarrow> string option \<Rightarrow> http_method \<Rightarrow>
    request_headers \<Rightarrow> http_error + response" where
  "serve_source x env c hash src download mth headers =
     serve_blob (hx_pct x) (hx_chunks x) (ge_fetch env (fst src) hash) (ge_boundary env) (snd src)
       (ie_encode (hx_ids x) hash) download c mth headers"

definition listing_response :: "string \<Rightarrow> response" where
  "listing_response html =
     \<lparr>rs_status = 200,
      rs_headers = [(''content-type'', ''text/html; charset=utf-8''), (''cache-control'', ''public, no-cache''),
                    (''x-content-type-options'', ''nosniff'')],
      rs_body = TextBody html\<rparr>"

definition redirect_response :: "nat \<Rightarrow> string \<Rightarrow> string \<Rightarrow> response" where
  "redirect_response status location cache =
     \<lparr>rs_status = status, rs_headers = [(''location'', location), (''cache-control'', cache)], rs_body = EmptyBody\<rparr>"

text \<open>The sizes a listing shows; \<open>None\<close> when the deadline passes first, with what finished kept.\<close>

definition listing_sizes :: "('p, 'h, 's, 'c, 'z) gateway_ops \<Rightarrow> gateway_env \<Rightarrow> connection_id \<Rightarrow> hash list \<Rightarrow>
    ('p, 'h, 's, 'c, 'z) gateway \<Rightarrow> (hash \<rightharpoonup> u64) option \<times> ('p, 'h, 's, 'c, 'z) gateway" where
  "listing_sizes G env conn hashes g =
     (let (finished, elapsed) = ge_sizes env hashes;
          (sizes, g) = sizes_for G env finished conn g
      in (if elapsed then None else Some sizes, g))"

definition entry_response :: "http_ext \<Rightarrow> ('p, 'h, 's, 'c, 'z) gateway_ops \<Rightarrow> gateway_env \<Rightarrow> root \<Rightarrow> collection_source \<Rightarrow>
    string \<Rightarrow> string option \<Rightarrow> http_method \<Rightarrow> request_headers \<Rightarrow> ('p, 'h, 's, 'c, 'z) gateway \<Rightarrow>
    (http_error + response) \<times> ('p, 'h, 's, 'c, 'z) gateway" where
  "entry_response x G env r source url_path query mth headers g =
     (let (conn, coll) = source;
          page = (\<lambda>dir e sizes listing_flag. listing_response
            (listing (hx_pct x) (ie_encode (hx_ids x)) (format_size (hx_rnd x) (hx_fmt x)) (hx_css x) r dir e sizes listing_flag))
      in case collection_entry (hx_pct x) r coll url_path query of
           ServeFile hash name download \<Rightarrow>
             (case source_on_connection env conn hash (Some name) of
                Inl e \<Rightarrow> Inl e
              | Inr src \<Rightarrow> serve_source x env (rt_caching r) hash src download mth headers, g)
         | Redirect status location cache \<Rightarrow> (Inr (redirect_response status location cache), g)
         | Listing dir e with_sizes listing_flag \<Rightarrow>
             if with_sizes then
               (let (sizes, g) = listing_sizes G env conn (map snd (en_files e)) g
                in (case sizes of
                      None \<Rightarrow> Inl TIMEOUT_ERROR
                    | Some m \<Rightarrow> Inr (page dir e (Some m) listing_flag), g))
             else (Inr (page dir e None listing_flag), g)
         | NotFound \<Rightarrow> (Inl (HttpError 404 ''path not found in collection''), g))"

definition reply :: "(http_error + response) \<times> 'g \<Rightarrow> (http_error + http_reply) \<times> 'g" where
  "reply r = (map_sum id Reply (fst r), snd r)"

text \<open>The automatic detection reads a root of a plausible size as a collection.\<close>

definition maybe_collection :: "u64 \<Rightarrow> bool" where
  "maybe_collection sz \<longleftrightarrow> sz \<ge> 32 \<and> sz mod 32 = 0 \<and> sz \<le> MAX_COLLECTION_ROOT_BYTES"

definition serve_root :: "http_ext \<Rightarrow> ('p, 'h, 's, 'c, 'z) gateway_ops \<Rightarrow> gateway_env \<Rightarrow> root \<Rightarrow> hash \<Rightarrow> bool \<Rightarrow>
    string option \<Rightarrow> http_method \<Rightarrow> request_headers \<Rightarrow> ('p, 'h, 's, 'c, 'z) gateway \<Rightarrow>
    (http_error + http_reply) \<times> ('p, 'h, 's, 'c, 'z) gateway" where
  "serve_root x G env r hash slash query mth headers g =
     (let (hints, hs) = add_from_query (hx_ids x) (op_hints G) hash query (ge_now env) (gw_hints g);
          g = g\<lparr>gw_hints := hs\<rparr>;
          url_path = (if slash then ''/'' else []);
          download = has_flag query ''download'';
          encoded = ie_encode (hx_ids x) hash;
          plain = (\<lambda>src g. reply (serve_source x env (rt_caching r) hash src (if download then Some encoded else None) mth headers, g))
      in case hints of
           Inl e \<Rightarrow> (Inl e, g)
         | Inr _ \<Rightarrow>
             if has_flag query ''debug'' then (Inr (DebugProviders hash), g)
             else if \<not> download \<and> has_flag query ''tree'' then
               (let (coll, g) = collection_for G env hash g
                in case coll of
                     Inl e \<Rightarrow> (Inl e, g)
                   | Inr coll \<Rightarrow> reply (entry_response x G env r coll url_path query mth headers g))
             else
               (let (src, g) = source_for G env hash g
                in case src of
                     Inl e \<Rightarrow> (Inl e, g)
                   | Inr src \<Rightarrow>
                       if \<not> download \<and> maybe_collection (src_size (snd src)) then
                         (let (coll, g) = collection_on_connection G env hash (fst src) g
                          in case coll of
                               Inl _ \<Rightarrow> plain src g
                             | Inr coll \<Rightarrow> reply (entry_response x G env r coll url_path query mth headers g))
                       else plain src g))"

definition serve_path :: "http_ext \<Rightarrow> ('p, 'h, 's, 'c, 'z) gateway_ops \<Rightarrow> gateway_env \<Rightarrow> root \<Rightarrow> hash \<Rightarrow> string \<Rightarrow>
    string option \<Rightarrow> http_method \<Rightarrow> request_headers \<Rightarrow> ('p, 'h, 's, 'c, 'z) gateway \<Rightarrow>
    (http_error + http_reply) \<times> ('p, 'h, 's, 'c, 'z) gateway" where
  "serve_path x G env r hash path query mth headers g =
     (let (hints, hs) = add_from_query (hx_ids x) (op_hints G) hash query (ge_now env) (gw_hints g);
          g = g\<lparr>gw_hints := hs\<rparr>
      in case hints of
           Inl e \<Rightarrow> (Inl e, g)
         | Inr _ \<Rightarrow>
             if has_flag query ''debug'' then (Inr (DebugProviders hash), g)
             else
               (let (coll, g) = collection_for G env hash g
                in case coll of
                     Inl e \<Rightarrow> (Inl e, g)
                   | Inr coll \<Rightarrow>
                       (let path = ''/'' @ (case strip_prefix ''/'' path of None \<Rightarrow> path | Some p \<Rightarrow> p)
                        in reply (entry_response x G env r coll path query mth headers g))))"

definition blob_route :: "http_ext \<Rightarrow> ('p, 'h, 's, 'c, 'z) gateway_ops \<Rightarrow> gateway_env \<Rightarrow> string \<Rightarrow> string option \<Rightarrow> bool \<Rightarrow>
    http_method \<Rightarrow> request_headers \<Rightarrow> ('p, 'h, 's, 'c, 'z) gateway \<Rightarrow>
    (http_error + http_reply) \<times> ('p, 'h, 's, 'c, 'z) gateway" where
  "blob_route x G env encoded query subdomain mth headers g =
     (case parse_path_hash (hx_ids x) encoded of
        Inl e \<Rightarrow> (Inl e, g)
      | Inr hash \<Rightarrow> serve_root x G env (root_new encoded subdomain) hash subdomain query mth headers g)"

definition collection_path :: "http_ext \<Rightarrow> ('p, 'h, 's, 'c, 'z) gateway_ops \<Rightarrow> gateway_env \<Rightarrow> string \<Rightarrow> string \<Rightarrow>
    string option \<Rightarrow> bool \<Rightarrow> http_method \<Rightarrow> request_headers \<Rightarrow> ('p, 'h, 's, 'c, 'z) gateway \<Rightarrow>
    (http_error + http_reply) \<times> ('p, 'h, 's, 'c, 'z) gateway" where
  "collection_path x G env encoded path query subdomain mth headers g =
     (case parse_path_hash (hx_ids x) encoded of
        Inl e \<Rightarrow> (Inl e, g)
      | Inr hash \<Rightarrow> serve_path x G env (root_new encoded subdomain) hash path query mth headers g)"

definition collection_root :: "http_ext \<Rightarrow> ('p, 'h, 's, 'c, 'z) gateway_ops \<Rightarrow> gateway_env \<Rightarrow> string \<Rightarrow>
    string option \<Rightarrow> bool \<Rightarrow> http_method \<Rightarrow> request_headers \<Rightarrow> ('p, 'h, 's, 'c, 'z) gateway \<Rightarrow>
    (http_error + http_reply) \<times> ('p, 'h, 's, 'c, 'z) gateway" where
  "collection_root x G env encoded query subdomain mth headers g =
     collection_path x G env encoded [] query subdomain mth headers g"

section \<open>Around the handlers\<close>

definition error_response :: "http_error \<Rightarrow> response" where
  "error_response e = (case e of HttpError status reason \<Rightarrow>
     \<lparr>rs_status = status,
      rs_headers = [(''content-type'', ''text/plain; charset=utf-8''), (''cache-control'', ''no-store'')],
      rs_body = TextBody reason\<rparr>)"

text \<open>Responses to requests that named their hash in the path are sandboxed.\<close>

definition PATH_SANDBOX :: string where "PATH_SANDBOX = ''sandbox allow-downloads''"

definition sandbox_path_routes :: "bool \<Rightarrow> response \<Rightarrow> response" where
  "sandbox_path_routes subdomain resp =
     (if subdomain then resp
      else resp\<lparr>rs_headers := filter (\<lambda>(name, _). name \<noteq> ''content-security-policy'') (rs_headers resp) @
             [(''content-security-policy'', PATH_SANDBOX)]\<rparr>)"

text \<open>The gateway only listens on loopback addresses: 127.0.0.0/8 and, for IPv6, \<open>::1\<close>.\<close>

datatype ip_addr = V4 ipv4_addr | V6 "128 word"

definition ip_is_loopback :: "ip_addr \<Rightarrow> bool" where
  "ip_is_loopback ip = (case ip of V4 a \<Rightarrow> drop_bit 24 a = 127 | V6 a \<Rightarrow> a = 1)"

definition validate_listen_addr :: "ip_addr \<Rightarrow> bool" where
  "validate_listen_addr ip = ip_is_loopback ip"

section \<open>What a path serves\<close>

text \<open>
  What Bao guarantees of the providers: every leaf is a piece of the blob with the requested hash,
  and a size that was read is its length. \<open>blobs\<close> maps a hash to its blob.
\<close>

definition verified_env :: "(hash \<Rightarrow> bytes) \<Rightarrow> gateway_env \<Rightarrow> bool" where
  "verified_env blobs env \<longleftrightarrow>
     (\<forall>conn hash. authentic_provider (blobs hash) (ge_fetch env conn hash) \<and>
        (\<forall>sz prefix. ge_sniff env conn hash = Some (Inr (sz, prefix)) \<longrightarrow> unat sz = length (blobs hash)))"

text \<open>MIME types and the boundary are short enough for the multipart length to be counted in a \<open>u64\<close>.\<close>

definition short_env :: "gateway_env \<Rightarrow> bool" where
  "short_env env \<longleftrightarrow> (\<forall>supplied prefix. length (ge_classify env supplied prefix) + length (ge_boundary env) < 2 ^ 31)"

text \<open>The state in which the handler asks for the collection: the link's providers are known.\<close>

definition hinted_gateway :: "http_ext \<Rightarrow> ('p, 'h, 's, 'c, 'z) gateway_ops \<Rightarrow> gateway_env \<Rightarrow> hash \<Rightarrow> string option \<Rightarrow>
    ('p, 'h, 's, 'c, 'z) gateway \<Rightarrow> ('p, 'h, 's, 'c, 'z) gateway" where
  "hinted_gateway x G env hash query g =
     g\<lparr>gw_hints := snd (add_from_query (hx_ids x) (op_hints G) hash query (ge_now env) (gw_hints g))\<rparr>"

definition path_name :: "string \<Rightarrow> string" where
  "path_name path = (case strip_prefix ''/'' path of None \<Rightarrow> path | Some p \<Rightarrow> p)"

lemma length_with_charset: "length (with_charset mime prefix) \<le> length mime + 18"
  by (simp add: with_charset_def)

lemma verified_source:
  assumes "verified_env blobs env" "short_env env" "source_on_connection env conn hash name = Inr src"
  shows "fst src = conn" "unat (src_size (snd src)) = length (blobs hash)"
    "length (src_mime (snd src)) + length (ge_boundary env) < 2 ^ 32"
proof -
  obtain sz prefix mime where s: "ge_sniff env conn hash = Some (Inr (sz, prefix))"
      "\<exists>supplied. mime = ge_classify env supplied prefix"
      "src = (conn, \<lparr>src_size = sz, src_mime = with_charset mime prefix\<rparr>)"
    using assms(3) by (auto simp: source_on_connection_def Let_def split: option.splits sum.splits)
  then have "length mime + length (ge_boundary env) < 2 ^ 31" using assms(2) by (auto simp: short_env_def)
  with s length_with_charset [of mime prefix] assms(1)
  show "fst src = conn" "unat (src_size (snd src)) = length (blobs hash)"
      "length (src_mime (snd src)) + length (ge_boundary env) < 2 ^ 32"
    by (auto simp: verified_env_def)
qed

lemma reply_Reply: "fst (reply r) = Inr (Reply resp) \<longleftrightarrow> fst r = Inr resp"
  by (cases "fst r") (auto simp: reply_def)

text \<open>The handler of a path, once its collection is there.\<close>

lemma collection_path_entry:
  assumes "parse_path_hash (hx_ids x) encoded = Inr hash"
    "collection_for G env hash (hinted_gateway x G env hash query g) = (Inr source, g')"
  shows "fst (collection_path x G env encoded path query subdomain mth headers g) = Inr (Reply resp) \<longleftrightarrow>
    fst (add_from_query (hx_ids x) (op_hints G) hash query (ge_now env) (gw_hints g)) = Inr () \<and>
    \<not> has_flag query ''debug'' \<and>
    fst (entry_response x G env (root_new encoded subdomain) source (''/'' @ path_name path) query mth headers g') = Inr resp"
proof -
  obtain hints hs where h: "add_from_query (hx_ids x) (op_hints G) hash query (ge_now env) (gw_hints g) = (hints, hs)"
    by fastforce
  then have "collection_for G env hash (g\<lparr>gw_hints := hs\<rparr>) = (Inr source, g')" using assms(2) by (simp add: hinted_gateway_def)
  with h assms(1) show ?thesis
    by (cases hints) (auto simp: collection_path_def serve_path_def path_name_def Let_def reply_Reply)
qed

lemma entry_response_streamed:
  assumes "verified_env blobs env" "short_env env" "rs_body resp = Streamed pieces None"
    "fst (entry_response x G env r (conn, coll) u query mth headers g) = Inr resp"
  shows "\<exists>hash name src download. collection_entry (hx_pct x) r coll u query = ServeFile hash name download \<and>
    unat (src_size src) = length (blobs hash) \<and> concat pieces = selected_body (blobs hash) src (ge_boundary env)
      (choose_selection (etag (ie_encode (hx_ids x) hash)) mth headers (src_size src))"
proof -
  obtain hash name download where e: "collection_entry (hx_pct x) r coll u query = ServeFile hash name download"
    using assms(3,4)
    by (auto simp: entry_response_def redirect_response_def listing_response_def Let_def
        split: response_plan.splits if_splits prod.splits option.splits)
  then obtain src where src: "source_on_connection env conn hash (Some name) = Inr src"
      "serve_source x env (rt_caching r) hash src download mth headers = Inr resp"
    using assms(4) by (auto simp: entry_response_def Let_def split: sum.splits)
  note v = verified_source [OF assms(1,2) src(1)]
  have "authentic_provider (blobs hash) (ge_fetch env (fst src) hash)" using assms(1) by (simp add: verified_env_def)
  from serve_blob_body [OF this v(2,3) src(2) [unfolded serve_source_def]] assms(3) e v(2) show ?thesis by auto
qed

lemma served_file:
  assumes "collection_entry pct r coll u q = ServeFile hash name download"
  shows "(name, hash) \<in> set coll \<and> (name = url_name u \<or> name = entry_dir (url_name u) @ INDEX_FILE \<and> ends_with u ''/'')"
proof (cases "file_at coll (url_name u)")
  case (Some h)
  with assms show ?thesis by (auto simp: collection_entry_file [OF Some] file_at_Some dest: map_of_SomeD)
next
  case None
  with assms obtain e where e: "entries_new (entry_dir (url_name u)) coll = Some e"
    by (cases "entries_new (entry_dir (url_name u)) coll") (auto simp: collection_entry_NotFound [THEN iffD2])
  show ?thesis by (rule collection_entry_dir [OF None e, where q = q and pct = pct and r = r]) (use assms in auto)
qed

text \<open>Both halves of what a path serves: nothing but what the collection names, and all of it.\<close>

lemma path_serves_only:
  assumes "verified_env blobs env" "short_env env" "parse_path_hash (hx_ids x) encoded = Inr hash"
    "collection_for G env hash (hinted_gateway x G env hash query g) = (Inr (conn, coll), g')"
    "fst (collection_path x G env encoded path query subdomain mth headers g) = Inr (Reply resp)"
    "rs_body resp = Streamed pieces None"
  shows "\<exists>name h src. (name, h) \<in> set coll \<and> (name = path_name path \<or> name = entry_dir (path_name path) @ INDEX_FILE) \<and>
    unat (src_size src) = length (blobs h) \<and> concat pieces = selected_body (blobs h) src (ge_boundary env)
      (choose_selection (etag (ie_encode (hx_ids x) h)) mth headers (src_size src))"
proof -
  have "fst (entry_response x G env (root_new encoded subdomain) (conn, coll) (''/'' @ path_name path) query mth headers g') = Inr resp"
    using assms(5) collection_path_entry [OF assms(3,4), of path subdomain mth headers] by blast
  from entry_response_streamed [OF assms(1,2,6) this] served_file show ?thesis
    by (metis (no_types, lifting) url_name_slash)
qed

lemma path_serves_all:
  assumes "verified_env blobs env" "short_env env" "parse_path_hash (hx_ids x) encoded = Inr hash"
    "collection_for G env hash (hinted_gateway x G env hash None g) = (Inr (conn, coll), g')"
    "plain_request headers" "file_at coll (path_name path) = Some h" "ge_sniff env conn h = Some (Inr (sz, prefix))"
    "streams_blob (hx_chunks x) (blobs h) (ge_fetch env conn h) sz"
  shows "\<exists>resp. fst (collection_path x G env encoded path None subdomain GET headers g) = Inr (Reply resp) \<and>
    rs_status resp = 200 \<and> map_of (rs_headers resp) ''content-length'' = Some (decimal (length (blobs h))) \<and>
    (if blobs h = [] then rs_body resp = EmptyBody
     else \<exists>pieces. rs_body resp = Streamed pieces None \<and> concat pieces = blobs h)"
proof -
  let ?u = "''/'' @ path_name path" and ?r = "root_new encoded subdomain"
  obtain src where src: "source_on_connection env conn h (Some (path_name path)) = Inr src" "src_size (snd src) = sz"
    using assms(7) by (auto simp: source_on_connection_def Let_def)
  note v = verified_source [OF assms(1,2) src(1)]
  have auth: "authentic_provider (blobs h) (ge_fetch env conn h)" using assms(1) by (simp add: verified_env_def)
  obtain resp where resp: "serve_source x env (rt_caching ?r) h src None GET headers = Inr resp" "rs_status resp = 200"
      "blobs h = [] \<longrightarrow> rs_body resp = EmptyBody"
      "map_of (rs_headers resp) ''content-length'' = Some (decimal (length (blobs h)))"
      "blobs h \<noteq> [] \<longrightarrow> (\<exists>pieces. rs_body resp = Streamed pieces None \<and> concat pieces = blobs h)"
    using serve_blob_plain [OF auth v(2) assms(5), of "hx_chunks x"] assms(8) src(2) v(1) unfolding serve_source_def by metis
  have "fst (entry_response x G env ?r (conn, coll) ?u None GET headers g') = Inr resp"
    using collection_entry_file [of coll ?u h] assms(6) src(1) resp(1)
    unfolding url_name_slash by (simp add: entry_response_def has_flag_def)
  then have "fst (collection_path x G env encoded path None subdomain GET headers g) = Inr (Reply resp)"
    using collection_path_entry [OF assms(3,4), of path subdomain GET headers]
    by (simp add: add_from_query_def parse_query_def has_flag_def)
  with resp(2-5) show ?thesis by auto
qed

text \<open>
  A leading slash is dropped twice, by \<open>serve_path\<close> and by \<open>collection_entry\<close>: the URL of a name that
  starts with an empty segment serves the name without it.
\<close>

lemma leading_slash_lost:
  assumes "\<not> starts_with name ''/''"
  shows "serve_path x G env r hash (''/'' @ name) query mth headers g = serve_path x G env r hash name query mth headers g"
proof -
  have "path_name (''/'' @ name) = name" "path_name name = name"
    using assms strip_prefix_append [of "''/''" name]
    by (simp_all add: path_name_def starts_with_def strip_prefix_def del: append.simps)
  then show ?thesis unfolding serve_path_def path_name_def by presburger
qed

text \<open>
  C32. A path into a collection delivers the content the collection names there, from request to
  body. Whenever the handler answers a request for a path with a body that streams to its end, that body is
  exactly what the request selected of a blob to which the collection gives the requested name (or the
  name of the directory's \<open>index.html\<close>), however the state, the caches and the providers got there. And a
  plain request for the name of a file with nothing below it is answered with status 200, the
  length of the blob and all of its bytes, whenever a provider streams them.
\<close>

theorem path_serves_content:
  assumes "verified_env blobs env" "short_env env" "parse_path_hash (hx_ids x) encoded = Inr hash"
    "collection_for G env hash (hinted_gateway x G env hash query g) = (Inr (conn, coll), g')"
  shows "(\<forall>resp pieces. fst (collection_path x G env encoded path query subdomain mth headers g) = Inr (Reply resp) \<and>
      rs_body resp = Streamed pieces None \<longrightarrow>
      (\<exists>name h src. (name, h) \<in> set coll \<and> (name = path_name path \<or> name = entry_dir (path_name path) @ INDEX_FILE) \<and>
         unat (src_size src) = length (blobs h) \<and> concat pieces = selected_body (blobs h) src (ge_boundary env)
           (choose_selection (etag (ie_encode (hx_ids x) h)) mth headers (src_size src)))) \<and>
    (\<forall>h sz prefix. query = None \<and> mth = GET \<and> plain_request headers \<and> file_at coll (path_name path) = Some h \<and>
      ge_sniff env conn h = Some (Inr (sz, prefix)) \<and> streams_blob (hx_chunks x) (blobs h) (ge_fetch env conn h) sz \<longrightarrow>
      (\<exists>resp. fst (collection_path x G env encoded path query subdomain mth headers g) = Inr (Reply resp) \<and>
         rs_status resp = 200 \<and> map_of (rs_headers resp) ''content-length'' = Some (decimal (length (blobs h))) \<and>
         (if blobs h = [] then rs_body resp = EmptyBody
          else \<exists>pieces. rs_body resp = Streamed pieces None \<and> concat pieces = blobs h)))"
  using path_serves_only [OF assms] path_serves_all [OF assms(1-3)] assms(4) by (intro conjI allI impI) blast+

definition sample_key :: bytes where "sample_key = replicate 32 0"

definition sample_ext :: http_ext where
  "sample_ext = \<lparr>hx_pct = pct_reference,
     hx_ids = \<lparr>ie_decode = (\<lambda>_. Some sample_key), ie_encode = (\<lambda>_. replicate 52 CHR ''y''),
       ie_from_bytes = Some, ie_from_str = (\<lambda>_. None)\<rparr>,
     hx_chunks = sample_chunks, hx_rnd = id, hx_fmt = (\<lambda>_. []), hx_css = []\<rparr>"

definition serving_env :: gateway_env where
  "serving_env = sample_env\<lparr>ge_sniff := (\<lambda>_ _. Some (Inr (4, [1, 2, 3, 4]))), ge_fetch := (\<lambda>_ _. sample_fetch)\<rparr>"

definition serving_gateway where
  "serving_gateway = sample_gateway\<lparr>gw_collections := (9, [(sample_key, (7, site))])\<rparr>"

theorem path_serves_content_witness:
  "\<exists>resp pieces. fst (collection_path sample_ext sample_ops serving_env (replicate 52 CHR ''y'') ''a/b.txt'' None False GET
      sample_request serving_gateway) = Inr (Reply resp) \<and>
    rs_status resp = 200 \<and> rs_body resp = Streamed pieces None \<and> concat pieces = [1, 2, 3, 4]"
proof -
  let ?blobs = "\<lambda>_ :: hash. [1, 2, 3, 4] :: bytes"
  have env: "verified_env ?blobs serving_env" "short_env serving_env"
    by (auto simp: verified_env_def short_env_def serving_env_def sample_env_def authentic_provider_def sample_fetch_def
        authentic_def leaf_of_def byte_slice_def)
  have key: "parse_path_hash (hx_ids sample_ext) (replicate 52 CHR ''y'') = Inr sample_key"
    by (simp add: parse_path_hash_def sample_ext_def parse_z32_bytes_def sample_key_def)
  have coll: "fst (collection_for sample_ops serving_env sample_key
      (hinted_gateway sample_ext sample_ops serving_env sample_key None serving_gateway)) = Inr (7, site)"
    by (simp add: collection_for_def hinted_gateway_def add_from_query_def parse_query_def sample_ops_def serving_env_def
        sample_env_def serving_gateway_def sample_gateway_def list_lru_def lru_get_def Let_def)
  have name: "file_at site (path_name ''a/b.txt'') = Some [2]"
    by (simp add: path_name_def strip_prefix_def file_at_def site_def starts_with_def)
  have plain: "plain_request sample_request" by (simp add: plain_request_def sample_request_def)
  have blob: "streams_blob (hx_chunks sample_ext) [1, 2, 3, 4] (ge_fetch serving_env 7 [2]) 4"
    by (simp add: streams_blob_def serving_env_def sample_fetch_def)
  have sniff: "ge_sniff serving_env 7 [2] = Some (Inr (4, [1, 2, 3, 4]))" by (simp add: serving_env_def)
  obtain g' where "collection_for sample_ops serving_env sample_key
      (hinted_gateway sample_ext sample_ops serving_env sample_key None serving_gateway) = (Inr (7, site), g')"
    using coll by (metis prod.collapse)
  from path_serves_content [OF env key this, of "''a/b.txt''" False GET sample_request] plain name sniff blob
  show ?thesis by auto
qed

end
