(* ===== verification/Pkarr_Redirect.thy ===== *)
theory Pkarr_Redirect
  imports Pkarr Gateway_Routes
begin

text \<open>
  Pkarr names in the gateway, \<open>iroh-link-gateway/src/pkarr_redirect.rs\<close>: the cache of verified
  packets, taking the newest answer of the DHT, the target an apex HTTPS record names, and the
  handler that serves content or redirects.
\<close>

section \<open>The cache\<close>

definition MAX_CACHE_TTL :: duration where "MAX_CACHE_TTL = secs 30"

type_synonym 'c packet_lru = "('c, bytes, instant \<times> mutable_item) lru_ops"

definition packet_cache_get :: "'c packet_lru \<Rightarrow> bytes \<Rightarrow> instant \<Rightarrow> 'c \<Rightarrow> mutable_item option \<times> 'c" where
  "packet_cache_get L key now c =
     (let c = (case lru_peek L c key of
                 Some (expires, _) \<Rightarrow> if expires \<le> now then lru_pop L key c else c
               | None \<Rightarrow> c);
          (found, c) = lru_get L key c
      in (map_option snd found, c))"

definition packet_ttl :: "pk_packet \<Rightarrow> duration" where
  "packet_ttl packet =
     min (secs (case map (\<lambda>rr. unat (pk_ttl rr)) packet of [] \<Rightarrow> 0 | t # ts \<Rightarrow> Min (set (t # ts)))) MAX_CACHE_TTL"

definition packet_cache_insert :: "'c packet_lru \<Rightarrow> bytes \<Rightarrow> mutable_item \<Rightarrow> pk_packet \<Rightarrow> instant \<Rightarrow> 'c \<Rightarrow> 'c" where
  "packet_cache_insert L key item packet now c =
     (let ttl = packet_ttl packet in if ttl \<noteq> 0 then lru_put L key (now + ttl, item) c else c)"

section \<open>Resolving\<close>

definition verified_item :: "mutable_item \<Rightarrow> bytes \<Rightarrow> http_error + mutable_item" where
  "verified_item item key =
     (if mi_seq item < 0 \<or> mi_key item \<noteq> key then Inl (HttpError 502 ''invalid Pkarr key or timestamp'')
      else Inr item)"

text \<open>The answers after the first that arrive before the grace period or the lookup ends.\<close>

fun newest_of :: "bytes \<Rightarrow> mutable_item \<Rightarrow> mutable_item list \<Rightarrow> http_error + mutable_item" where
  "newest_of key newest [] = Inr newest"
| "newest_of key newest (item # items) =
     (case verified_item item key of
        Inl e \<Rightarrow> Inl e
      | Inr item \<Rightarrow> newest_of key (if mi_seq item > mi_seq newest then item else newest) items)"

definition newest_verified :: "bytes \<Rightarrow> mutable_item list \<Rightarrow> http_error + mutable_item" where
  "newest_verified key items =
     (case items of
        [] \<Rightarrow> Inl (HttpError 404 ''no Pkarr packet found'')
      | item # items \<Rightarrow>
          (case verified_item item key of Inl e \<Rightarrow> Inl e | Inr item \<Rightarrow> newest_of key item items))"

text \<open>\<open>None\<close> is a lookup the DHT could not start.\<close>

definition resolve_pkarr :: "bytes \<Rightarrow> mutable_item list option \<Rightarrow> http_error + mutable_item" where
  "resolve_pkarr key items =
     (case items of None \<Rightarrow> Inl (HttpError 502 ''Pkarr lookup failed'') | Some items \<Rightarrow> newest_verified key items)"

section \<open>Targets\<close>

definition trim_end_dots :: "string \<Rightarrow> string" where
  "trim_end_dots s = rev (dropWhile (\<lambda>c. c = CHR ''.'') (rev s))"

fun target_ports :: "svc_param list \<Rightarrow> string \<Rightarrow> string option" where
  "target_ports [] target = Some target"
| "target_ports (Mandatory # ps) target = None"
| "target_ports (NoDefaultAlpn # ps) target = None"
| "target_ports (Port p # ps) target =
     (if p = 0 then None
      else target_ports ps (if p \<noteq> 443 then target @ '':'' @ decimal (unat p) else target))"
| "target_ports (OtherParam # ps) target = target_ports ps target"

definition authority :: "svcb \<Rightarrow> string option" where
  "authority s =
     (let name = trim_end_dots (sv_target s)
      in if \<not> is_hostname name then None
         else if sv_priority s \<noteq> 0 then target_ports (sv_params s) name else Some name)"

definition eq_ignore_ascii_case :: "string \<Rightarrow> string \<Rightarrow> bool" where
  "eq_ignore_ascii_case a b \<longleftrightarrow> to_ascii_lowercase a = to_ascii_lowercase b"

definition target_of :: "pk_record \<Rightarrow> (u16 \<times> string) option" where
  "target_of record =
     (case pk_rdata record of HTTPS s \<Rightarrow> map_option (Pair (sv_priority s)) (authority s) | OtherRdata \<Rightarrow> None)"

text \<open>Strings are compared by their bytes.\<close>

definition byte_values :: "string \<Rightarrow> nat list" where "byte_values s = map of_char s"

fun less_target :: "u16 \<times> string \<Rightarrow> u16 \<times> string \<Rightarrow> bool" where
  "less_target (p, s) (q, t) \<longleftrightarrow>
     p < q \<or> p = q \<and> (byte_values s, byte_values t) \<in> lexord {(x, y). x < y}"

fun min_target :: "(u16 \<times> string) list \<Rightarrow> (u16 \<times> string) option" where
  "min_target [] = None"
| "min_target (t # ts) = (case min_target ts of None \<Rightarrow> Some t | Some m \<Rightarrow> Some (if less_target m t then m else t))"

definition target :: "pk_packet \<Rightarrow> string \<Rightarrow> string option" where
  "target packet key =
     map_option snd (min_target (List.map_filter target_of
       (filter (\<lambda>r. pk_in r \<and> eq_ignore_ascii_case (pk_name r) key) packet)))"

definition content_hash :: "id_ext \<Rightarrow> string \<Rightarrow> hash option" where
  "content_hash x auth =
     Option.bind (Option.bind (strip_suffix BLAKE3_DOMAIN auth) (strip_suffix ''.''))
       (parse_z32_bytes (ie_decode x) (ie_encode x))"

section \<open>The handler\<close>

definition parse_key :: "id_ext \<Rightarrow> string \<Rightarrow> http_error + bytes" where
  "parse_key x encoded =
     (case parse_z32_bytes (ie_decode x) (ie_encode x) encoded of
        None \<Rightarrow> Inl (HttpError 400 ''invalid z-base-32 Pkarr public key'')
      | Some bs \<Rightarrow> Inr bs)"

datatype pkarr_plan =
    PkarrDebug bytes string
  | PkarrRoot root hash bool
  | PkarrPath root hash string
  | PkarrRedirect string

text \<open>
  \<open>uri_path\<close> is the path the request was routed by and \<open>decode\<close> undoes percent-encoding, failing on
  what is not UTF-8. \<open>lookup\<close> is the result of resolving the key, \<open>None\<close> when its deadline passes.
\<close>

definition pkarr_target :: "'c packet_lru \<Rightarrow> pkarr_ext \<Rightarrow> string \<Rightarrow> bytes \<Rightarrow> instant \<Rightarrow> instant \<Rightarrow>
    (http_error + mutable_item) option \<Rightarrow> 'c \<Rightarrow> (http_error + string) \<times> 'c" where
  "pkarr_target L x encoded key t1 t2 lookup c =
     (let (cached, c) = packet_cache_get L key t1 c;
          item = (case cached of
                    Some item \<Rightarrow> Inr item
                  | None \<Rightarrow> (case lookup of None \<Rightarrow> Inl (HttpError 504 ''Pkarr lookup timed out'') | Some r \<Rightarrow> r))
      in case item of
           Inl e \<Rightarrow> (Inl e, c)
         | Inr item \<Rightarrow>
             (case px_parse x (mi_value item) of
                None \<Rightarrow> (Inl (HttpError 502 ''invalid Pkarr DNS packet''), c)
              | Some packet \<Rightarrow>
                  (case target packet encoded of
                     None \<Rightarrow> Inl (HttpError 422 ''no supported apex HTTPS target'')
                   | Some a \<Rightarrow> Inr a,
                   if cached = None then packet_cache_insert L key item packet t2 c else c)))"

definition redirect :: "'c packet_lru \<Rightarrow> pkarr_ext \<Rightarrow> id_ext \<Rightarrow> (string \<Rightarrow> string option) \<Rightarrow> string \<Rightarrow> string option \<Rightarrow>
    bool \<Rightarrow> instant \<Rightarrow> instant \<Rightarrow> (http_error + mutable_item) option \<Rightarrow> 'c \<Rightarrow> (http_error + pkarr_plan) \<times> 'c" where
  "redirect L x ids decode uri_path query subdomain t1 t2 lookup c =
     (let rest = (case strip_prefix ''/pkarr/'' uri_path of None \<Rightarrow> uri_path | Some r \<Rightarrow> r);
          (encoded, path) = (case split_once CHR ''/'' rest of None \<Rightarrow> (rest, ''/'') | Some (k, p) \<Rightarrow> (k, ''/'' @ p))
      in case parse_key ids encoded of
           Inl e \<Rightarrow> (Inl e, c)
         | Inr key \<Rightarrow>
             if has_flag query ''debug'' then (Inr (PkarrDebug key encoded), c)
             else
               (let (auth, c) = pkarr_target L x encoded key t1 t2 lookup c
                in case auth of
                     Inl e \<Rightarrow> (Inl e, c)
                   | Inr auth \<Rightarrow>
                       (case content_hash ids auth of
                          Some hash \<Rightarrow>
                            (let r = root_at encoded (if subdomain then [] else ''/pkarr/'' @ encoded) Revalidate
                             in (case decode (dropWhile (\<lambda>ch. ch = CHR ''/'') path) of
                                   None \<Rightarrow> Inl (HttpError 400 ''path is not valid UTF-8'')
                                 | Some p \<Rightarrow>
                                     if p = [] then Inr (PkarrRoot r hash (subdomain \<or> CHR ''/'' \<in> set rest))
                                     else Inr (PkarrPath r hash p), c))
                        | None \<Rightarrow>
                            (Inr (PkarrRedirect (''https://'' @ auth @ path @
                               (case query of None \<Rightarrow> [] | Some q \<Rightarrow> ''?'' @ q))), c))))"

text \<open>
  The handler with its response: content is served by the handlers of hashes. The provider's codec
  of identifiers is that of the gateway.
\<close>

definition pkarr_response :: "http_ext \<Rightarrow> ('p, 'h, 's, 'c, 'z) gateway_ops \<Rightarrow> gateway_env \<Rightarrow> string option \<Rightarrow> string option \<Rightarrow>
    http_method \<Rightarrow> request_headers \<Rightarrow> pkarr_plan \<Rightarrow> ('p, 'h, 's, 'c, 'z) gateway \<Rightarrow>
    (http_error + http_reply) \<times> ('p, 'h, 's, 'c, 'z) gateway" where
  "pkarr_response X G env query host method headers plan g =
     (case plan of
        PkarrDebug key encoded \<Rightarrow> (Inr (DebugPkarr key encoded host), g)
      | PkarrRoot r hash slash \<Rightarrow> serve_root X G env r hash slash query method headers g
      | PkarrPath r hash path \<Rightarrow> serve_path X G env r hash path query method headers g
      | PkarrRedirect location \<Rightarrow>
          (Inr (Reply \<lparr>rs_status = 307, rs_headers = [(''location'', location), (''cache-control'', ''no-store'')],
                      rs_body = EmptyBody\<rparr>), g))"

definition pkarr_route :: "'k packet_lru \<Rightarrow> pkarr_ext \<Rightarrow> http_ext \<Rightarrow> ('p, 'h, 's, 'c, 'z) gateway_ops \<Rightarrow> gateway_env \<Rightarrow>
    (string \<Rightarrow> string option) \<Rightarrow> string \<Rightarrow> string option \<Rightarrow> bool \<Rightarrow> string option \<Rightarrow> http_method \<Rightarrow> request_headers \<Rightarrow>
    instant \<Rightarrow> instant \<Rightarrow> (http_error + mutable_item) option \<Rightarrow> 'k \<Rightarrow> ('p, 'h, 's, 'c, 'z) gateway \<Rightarrow>
    (http_error + http_reply) \<times> 'k \<times> ('p, 'h, 's, 'c, 'z) gateway" where
  "pkarr_route L x X G env decode uri_path query subdomain host method headers t1 t2 lookup c g =
     (let (plan, c) = redirect L x (hx_ids X) decode uri_path query subdomain t1 t2 lookup c
      in case plan of
           Inl e \<Rightarrow> (Inl e, c, g)
         | Inr plan \<Rightarrow>
             (let (r, g) = pkarr_response X G env query (if subdomain then host else None) method headers plan g
              in (r, c, g)))"

section \<open>Lemmas\<close>

text \<open>What is used of z-base-32: 32 bytes become 52 letters and digits that decode to them.\<close>

definition z32_ok :: "pkarr_ext \<Rightarrow> bytes \<Rightarrow> bool" where
  "z32_ok x bs \<longleftrightarrow> length bs = 32 \<and> length (px_z32 x bs) = 52 \<and> list_all is_alphanumeric (px_z32 x bs) \<and>
     px_unz32 x (px_z32 x bs) = Some bs"

lemma z32_chars: "z32_ok x bs \<Longrightarrow> \<not> is_alphanumeric c \<Longrightarrow> c \<notin> set (px_z32 x bs)"
  by (auto simp: z32_ok_def list_all_iff)

lemma parse_z32_ok: "z32_ok x bs \<Longrightarrow> parse_z32_bytes (px_unz32 x) (px_z32 x) (px_z32 x bs) = Some bs"
  by (simp add: z32_ok_def parse_z32_bytes_def)

definition answer_ok :: "bytes \<Rightarrow> mutable_item \<Rightarrow> mutable_item \<Rightarrow> bool" where
  "answer_ok key item a \<longleftrightarrow> mi_key a = key \<and> 0 \<le> mi_seq a \<and> (mi_seq a < mi_seq item \<or> a = item)"

lemma answer_verified: "answer_ok key item a \<Longrightarrow> verified_item a key = Inr a"
  by (simp add: answer_ok_def verified_item_def)

lemma newest_of_newest:
  assumes "newest = item \<or> item \<in> set items" "answer_ok key item newest" "list_all (answer_ok key item) items"
  shows "newest_of key newest items = Inr item"
  using assms
proof (induction items arbitrary: newest)
  case (Cons a items)
  let ?n = "if mi_seq a > mi_seq newest then a else newest"
  have a: "answer_ok key item a" and items: "list_all (answer_ok key item) items" using Cons.prems(3) by simp_all
  have "?n = item \<or> item \<in> set items"
  proof (cases "item \<in> set items")
    case False
    with Cons.prems(1) have "newest = item \<or> a = item" by auto
    with a Cons.prems(2) show ?thesis unfolding answer_ok_def by force
  qed simp
  moreover have "answer_ok key item ?n" using a Cons.prems(2) by (cases "mi_seq a > mi_seq newest") simp_all
  ultimately have "newest_of key ?n items = Inr item" using items by (rule Cons.IH)
  then show ?case using answer_verified [OF a] by simp
qed simp

text \<open>Among verified answers the one with the highest sequence number is used.\<close>

lemma newest_verified_newest:
  assumes "item \<in> set answers" "list_all (answer_ok key item) answers"
  shows "newest_verified key answers = Inr item"
proof (cases answers)
  case (Cons a as)
  with assms have "newest_of key a as = Inr item" by (intro newest_of_newest) auto
  moreover have "verified_item a key = Inr a" using Cons assms(2) answer_verified [of key item a] by simp
  ultimately show ?thesis by (simp add: newest_verified_def Cons)
qed (use assms in simp)

lemma ends_t: "strip_suffix ''.'' (s @ ''t'') = None" "trim_end_dots (s @ ''t'') = s @ ''t''"
  by (simp_all add: strip_suffix_def strip_prefix_def trim_end_dots_def)

lemma blake3_authority:
  assumes "is_hostname (z @ ''.'' @ BLAKE3_DOMAIN)"
  shows "authority \<lparr>sv_priority = 0, sv_target = z @ ''.'' @ BLAKE3_DOMAIN, sv_params = []\<rparr> =
    Some (z @ ''.'' @ BLAKE3_DOMAIN)"
proof -
  have "trim_end_dots (z @ ''.'' @ BLAKE3_DOMAIN) = z @ ''.'' @ BLAKE3_DOMAIN"
    using ends_t(2) [of "z @ ''.blake3.ne''"] by (simp add: BLAKE3_DOMAIN_def)
  with assms show ?thesis by (simp add: authority_def)
qed

lemma blake3_content_hash:
  assumes "z32_ok x hash" "ie_encode ids = px_z32 x" "ie_decode ids = px_unz32 x"
  shows "content_hash ids (px_z32 x hash @ ''.'' @ BLAKE3_DOMAIN) = Some hash"
proof -
  have "strip_suffix BLAKE3_DOMAIN (px_z32 x hash @ ''.'' @ BLAKE3_DOMAIN) = Some (px_z32 x hash @ ''.'')"
    "strip_suffix ''.'' (px_z32 x hash @ ''.'') = Some (px_z32 x hash)"
    by (simp_all add: strip_suffix_Some)
  then show ?thesis using assms by (simp add: content_hash_def parse_z32_ok)
qed

text \<open>
  The packet of a hash: one record, whose owner and target are host names without a trailing dot. Only for
  packets like it does the DNS library promise that parsing gives back what was built; a name with a trailing
  dot, which \<open>set_https\<close> accepts, comes back without it.
\<close>

definition blake3_packet :: "pkarr_ext \<Rightarrow> bytes \<Rightarrow> bytes \<Rightarrow> pk_packet" where
  "blake3_packet x public_key hash = https_packet x public_key [] (px_z32 x hash @ ''.'' @ BLAKE3_DOMAIN)"

lemma set_blake3_packet:
  assumes "set_blake3 x public key hash st = (Inr (), st')"
  obtains bs where "px_build x (https_packet x (public key) [] (px_z32 x hash @ ''.'' @ BLAKE3_DOMAIN)) = Some bs"
    "fmlookup (ps_packets st') (public key) = Some \<lparr>pke_key = key, pke_packet = bs\<rparr>"
    "is_hostname (px_z32 x hash @ ''.'' @ BLAKE3_DOMAIN)"
  using assms that
  by (auto simp: set_blake3_def set_https_def set_raw_def edited_def Let_def split: if_splits option.splits)

lemma sign_all_item:
  assumes "sign_all public order now st = (Some items, st')" "k \<in> set order" "fmlookup (ps_packets st) k = Some e"
  shows "sign_entry public (ps_previous st') e \<in> set items"
proof -
  obtain n where n: "now = Some n" using assms(1) by (cases now) (auto simp: sign_all_def)
  let ?seq = "max (wrap_i64 (int n)) (wrap_i64 (ps_previous st + 1))"
  let ?f = "\<lambda>k. map_option (sign_entry public ?seq) (fmlookup (ps_packets st) k)"
  have "items = List.map_filter ?f order" "ps_previous st' = ?seq"
    using assms(1) by (auto simp: sign_all_def n Let_def)
  moreover have "y \<in> set (List.map_filter f xs)" if "x \<in> set xs" "f x = Some y"
    for f :: "bytes \<Rightarrow> mutable_item option" and x xs y
    using that by (induction xs) (auto simp: List.map_filter_simps split: option.split)
  ultimately show ?thesis using assms(2,3) by simp
qed

lemma empty_packet_cache: "lru_cache L e \<Longrightarrow> fst (packet_cache_get L key now e) = None"
  by (simp add: packet_cache_get_def lru_cache.peek_empty lru_get_def)

section \<open>Properties\<close>

text \<open>
  C39. A published name is served. When the publisher accepts a hash for a key, its next round signs
  a packet for the key, and a gateway that resolves the key's name answers exactly as it answers a
  request for the root of that hash, with the name as base and to be revalidated: whatever older answers
  the DHT mixes in and in whatever order, the newest packet is taken,
  its target is accepted by the same test for hostnames, and the hash is read back from it. Of the DNS library it
  is assumed that this one packet survives building and parsing.
\<close>

theorem pkarr_name_served:
  assumes "z32_ok x hash" "z32_ok x (public key)" "ie_encode (hx_ids X) = px_z32 x" "ie_decode (hx_ids X) = px_unz32 x"
    "\<And>bs. px_build x (blake3_packet x (public key) hash) = Some bs \<Longrightarrow> px_parse x bs = Some (blake3_packet x (public key) hash)"
    "set_blake3 x public key hash st = (Inr (), st')" "public key \<in> set order"
    "sign_all public order now st' = (Some items, st'')" "lru_cache L e" "decode [] = Some []"
  shows "\<exists>item \<in> set items. mi_key item = public key \<and> mi_seq item = ps_previous st'' \<and>
    (\<forall>answers. item \<in> set answers \<and> list_all (answer_ok (public key) item) answers \<longrightarrow>
       (let (r, c, g') = pkarr_route L x X G env decode (''/pkarr/'' @ pkarr_name x (public key)) None False host
          method headers t1 t2 (Some (resolve_pkarr (public key) (Some answers))) e g
        in (r, g')) =
       serve_root X G env (root_at (pkarr_name x (public key)) (''/pkarr/'' @ pkarr_name x (public key)) Revalidate)
         hash False None method headers g)"
proof -
  let ?auth = "px_z32 x hash @ ''.'' @ BLAKE3_DOMAIN" and ?name = "px_z32 x (public key)"
  let ?packet = "https_packet x (public key) [] ?auth"
  have packet: "blake3_packet x (public key) hash = ?packet" by (simp only: blake3_packet_def)
  from set_blake3_packet [OF assms(6)] obtain bs where bs: "px_build x ?packet = Some bs"
    "fmlookup (ps_packets st') (public key) = Some \<lparr>pke_key = key, pke_packet = bs\<rparr>" "is_hostname ?auth" .
  define item where "item = sign_entry public (ps_previous st'') \<lparr>pke_key = key, pke_packet = bs\<rparr>"
  have item: "item \<in> set items" "mi_key item = public key" "mi_seq item = ps_previous st''" "mi_value item = bs"
    unfolding item_def using sign_all_item [OF assms(8,7) bs(2)] by (simp_all add: sign_entry_def)
  have key: "parse_key (hx_ids X) ?name = Inr (public key)" using assms(2-4) by (simp add: parse_key_def parse_z32_ok)
  have slash: "CHR ''/'' \<notin> set ?name" using z32_chars [OF assms(2)] by (simp add: is_alphanumeric_def is_digit_def)
  have tgt: "target ?packet ?name = Some ?auth"
    using blake3_authority [OF bs(3)]
    by (simp add: target_def https_packet_def pkarr_name_def eq_ignore_ascii_case_def List.map_filter_simps target_of_def)
  have "fst (redirect L x (hx_ids X) decode (''/pkarr/'' @ ?name) None False t1 t2 (Some (resolve_pkarr (public key) (Some answers))) e) =
      Inr (PkarrRoot (root_at ?name (''/pkarr/'' @ ?name) Revalidate) hash False)"
    if "item \<in> set answers" "list_all (answer_ok (public key) item) answers" for answers
  proof -
    have res: "resolve_pkarr (public key) (Some answers) = Inr item"
      using newest_verified_newest [OF that] by (simp add: resolve_pkarr_def)
    have auth: "fst (pkarr_target L x ?name (public key) t1 t2 (Some (Inr item)) e) = Inr ?auth"
      using empty_packet_cache [OF assms(9), of "public key" t1] assms(5) [unfolded packet, OF bs(1)] tgt item(4)
      by (simp add: pkarr_target_def case_prod_unfold Let_def)
    have sp: "strip_prefix ''/pkarr/'' (''/pkarr/'' @ ?name) = Some ?name" by (rule strip_prefix_append)
    show ?thesis
      unfolding redirect_def sp option.case res
      using key slash auth blake3_content_hash [OF assms(1,3,4)] assms(10)
      by (simp add: split_once_None [THEN iffD2] has_flag_def case_prod_unfold Let_def)
  qed
  then have "(let (r, c, g') = pkarr_route L x X G env decode (''/pkarr/'' @ ?name) None False host method headers t1 t2
        (Some (resolve_pkarr (public key) (Some answers))) e g in (r, g')) =
      serve_root X G env (root_at ?name (''/pkarr/'' @ ?name) Revalidate) hash False None method headers g"
    if "item \<in> set answers" "list_all (answer_ok (public key) item) answers" for answers
    using that by (simp add: pkarr_route_def pkarr_response_def case_prod_unfold Let_def)
  with item show ?thesis unfolding pkarr_name_def by blast
qed

definition sample_hash :: bytes where "sample_hash = replicate 32 0"

definition sample_name :: string where "sample_name = replicate 52 CHR ''y''"

definition sample_packet :: pk_packet where
  "sample_packet = [\<lparr>pk_name = sample_name, pk_in = True, pk_ttl = PKARR_TTL,
     pk_rdata = HTTPS \<lparr>sv_priority = 0, sv_target = sample_name @ ''.'' @ BLAKE3_DOMAIN, sv_params = []\<rparr>\<rparr>]"

definition sample_pkarr :: pkarr_ext where
  "sample_pkarr = \<lparr>px_build = (\<lambda>p. if p = sample_packet then Some [1] else None),
     px_parse = (\<lambda>bs. if bs = [1] then Some sample_packet else None), px_name_ok = (\<lambda>_. True),
     px_z32 = (\<lambda>_. sample_name), px_unz32 = (\<lambda>_. Some sample_hash)\<rparr>"

lemma sample_hostname: "is_hostname (sample_name @ ''.'' @ BLAKE3_DOMAIN)"
proof -
  have split: "split_on CHR ''.'' (sample_name @ ''.'' @ BLAKE3_DOMAIN) = [sample_name, ''blake3'', ''net'']"
    using split_on_append [of "CHR ''.''" sample_name BLAKE3_DOMAIN] by (simp add: sample_name_def BLAKE3_DOMAIN_def)
  have "strip_suffix ''.'' (sample_name @ ''.'' @ BLAKE3_DOMAIN) = None"
    using ends_t(1) [of "sample_name @ ''.blake3.ne''"] by (simp add: BLAKE3_DOMAIN_def)
  moreover have "label_ok sample_name" "label_ok ''blake3''" "label_ok ''net''"
    by (simp_all add: label_ok_def sample_name_def starts_with_def ends_with_def strip_suffix_def strip_prefix_def
        is_alphanumeric_def is_digit_def list_all_iff)
  moreover have "length (sample_name @ ''.'' @ BLAKE3_DOMAIN) = 63" by (simp add: sample_name_def BLAKE3_DOMAIN_def)
  ultimately show ?thesis using split by (simp add: is_hostname_def)
qed

theorem pkarr_name_served_witness:
  "(let (r, c, g) = pkarr_route list_lru sample_pkarr sample_ext sample_ops serving_env Some (''/pkarr/'' @ sample_name)
      None False None GET sample_request 0 0
      (Some (resolve_pkarr sample_hash (Some [\<lparr>mi_key = sample_hash, mi_seq = 5, mi_value = [1], mi_salt = None\<rparr>])))
      (9, []) serving_gateway in (r, g)) =
   serve_root sample_ext sample_ops serving_env (root_at sample_name (''/pkarr/'' @ sample_name) Revalidate) sample_hash
     False None GET sample_request serving_gateway"
proof -
  let ?st = "edited (pkarr_new\<lparr>ps_packets := fmupd sample_hash \<lparr>pke_key = sample_hash, pke_packet = [1]\<rparr> fmempty\<rparr>)"
  let ?item = "\<lparr>mi_key = sample_hash, mi_seq = 5, mi_value = [1], mi_salt = None\<rparr>"
  have z: "z32_ok sample_pkarr sample_hash"
    by (simp add: z32_ok_def sample_pkarr_def sample_hash_def sample_name_def is_alphanumeric_def list_all_iff)
  have ids: "ie_encode (hx_ids sample_ext) = px_z32 sample_pkarr" "ie_decode (hx_ids sample_ext) = px_unz32 sample_pkarr"
    by (simp_all add: sample_ext_def sample_pkarr_def sample_name_def sample_hash_def sample_key_def)
  have codec: "px_parse sample_pkarr bs = Some packet" if "px_build sample_pkarr packet = Some bs" for packet bs
    using that by (simp add: sample_pkarr_def split: if_splits)
  have set': "set_blake3 sample_pkarr id sample_hash sample_hash pkarr_new = (Inr (), ?st)"
    using sample_hostname
    by (simp add: set_blake3_def set_https_def set_raw_def https_packet_def pkarr_name_def sample_pkarr_def
        sample_packet_def pkarr_new_def)
  have sign: "sign_all id [sample_hash] (Some 5) ?st = (Some [?item], ?st\<lparr>ps_previous := 5\<rparr>)"
    by (simp add: sign_all_def wrap_i64_def pkarr_new_def edited_def List.map_filter_simps sign_entry_def)
  have ok: "list_all (answer_ok (id sample_hash) ?item) [?item]" by (simp add: answer_ok_def)
  have "pkarr_name sample_pkarr (id sample_hash) = sample_name" by (simp add: pkarr_name_def sample_pkarr_def)
  with pkarr_name_served [OF z _ ids codec set' _ sign list_lru.lru_cache_axioms [of 9], of Some sample_ops serving_env None GET
      sample_request 0 0 serving_gateway] z ok
  show ?thesis by simp
qed

end
