(* ===== verification/Debug_Page.thy ===== *)
theory Debug_Page
  imports Pkarr_Redirect Discovery "HOL-Library.Product_Lexorder"
begin

text \<open>
  The pages for \<open>?debug\<close>, \<open>iroh-link-gateway/src/debug_page.rs\<close>: records as zone-file lines, the table of
  peers with their index records and probes, the answers for a Pkarr key, and the stream of
  snapshots that shows them while the lookups run. What the lookups find and when is an argument.
\<close>

section \<open>Records as text\<close>

text \<open>The resource records of a packet as the DNS library parses them; strings are their printed form.\<close>

datatype zone_param =
    ZPort u16
  | ZAlpn "string list"
  | ZNoDefaultAlpn
  | ZMandatory "u16 list"
  | ZIpv4Hint "u32 list"
  | ZIpv6Hint "128 word list"
  | ZOther u16

record zone_svcb =
  zs_priority :: u16
  zs_target :: string
  zs_params :: "zone_param list"

datatype zone_rdata =
    A u32
  | AAAA "128 word"
  | CNAME string
  | TXT "(bytes \<times> bytes option) list"
  | ZHttps zone_svcb
  | ZSvcb zone_svcb
  | NULL u16 bytes
  | ZType string

record zone_record =
  zr_name :: string
  zr_ttl :: u32
  zr_rdata :: zone_rdata

definition backslash :: char where "backslash = CHR 0x5C"

definition three_digits :: "nat \<Rightarrow> string" where
  "three_digits n = [digit (n div 100), digit (n div 10 mod 10), digit (n mod 10)]"

definition quote_byte :: "u8 \<Rightarrow> string" where
  "quote_byte b =
     (if b = 0x22 \<or> b = 0x5C then [backslash, char_of (unat b)]
      else if 0x20 \<le> b \<and> b \<le> 0x7e then [char_of (unat b)]
      else backslash # three_digits (unat b))"

definition quote :: "bytes \<Rightarrow> string" where
  "quote bs = quot @ concat (map quote_byte bs) @ quot"

definition lower_hex :: "nat \<Rightarrow> char" where "lower_hex n = ''0123456789abcdef'' ! n"

definition hex_byte :: "u8 \<Rightarrow> string" where
  "hex_byte b = [lower_hex (unat b div 16), lower_hex (unat b mod 16)]"

text \<open>\<open>Ipv4Addr\<close> and \<open>Ipv6Addr\<close> as text; the longest run of at least two zero groups is left out.\<close>

definition ipv4_text :: "u32 \<Rightarrow> string" where
  "ipv4_text a = join ''.'' (map (\<lambda>i. decimal (unat a div 256 ^ i mod 256)) [3, 2, 1, 0])"

fun hex_number :: "nat \<Rightarrow> string" where
  "hex_number n = (if n < 16 then [lower_hex n] else hex_number (n div 16) @ [lower_hex (n mod 16)])"

declare hex_number.simps [simp del]

definition ipv6_groups :: "128 word \<Rightarrow> nat list" where
  "ipv6_groups a = map (\<lambda>i. unat a div 65536 ^ i mod 65536) [7, 6, 5, 4, 3, 2, 1, 0]"

fun zero_run :: "nat list \<Rightarrow> nat" where
  "zero_run [] = 0"
| "zero_run (n # ns) = (if n = 0 then Suc (zero_run ns) else 0)"

text \<open>The first longest run of zeros, as its start and length.\<close>

fun longest_run :: "nat list \<Rightarrow> nat \<Rightarrow> nat \<times> nat" where
  "longest_run [] i = (i, 0)"
| "longest_run (n # ns) i =
     (let (s, l) = longest_run ns (Suc i) in if zero_run (n # ns) \<ge> l then (i, zero_run (n # ns)) else (s, l))"

definition groups_text :: "nat list \<Rightarrow> string" where "groups_text gs = join '':'' (map hex_number gs)"

definition ipv6_text :: "128 word \<Rightarrow> string" where
  "ipv6_text a =
     (let gs = ipv6_groups a; (start, len) = longest_run gs 0
      in if take 6 gs = [0, 0, 0, 0, 0, 65535] then ''::ffff:'' @ ipv4_text (ucast a)
         else if len > 1 then groups_text (take start gs) @ ''::'' @ groups_text (drop (start + len) gs)
         else groups_text gs)"

fun param_text :: "zone_param \<Rightarrow> string" where
  "param_text (ZPort port) = ''port='' @ decimal (unat port)"
| "param_text (ZAlpn ids) = ''alpn='' @ join '','' ids"
| "param_text ZNoDefaultAlpn = ''no-default-alpn''"
| "param_text (ZMandatory keys) = ''mandatory='' @ join '','' (map (\<lambda>k. ''key'' @ decimal (unat k)) keys)"
| "param_text (ZIpv4Hint ips) = ''ipv4hint='' @ join '','' (map ipv4_text ips)"
| "param_text (ZIpv6Hint ips) = ''ipv6hint='' @ join '','' (map ipv6_text ips)"
| "param_text (ZOther key) = ''key'' @ decimal (unat key)"

definition svcb_text :: "zone_svcb \<Rightarrow> string" where
  "svcb_text s = decimal (unat (zs_priority s)) @ '' '' @ zs_target s @ ''.'' @
     concat (map (\<lambda>p. '' '' @ param_text p) (zs_params s))"

definition txt_part :: "bytes \<times> bytes option \<Rightarrow> string" where
  "txt_part kv = quote (fst kv @ (case snd kv of None \<Rightarrow> [] | Some v \<Rightarrow> 0x3D # v))"

text \<open>The owner of a record, relative to the key; the apex is \<open>@\<close>.\<close>

definition owner_text :: "string \<Rightarrow> string \<Rightarrow> string + string" where
  "owner_text key name =
     (let suffix = ''.'' @ key;
          bad = Inl ''record owner must be within this pkarr name''
      in if eq_ignore_ascii_case name key then Inr ''@''
         else if length name < length suffix then bad
         else (let cut = length name - length suffix
               in if take cut name \<noteq> [] \<and> eq_ignore_ascii_case (drop cut name) suffix then Inr (take cut name) else bad))"

datatype zone_data = Data string string | NotShown string | BadUri

fun rdata_text :: "zone_rdata \<Rightarrow> zone_data" where
  "rdata_text (A a) = Data ''A'' (ipv4_text a)"
| "rdata_text (AAAA a) = Data ''AAAA'' (ipv6_text a)"
| "rdata_text (CNAME name) = Data ''CNAME'' (name @ ''.'')"
| "rdata_text (TXT parts) = Data ''TXT'' (join '' '' (map txt_part parts))"
| "rdata_text (ZHttps s) = Data ''HTTPS'' (svcb_text s)"
| "rdata_text (ZSvcb s) = Data ''SVCB'' (svcb_text s)"
| "rdata_text (NULL code bs) =
     (if code = 256 then
        (case bs of
           p1 # p2 # w1 # w2 # uri \<Rightarrow>
             Data ''URI'' (decimal (unat p1 * 256 + unat p2) @ '' '' @ decimal (unat w1 * 256 + unat w2) @ '' '' @ quote uri)
         | _ \<Rightarrow> BadUri)
      else Data (''TYPE'' @ decimal (unat code))
             (backslash # ''# '' @ decimal (length bs) @ '' '' @ concat (map hex_byte bs)))"
| "rdata_text (ZType name) = NotShown name"

definition record_text :: "string \<Rightarrow> zone_record \<Rightarrow> string + string" where
  "record_text key record =
     (case owner_text key (zr_name record) of
        Inl e \<Rightarrow> Inl e
      | Inr owner \<Rightarrow>
          (let ttl = decimal (unat (zr_ttl record))
           in case rdata_text (zr_rdata record) of
                Data kind data \<Rightarrow> Inr (owner @ '' '' @ ttl @ '' IN '' @ kind @ '' '' @ data @ nl)
              | NotShown kind \<Rightarrow> Inr (''; '' @ owner @ '' '' @ ttl @ '' IN '' @ kind @ '' (not shown)'' @ nl)
              | BadUri \<Rightarrow> Inl ''URI record is too short''))"

fun records_text :: "string \<Rightarrow> zone_record list \<Rightarrow> string \<Rightarrow> string + string" where
  "records_text key [] text = Inr text"
| "records_text key (record # records) text =
     (case record_text key record of Inl e \<Rightarrow> Inl e | Inr line \<Rightarrow> records_text key records (text @ line))"

text \<open>\<open>parse\<close> is the DNS library's parser, with the text of its error.\<close>

definition zone_text :: "(bytes \<Rightarrow> string + zone_record list) \<Rightarrow> string \<Rightarrow> bytes \<Rightarrow> string + string" where
  "zone_text parse key bs = (case parse bs of Inl e \<Rightarrow> Inl e | Inr records \<Rightarrow> records_text key records [])"

section \<open>Ages and notes\<close>

definition format_age :: "u64 \<Rightarrow> string" where
  "format_age seconds =
     (if seconds < 60 then decimal (unat seconds) @ '' s''
      else if seconds < 3600 then decimal (unat (seconds div 60)) @ '' min''
      else decimal (unat (seconds div 3600)) @ '' h'')"

definition saturating_sub_i64 :: "int \<Rightarrow> int \<Rightarrow> int" where
  "saturating_sub_i64 a b = max (- (2 ^ 63)) (min (2 ^ 63 - 1) (a - b))"

text \<open>The clock is in microseconds since the epoch, zero when it is before it; the division truncates.\<close>

definition published_text :: "int \<Rightarrow> int \<Rightarrow> string" where
  "published_text now seq =
     (if seq < 1500000000000000 then []
      else format_age (word_of_int (let d = saturating_sub_i64 now seq in sgn d * (\<bar>d\<bar> div 1000000))) @ '' ago'')"

definition int_text :: "int \<Rightarrow> string" where
  "int_text n = (if n < 0 then ''-'' @ decimal (nat (- n)) else decimal (nat n))"

definition MAINLINE_TIMEOUT :: duration where "MAINLINE_TIMEOUT = secs 15"
definition PROBE_TIMEOUT :: duration where "PROBE_TIMEOUT = secs 10"

definition as_secs :: "duration \<Rightarrow> nat" where "as_secs d = d div 1000000000"
definition as_millis :: "duration \<Rightarrow> nat" where "as_millis d = d div 1000000"

text \<open>\<open>None\<close> is the timeout.\<close>

definition mainline_note :: "(string + unit) option \<Rightarrow> string option" where
  "mainline_note result =
     (case result of
        Some (Inr _) \<Rightarrow> None
      | Some (Inl e) \<Rightarrow> Some (''Mainline lookup failed: '' @ e)
      | None \<Rightarrow> Some (''Stopped collecting answers after '' @ decimal (as_secs MAINLINE_TIMEOUT) @ '' s.''))"

definition probe_result :: "duration \<Rightarrow> (string + u64) option \<Rightarrow> string + duration" where
  "probe_result elapsed attempt =
     (case attempt of
        Some (Inr _) \<Rightarrow> Inr elapsed
      | Some (Inl e) \<Rightarrow> Inl e
      | None \<Rightarrow> Inl (''timed out after '' @ decimal (as_secs PROBE_TIMEOUT) @ '' s''))"

definition meta :: "string \<Rightarrow> string" where
  "meta text = ''<p class='' @ quot @ ''meta'' @ quot @ ''>'' @ text @ ''</p>'' @ nl"

definition status_line :: "string \<Rightarrow> string" where "status_line text = meta (html_escape text)"

section \<open>The page of a hash\<close>

datatype resolution = Record signed_record | NotInIndex | Failed udp_error

text \<open>
  What the page prints through other code: endpoint identifiers, durations in seconds, errors of
  the index, and the style sheet.
\<close>

record debug_ext =
  dx_id :: "bytes \<Rightarrow> string"
  dx_secs :: "duration \<Rightarrow> string"
  dx_error :: "udp_error \<Rightarrow> string"
  dx_css :: string

type_synonym probes = "bytes \<rightharpoonup> string + duration"
type_synonym peer_row = "socket_addr_v4 \<times> resolution"

definition ellipsis :: string where "ellipsis = [CHR 0xE2, CHR 0x80, CHR 0xA6]"

definition socket_text :: "socket_addr_v4 \<Rightarrow> string" where
  "socket_text a = ipv4_text (sa_ip a) @ '':'' @ decimal (unat (sa_port a))"

definition id_span :: "string \<Rightarrow> string" where
  "id_span i = ''<span title='' @ quot @ i @ quot @ ''>'' @ i @ ''</span>''"

definition probe_text :: "string + duration \<Rightarrow> string" where
  "probe_text p = (case p of Inr latency \<Rightarrow> decimal (as_millis latency) @ '' ms'' | Inl e \<Rightarrow> html_escape e)"

definition resolutions :: "socket_addr_v4 \<Rightarrow> udp_error + signed_record list \<Rightarrow> peer_row list" where
  "resolutions peer result =
     map (Pair peer) (case result of
        Inr records \<Rightarrow> if records = [] then [NotInIndex] else map Record records
      | Inl e \<Rightarrow> [Failed e])"

definition rank :: "probes \<Rightarrow> resolution \<Rightarrow> nat \<times> duration" where
  "rank probes r =
     (case r of
        Record record \<Rightarrow> (case probes (endpoint_id record) of Some (Inr latency) \<Rightarrow> (0, latency) | _ \<Rightarrow> (1, 0))
      | NotInIndex \<Rightarrow> (2, 0)
      | Failed _ \<Rightarrow> (3, 0))"

definition sort_rows :: "probes \<Rightarrow> peer_row list \<Rightarrow> peer_row list" where
  "sort_rows probes rows = sort_key (\<lambda>(peer, r). (rank probes r, peer)) rows"

definition row_endpoints :: "peer_row list \<Rightarrow> bytes list" where
  "row_endpoints rows = remdups (List.map_filter (\<lambda>(_, r). case r of Record record \<Rightarrow> Some (endpoint_id record) | _ \<Rightarrow> None) rows)"

definition peer_tr :: "string \<Rightarrow> string \<Rightarrow> string \<Rightarrow> string \<Rightarrow> string" where
  "peer_tr peer endpoint age probe =
     ''<tr><td>'' @ peer @ ''</td>'' @ class_cell ''hash'' endpoint @ class_cell ''size'' age @ class_cell ''size'' probe @
     ''</tr>'' @ nl"

definition row_text :: "debug_ext \<Rightarrow> u64 \<Rightarrow> probes \<Rightarrow> peer_row \<Rightarrow> string" where
  "row_text D now probes row =
     (case row of (peer, r) \<Rightarrow>
        (case r of
           Record record \<Rightarrow>
             peer_tr (socket_text peer) (id_span (dx_id D (endpoint_id record)))
               (format_age (saturating_sub now (rp_ts (payload_v1 (payload record)))))
               (case probes (endpoint_id record) of Some p \<Rightarrow> probe_text p | None \<Rightarrow> ellipsis)
         | NotInIndex \<Rightarrow> peer_tr (socket_text peer) ''not in index'' [] []
         | Failed e \<Rightarrow> peer_tr (socket_text peer) (html_escape (''index lookup failed: '' @ dx_error D e)) [] []))"

definition pending_peers :: "socket_addr_v4 fset \<Rightarrow> peer_row list \<Rightarrow> socket_addr_v4 list" where
  "pending_peers peers rows = sorted_list_of_fset (peers |-| fset_of_list (map fst rows))"

definition render_providers :: "debug_ext \<Rightarrow> u64 \<Rightarrow> socket_addr_v4 fset \<Rightarrow> string option \<Rightarrow> peer_row list \<Rightarrow> probes \<Rightarrow>
    duration \<Rightarrow> string" where
  "render_providers D now peers note rows probes elapsed =
     (let rows = sort_rows probes rows
      in meta (decimal (fcard peers) @ '' peers from Mainline, '' @ decimal (length (row_endpoints rows)) @
           '' endpoints, in '' @ dx_secs D elapsed @ '' s.'') @
         (case note of None \<Rightarrow> [] | Some n \<Rightarrow> meta (html_escape n)) @
         ''<table>'' @ nl @ ''<tr><td>Peer</td><td>Endpoint</td>'' @ class_cell ''size'' ''Record age'' @
         class_cell ''size'' ''Probe'' @ ''</tr>'' @ nl @
         concat (map (row_text D now probes) rows) @
         concat (map (\<lambda>peer. peer_tr (socket_text peer) (''looking up'' @ ellipsis) [] []) (pending_peers peers rows)) @
         ''</table>'' @ nl)"

definition hinted_section :: "debug_ext \<Rightarrow> (bytes \<times> (string + duration)) list \<Rightarrow> string" where
  "hinted_section D probes =
     (if probes = [] then []
      else meta (decimal (length probes) @ '' providers named by links, asked before Mainline.'') @
        ''<table>'' @ nl @ ''<tr><td>Endpoint</td>'' @ class_cell ''size'' ''Probe'' @ ''</tr>'' @ nl @
        concat (map (\<lambda>(provider, p). ''<tr>'' @ class_cell ''hash'' (id_span (dx_id D provider)) @
          class_cell ''size'' (probe_text p) @ ''</tr>'' @ nl) probes) @
        ''</table>'' @ nl)"

text \<open>
  The loops of the page. Each event carries the time since the start and the wall clock at the snapshot it
  causes: a batch of peers, the finished lookup of a peer, a finished probe.
\<close>

record snapshot_clock =
  sc_elapsed :: duration
  sc_now :: u64

fun ask_peers :: "(snapshot_clock \<Rightarrow> socket_addr_v4 fset \<Rightarrow> string) \<Rightarrow> socket_addr_v4 fset \<Rightarrow>
    (snapshot_clock \<times> socket_addr_v4 list) list \<Rightarrow> string list \<times> socket_addr_v4 fset" where
  "ask_peers page peers [] = ([], peers)"
| "ask_peers page peers ((t, batch) # batches) =
     (let peers = peers |\<union>| fset_of_list batch;
          (pages, all) = ask_peers page peers batches
      in (page t peers # pages, all))"

fun look_up_peers :: "(snapshot_clock \<Rightarrow> peer_row list \<Rightarrow> string) \<Rightarrow> peer_row list \<Rightarrow>
    (snapshot_clock \<times> socket_addr_v4 \<times> (udp_error + signed_record list)) list \<Rightarrow> string list \<times> peer_row list" where
  "look_up_peers page rows [] = ([], rows)"
| "look_up_peers page rows ((t, peer, result) # results) =
     (let rows = rows @ resolutions peer result;
          (pages, all) = look_up_peers page rows results
      in (page t rows # pages, all))"

fun probe_endpoints :: "(snapshot_clock \<Rightarrow> probes \<Rightarrow> string) \<Rightarrow> probes \<Rightarrow>
    (snapshot_clock \<times> bytes \<times> (string + duration)) list \<Rightarrow> string list \<times> probes" where
  "probe_endpoints page probes [] = ([], probes)"
| "probe_endpoints page probes ((t, provider, result) # results) =
     (let probes = probes(provider \<mapsto> result);
          (pages, all) = probe_endpoints page probes results
      in (page t probes # pages, all))"

record provider_run =
  pr_start :: snapshot_clock
  pr_batches :: "(snapshot_clock \<times> socket_addr_v4 list) list"
  pr_lookup :: "(string + unit) option"
  pr_resolved :: "(snapshot_clock \<times> socket_addr_v4 \<times> (udp_error + signed_record list)) list"
  pr_probed :: "(snapshot_clock \<times> bytes \<times> (string + duration)) list"
  pr_end :: snapshot_clock

definition providers_section :: "debug_ext \<Rightarrow> string \<Rightarrow> provider_run \<Rightarrow> string list" where
  "providers_section D prefix run =
     (let render = (\<lambda>status t peers note rows probes. prefix @ (case status of None \<Rightarrow> [] | Some l \<Rightarrow> status_line l) @
            render_providers D (sc_now t) peers note rows probes (sc_elapsed t));
          asking = Some (''Asking Mainline for peers'' @ ellipsis);
          first = render asking (pr_start run) {||} None [] Map.empty;
          (p1, peers) = ask_peers (\<lambda>t peers. render asking t peers None [] Map.empty) {||} (pr_batches run);
          note = mainline_note (pr_lookup run);
          (p2, rows) = look_up_peers
            (\<lambda>t rows. render (Some (''Looking up peers in the address index'' @ ellipsis)) t peers note rows Map.empty) []
            (pr_resolved run);
          (p3, probes) = probe_endpoints
            (\<lambda>t probes. render (Some (''Probing endpoints'' @ ellipsis)) t peers note rows probes) Map.empty (pr_probed run)
      in first # p1 @ p2 @ p3 @ [render None (pr_end run) peers note rows probes @ status_line ''Done.''])"

section \<open>The page of a Pkarr key\<close>

text \<open>\<open>max_by_key\<close> takes the last of several maxima.\<close>

fun max_by_seq :: "mutable_item option \<Rightarrow> mutable_item list \<Rightarrow> mutable_item option" where
  "max_by_seq best [] = best"
| "max_by_seq best (item # items) =
     max_by_seq (case best of None \<Rightarrow> Some item | Some b \<Rightarrow> Some (if mi_seq item \<ge> mi_seq b then item else b)) items"

definition newest_item :: "bytes \<Rightarrow> mutable_item list \<Rightarrow> mutable_item option" where
  "newest_item key items = max_by_seq None (filter (\<lambda>item. mi_seq item \<ge> 0 \<and> mi_key item = key) items)"

text \<open>The answers by sequence number, newest first.\<close>

definition answer_counts :: "mutable_item list \<Rightarrow> (int \<times> nat) list" where
  "answer_counts items =
     map (\<lambda>seq. (seq, length (filter (\<lambda>item. mi_seq item = seq) items)))
       (rev (sorted_list_of_fset (fset_of_list (map mi_seq items))))"

definition answers_table :: "int \<Rightarrow> mutable_item list \<Rightarrow> string" where
  "answers_table now items =
     (if items = [] then []
      else ''<table>'' @ nl @ ''<tr><td>Sequence</td>'' @ class_cell ''size'' ''Published'' @ class_cell ''size'' ''Answers'' @
        ''</tr>'' @ nl @
        concat (map (\<lambda>(seq, n). ''<tr><td>'' @ int_text seq @ ''</td>'' @ class_cell ''size'' (published_text now seq) @
          class_cell ''size'' (decimal n) @ ''</tr>'' @ nl) (answer_counts items)) @
        ''</table>'' @ nl)"

definition content_link :: "string option \<Rightarrow> string \<Rightarrow> string" where
  "content_link host hash =
     (case host of
        Some h \<Rightarrow> ''http://'' @ hash @ ''.blake3.localhost'' @
          (case rsplit_once CHR '':'' h of None \<Rightarrow> [] | Some (_, port) \<Rightarrow> '':'' @ port) @ ''/?debug''
      | None \<Rightarrow> ''/blake3/'' @ hash @ ''/?debug'')"

definition render_pkarr :: "debug_ext \<Rightarrow> (bytes \<Rightarrow> string + zone_record list) \<Rightarrow> pkarr_ext \<Rightarrow> id_ext \<Rightarrow> bytes \<Rightarrow> string \<Rightarrow>
    string option \<Rightarrow> mutable_item list \<Rightarrow> string option \<Rightarrow> duration \<Rightarrow> int \<Rightarrow> string" where
  "render_pkarr D zone x ids key encoded host items note elapsed now =
     meta (decimal (length items) @ '' answers from Mainline in '' @ dx_secs D elapsed @ '' s.'') @
     (case note of None \<Rightarrow> [] | Some n \<Rightarrow> meta (html_escape n)) @
     answers_table now items @
     (case newest_item key items of
        None \<Rightarrow> ''<p>No record found.</p>'' @ nl
      | Some item \<Rightarrow>
          (case zone_text zone encoded (mi_value item) of
             Inr text \<Rightarrow> ''<h1>Record</h1>'' @ nl @ ''<pre>'' @ html_escape text @ ''</pre>'' @ nl
           | Inl e \<Rightarrow> ''<p>Cannot show the record: '' @ html_escape e @ ''</p>'' @ nl) @
          (case Option.bind (Option.bind (px_parse x (mi_value item)) (\<lambda>packet. target packet encoded)) (content_hash ids) of
             None \<Rightarrow> []
           | Some hash \<Rightarrow>
               (let hash = ie_encode ids hash
                in ''<p>'' @ anchor (html_escape (content_link host hash)) (''Providers of '' @ hash) @ ''</p>'' @ nl)))"

text \<open>The snapshots of the page, one for each answer; each with the time since the start and the clock.\<close>

fun pkarr_answers :: "(duration \<Rightarrow> int \<Rightarrow> mutable_item list \<Rightarrow> string) \<Rightarrow> mutable_item list \<Rightarrow>
    (duration \<times> int \<times> mutable_item) list \<Rightarrow> string list \<times> mutable_item list" where
  "pkarr_answers page items [] = ([], items)"
| "pkarr_answers page items ((elapsed, now, item) # answers) =
     (let items = items @ [item];
          (pages, all) = pkarr_answers page items answers
      in (page elapsed now items # pages, all))"

definition pkarr_section :: "debug_ext \<Rightarrow> (bytes \<Rightarrow> string + zone_record list) \<Rightarrow> pkarr_ext \<Rightarrow> id_ext \<Rightarrow> bytes \<Rightarrow> string \<Rightarrow>
    string option \<Rightarrow> (duration \<times> int \<times> mutable_item) list \<Rightarrow> (string + unit) option \<Rightarrow> duration \<Rightarrow> int \<Rightarrow> string list" where
  "pkarr_section D zone x ids key encoded host answers result elapsed now =
     (let (pages, items) = pkarr_answers
            (\<lambda>elapsed now items. render_pkarr D zone x ids key encoded host items None elapsed now) [] answers;
          body = render_pkarr D zone x ids key encoded host items (mainline_note result) elapsed now
      in status_line (''Asking Mainline for the record'' @ ellipsis) # pages @ [body @ status_line ''Done.''])"

section \<open>Streaming\<close>

text \<open>A snapshot hides the one before by its id, and opens a section with its own.\<close>

definition hide_rule :: "nat \<Rightarrow> string" where
  "hide_rule i = ''<style>#s'' @ decimal i @ '' { display: none; }</style>'' @ nl"

definition section_tag :: "nat \<Rightarrow> string \<Rightarrow> string" where
  "section_tag i content = ''<section id='' @ quot @ ''s'' @ decimal i @ quot @ ''>'' @ nl @ content @ ''</section>'' @ nl"

definition show_snapshot :: "nat \<Rightarrow> string \<Rightarrow> string \<times> nat" where
  "show_snapshot n content =
     ((if n = 0 then [] else hide_rule (n - 1)) @ section_tag n content, n + 1)"

fun show_all :: "nat \<Rightarrow> string list \<Rightarrow> string list" where
  "show_all n [] = []"
| "show_all n (c # cs) = (let (chunk, n) = show_snapshot n c in chunk # show_all n cs)"

definition page_head :: "string \<Rightarrow> string \<Rightarrow> string" where
  "page_head css title =
     (let title = html_escape title
      in ''<!DOCTYPE html>'' @ nl @ ''<html lang='' @ quot @ ''en'' @ quot @ ''>'' @ nl @
         ''<meta charset='' @ quot @ ''utf-8'' @ quot @ ''>'' @ nl @
         ''<meta name='' @ quot @ ''color-scheme'' @ quot @ '' content='' @ quot @ ''light dark'' @ quot @ ''>'' @ nl @
         ''<meta name='' @ quot @ ''viewport'' @ quot @ '' content='' @ quot @
           ''width=device-width, initial-scale=1'' @ quot @ ''>'' @ nl @
         ''<title>'' @ title @ ''</title>'' @ nl @ ''<style>'' @ css @ ''</style>'' @ nl @
         ''<h1>'' @ title @ ''</h1>'' @ nl)"

definition streamed_page :: "string \<Rightarrow> string \<Rightarrow> string list \<Rightarrow> response" where
  "streamed_page css title snapshots =
     \<lparr>rs_status = 200,
      rs_headers = [(''content-type'', ''text/html; charset=utf-8''), (''cache-control'', ''no-store''),
                    (''x-content-type-options'', ''nosniff'')],
      rs_body = Streamed (map ascii (page_head css title # show_all 0 snapshots)) None\<rparr>"

text \<open>\<open>hinted\<close> is the providers that links name when the page starts, \<open>probes\<close> the probes of those that
  are known when the section is rendered.\<close>

definition providers_page :: "debug_ext \<Rightarrow> id_ext \<Rightarrow> hash \<Rightarrow> endpoint_id list \<Rightarrow> (bytes \<times> (string + duration)) list \<Rightarrow>
    provider_run \<Rightarrow> response" where
  "providers_page D ids hash hinted probes run =
     streamed_page (dx_css D) (''Providers of '' @ ie_encode ids hash)
       ((if hinted \<noteq> [] then [status_line (''Probing providers named by links'' @ ellipsis)] else []) @
        providers_section D (hinted_section D probes) run)"

definition pkarr_page :: "debug_ext \<Rightarrow> (bytes \<Rightarrow> string + zone_record list) \<Rightarrow> pkarr_ext \<Rightarrow> id_ext \<Rightarrow> bytes \<Rightarrow> string \<Rightarrow>
    string option \<Rightarrow> (duration \<times> int \<times> mutable_item) list \<Rightarrow> (string + unit) option \<Rightarrow> duration \<Rightarrow> int \<Rightarrow> response" where
  "pkarr_page D zone x ids key encoded host answers result elapsed now =
     streamed_page (dx_css D) (''Pkarr '' @ encoded)
       (pkarr_section D zone x ids key encoded host answers result elapsed now)"

section \<open>Quoting\<close>

text \<open>
  How a zone file reads a quoted string (RFC 1035, section 5.1): a backslash and three digits are a
  byte, a backslash and another character are that character.
\<close>

definition char_byte :: "char \<Rightarrow> u8" where "char_byte c = of_nat (of_char c)"

fun read_quoted :: "string \<Rightarrow> (bytes \<times> string) option" where
  "read_quoted [] = None"
| "read_quoted (c # cs) =
     (if c = CHR 0x22 then Some ([], cs)
      else if c = backslash then
        (case cs of
           [] \<Rightarrow> None
         | d # ds \<Rightarrow>
             if is_digit d then
               (case ds of
                  e # f # rest \<Rightarrow>
                    map_option (apfst ((#) (of_nat (digit_value d * 100 + digit_value e * 10 + digit_value f)))) (read_quoted rest)
                | _ \<Rightarrow> None)
             else map_option (apfst ((#) (char_byte d))) (read_quoted ds))
      else map_option (apfst ((#) (char_byte c))) (read_quoted cs))"

lemma backslash_ne: "backslash \<noteq> CHR 0x22"
  by (simp add: backslash_def)

lemma read_cases:
  "read_quoted (CHR 0x22 # cs) = Some ([], cs)"
  "c \<noteq> CHR 0x22 \<Longrightarrow> c \<noteq> backslash \<Longrightarrow> read_quoted (c # cs) = map_option (apfst ((#) (char_byte c))) (read_quoted cs)"
  "is_digit d \<Longrightarrow> read_quoted (backslash # d # e # f # cs) =
     map_option (apfst ((#) (of_nat (digit_value d * 100 + digit_value e * 10 + digit_value f)))) (read_quoted cs)"
  "\<not> is_digit d \<Longrightarrow> read_quoted (backslash # d # cs) = map_option (apfst ((#) (char_byte d))) (read_quoted cs)"
  by (simp_all add: backslash_ne)

declare read_quoted.simps(2) [simp del]

lemma of_char_byte: "of_char (char_of (unat (b :: u8)) :: char) = unat b"
  using unat_less [of b] by simp

lemma char_byte_of: "char_byte (char_of (unat b)) = b"
  unfolding char_byte_def of_char_byte by simp

lemma byte_char_eq: "char_of (unat (b :: u8)) = c \<longleftrightarrow> unat b = of_char c"
  by (metis char_of_char of_char_byte)

lemma read_three_digits:
  assumes "n < 1000"
  shows "read_quoted (backslash # three_digits n @ rest) = map_option (apfst ((#) (of_nat n))) (read_quoted rest)"
proof -
  have d: "n div 100 < 10" "n div 10 mod 10 < 10" "n mod 10 < 10" using assms by auto
  have "n div 10 = n div 100 * 10 + n div 10 mod 10"
    using div_mult2_eq [of n 10 10] div_mult_mod_eq [of "n div 10" 10] by simp
  then have "n div 100 * 100 + n div 10 mod 10 * 10 + n mod 10 = n" using div_mult_mod_eq [of n 10] by linarith
  then show ?thesis
    unfolding three_digits_def append.simps read_cases(3) [OF digit_props(1) [OF d(1)]] digit_props(2) [OF d(1)]
      digit_props(2) [OF d(2)] digit_props(2) [OF d(3)] by presburger
qed

lemma read_quote_byte: "read_quoted (quote_byte b @ rest) = map_option (apfst ((#) b)) (read_quoted rest)"
proof -
  consider (escape) "b = 0x22 \<or> b = 0x5C" | (plain) "\<not> (b = 0x22 \<or> b = 0x5C)" "0x20 \<le> b \<and> b \<le> 0x7e"
    | (number) "\<not> (b = 0x22 \<or> b = 0x5C)" "\<not> (0x20 \<le> b \<and> b \<le> 0x7e)" by blast
  then show ?thesis
  proof cases
    case escape
    then have "\<not> is_digit (char_of (unat b))" unfolding is_digit_def of_char_byte by auto
    from read_cases(4) [OF this, of rest] escape show ?thesis
      unfolding quote_byte_def by (simp only: if_True append.simps char_byte_of)
  next
    case plain
    have "char_of (unat b) \<noteq> CHR 0x22" "char_of (unat b) \<noteq> backslash"
      using plain(1) by (auto simp: byte_char_eq backslash_def word_unat_eq_iff)
    moreover have "quote_byte b = [char_of (unat b)]" using plain unfolding quote_byte_def by presburger
    ultimately show ?thesis using read_cases(2) [of "char_of (unat b)" rest] by (simp only: append.simps char_byte_of simp_thms)
  next
    case number
    have "unat b < 1000" using unat_less [of b] by simp
    moreover have "quote_byte b = backslash # three_digits (unat b)" using number unfolding quote_byte_def by presburger
    ultimately show ?thesis using read_three_digits [of "unat b" rest] by simp
  qed
qed

text \<open>Reading a quoted string gives back the bytes, whatever they are, and what follows it.\<close>

lemma read_quote: "read_quoted (concat (map quote_byte bs) @ quot @ rest) = Some (bs, rest)"
  by (induction bs) (simp_all add: read_quote_byte read_cases(1) quot_def)

section \<open>What the pages show\<close>

lemma ask_peers_all: "snd (ask_peers page peers batches) = peers |\<union>| fset_of_list (concat (map snd batches))"
  by (induction page peers batches rule: ask_peers.induct) (simp_all add: Let_def case_prod_unfold funion_assoc)

lemma look_up_peers_all:
  "snd (look_up_peers page rows results) = rows @ concat (map (\<lambda>(_, peer, result). resolutions peer result) results)"
  by (induction page rows results rule: look_up_peers.induct) (simp_all add: Let_def case_prod_unfold)

lemma probe_endpoints_all:
  "snd (probe_endpoints page probes results) = probes ++ map_of (rev (map snd results))"
  by (induction results arbitrary: probes) (simp_all add: Let_def case_prod_unfold split_paired_all)

lemma resolutions_peer: "r \<in> set (resolutions peer result) \<Longrightarrow> fst r = peer" "resolutions peer result \<noteq> []"
  by (auto simp: resolutions_def split: sum.splits if_splits)

text \<open>
  The table holds every row once, the working providers first and the fastest of them before the
  others, then the failed and pending probes, then the peers without a record and the failed lookups.
\<close>

lemma sort_rows_ordered:
  "mset (sort_rows probes rows) = mset rows"
  "sorted (map (\<lambda>(_, r). rank probes r) (sort_rows probes rows))"
proof -
  let ?key = "\<lambda>(peer, r). (rank probes r, peer)"
  show "mset (sort_rows probes rows) = mset rows" by (simp add: sort_rows_def)
  have "sorted_wrt (\<lambda>a b. ?key a \<le> ?key b) (sort_rows probes rows)"
    using sorted_sort_key [of ?key rows] by (simp add: sort_rows_def sorted_map)
  then have "sorted_wrt (\<lambda>a b. rank probes (snd a) \<le> rank probes (snd b)) (sort_rows probes rows)"
    by (rule sorted_wrt_mono_rel [rotated]) (auto simp: less_eq_prod_def less_prod_def)
  then show "sorted (map (\<lambda>(_, r). rank probes r) (sort_rows probes rows))"
    by (simp add: sorted_map case_prod_unfold)
qed

text \<open>Once the lookup of every peer has finished, no peer is shown as being looked up.\<close>

lemma none_pending:
  assumes "set (concat (map snd batches)) \<subseteq> (fst \<circ> snd) ` set results"
  shows "pending_peers (snd (ask_peers page {||} batches))
    (sort_rows probes (snd (look_up_peers page' [] results))) = []"
proof -
  have "x \<in> fst ` set (concat (map (\<lambda>(_, peer, result). resolutions peer result) results))"
    if x: "x \<in> set (concat (map snd batches))" for x
  proof -
    obtain t result where "(t, x, result) \<in> set results" using subsetD [OF assms x] by auto
    then have "set (resolutions x result) \<subseteq> set (concat (map (\<lambda>(_, peer, result). resolutions peer result) results))" by auto
    moreover obtain row where "row \<in> set (resolutions x result)" "fst row = x"
      using resolutions_peer list.set_sel(1) by metis
    ultimately show ?thesis by blast
  qed
  moreover have "set (sort_rows probes rows) = set rows" for rows using sort_rows_ordered(1) by (metis set_mset_mset)
  ultimately have "fset (fset_of_list (concat (map snd batches))) \<subseteq>
      fset (fset_of_list (map fst (sort_rows probes (snd (look_up_peers page' [] results)))))"
    unfolding look_up_peers_all fset_of_list.rep_eq set_map append_Nil by blast
  then have "fset_of_list (concat (map snd batches)) |\<subseteq>|
      fset_of_list (map fst (sort_rows probes (snd (look_up_peers page' [] results))))"
    unfolding less_eq_fset.rep_eq .
  then have "fset_of_list (concat (map snd batches)) |-|
      fset_of_list (map fst (sort_rows probes (snd (look_up_peers page' [] results)))) = {||}"
    unfolding fminus_eq_fempty_iff .
  moreover have "sorted_list_of_fset {||} = ([] :: socket_addr_v4 list)" by (simp add: sorted_list_of_fset.rep_eq)
  ultimately show ?thesis unfolding pending_peers_def ask_peers_all funion_fempty_left by (rule ssubst)
qed

text \<open>A sequence number five seconds ahead of the clock is shown as half a billion years old.\<close>

lemma published_future: "published_text 1700000000000000 1700000005000000 = decimal 5124095576030431 @ '' h ago''"
proof -
  have "(- 5 :: u64) = 18446744073709551611" by simp
  then have "format_age (- 5) = decimal 5124095576030431 @ '' h''" by (simp only: format_age_def) simp
  then show ?thesis by (simp add: published_text_def saturating_sub_i64_def)
qed

lemma newest_of_max:
  "newest_of key n items = Inr i \<Longrightarrow> i \<in> set (n # items) \<and> (\<forall>a \<in> set (n # items). mi_seq a \<le> mi_seq i) \<and>
     (\<forall>a \<in> set items. verified_item a key = Inr a)"
proof (induction key n items rule: newest_of.induct)
  case (2 key n a items)
  let ?m = "if mi_seq a > mi_seq n then a else n"
  have a: "verified_item a key = Inr a" "newest_of key ?m items = Inr i"
    using 2(2) by (auto simp: verified_item_def split: if_splits)
  from 2(1) [OF a] show ?case using a(1) by (auto split: if_splits)
qed simp

lemma max_by_seq_max:
  "max_by_seq (Some b) items = Some j \<Longrightarrow> j \<in> set (b # items) \<and> (\<forall>a \<in> set (b # items). mi_seq a \<le> mi_seq j)"
proof (induction items arbitrary: b)
  case (Cons a items)
  let ?m = "if mi_seq a \<ge> mi_seq b then a else b"
  have "max_by_seq (Some ?m) items = Some j" using Cons.prems by simp
  from Cons.IH [OF this] show ?case by (auto split: if_splits)
qed simp

text \<open>
  The page of a key shows a record as new as the one the handler serves, whenever the handler takes
  the answers; where one answer is not valid, the handler fails and the page leaves the answer out.
\<close>

lemma page_shows_served:
  assumes "newest_verified key answers = Inr i"
  shows "\<exists>j. newest_item key answers = Some j \<and> mi_seq j = mi_seq i"
proof -
  obtain a as where as: "answers = a # as" "verified_item a key = Inr a" "newest_of key a as = Inr i"
    using assms by (auto simp: newest_verified_def verified_item_def split: list.splits if_splits)
  note m = newest_of_max [OF as(3)]
  have "filter (\<lambda>item. mi_seq item \<ge> 0 \<and> mi_key item = key) answers = answers"
    using m as(1,2) by (auto simp: filter_id_conv verified_item_def split: if_splits)
  then have "newest_item key answers = max_by_seq (Some a) as" by (simp add: newest_item_def as(1))
  moreover have "\<exists>j. max_by_seq (Some b) xs = Some j" for b xs by (induction xs arbitrary: b) auto
  ultimately obtain j where j: "newest_item key answers = Some j" "max_by_seq (Some a) as = Some j" by metis
  from max_by_seq_max [OF j(2)] m have "mi_seq j = mi_seq i" by (meson order.antisym)
  with j(1) show ?thesis by blast
qed

text \<open>Each snapshot is a section with its own number that hides exactly the section before.\<close>

lemma show_all_length: "length (show_all n cs) = length cs"
  by (induction n cs rule: show_all.induct) (simp_all add: show_snapshot_def)

lemma show_all_nth:
  "i < length cs \<Longrightarrow> show_all n cs ! i = (if n + i = 0 then [] else hide_rule (n + i - 1)) @ section_tag (n + i) (cs ! i)"
  by (induction n cs arbitrary: i rule: show_all.induct) (auto simp: show_snapshot_def nth_Cons')

end
