(* ===== verification/Gateway_Router.thy ===== *)
theory Gateway_Router
  imports Debug_Page
begin

text \<open>
  A request from its arrival to its response, \<open>Gateway::router\<close> in \<open>iroh-link-gateway/src/lib.rs\<close>:
  rewriting of subdomains, dispatch to the handlers, and the sandbox around them. The matching of
  paths is that of \<open>axum\<close>; what the gateway relies on is the locale \<open>path_matching\<close>.
\<close>

section \<open>Routes\<close>

text \<open>
  The three routes of a hash, with their percent-decoded parameters, and those of a Pkarr key, whose
  handler reads the path itself. A parameter that is not text is rejected before its handler.
\<close>

datatype route = BlobRoute string | CollectionRoot string | CollectionPath string string | PkarrRoute | BadPath

locale path_matching =
  fixes matches :: "string \<Rightarrow> route option" and decode :: "string \<Rightarrow> string option"
  assumes match_blob: "seg \<noteq> [] \<Longrightarrow> list_all is_alphanumeric seg \<Longrightarrow> matches (''/blake3/'' @ seg) = Some (BlobRoute seg)"
    and match_root: "seg \<noteq> [] \<Longrightarrow> list_all is_alphanumeric seg \<Longrightarrow> matches (''/blake3/'' @ seg @ ''/'') = Some (CollectionRoot seg)"
    and match_path: "seg \<noteq> [] \<Longrightarrow> list_all is_alphanumeric seg \<Longrightarrow> rest \<noteq> [] \<Longrightarrow>
      matches (''/blake3/'' @ seg @ ''/'' @ rest) = Some (case decode rest of None \<Rightarrow> BadPath | Some p \<Rightarrow> CollectionPath seg p)"
    and match_pkarr: "seg \<noteq> [] \<Longrightarrow> list_all is_alphanumeric seg \<Longrightarrow> matches (''/pkarr/'' @ seg) = Some PkarrRoute"
      "seg \<noteq> [] \<Longrightarrow> list_all is_alphanumeric seg \<Longrightarrow> matches (''/pkarr/'' @ seg @ ''/'' @ rest) = Some PkarrRoute"

text \<open>Such a matching, for parameters without escapes in the segment.\<close>

definition match_reference :: "(string \<Rightarrow> string option) \<Rightarrow> string \<Rightarrow> route option" where
  "match_reference decode path =
     (case strip_prefix ''/blake3/'' path of
        Some p \<Rightarrow>
          (case split_once CHR ''/'' p of
             None \<Rightarrow> if p = [] then None else Some (BlobRoute p)
           | Some (seg, rest) \<Rightarrow>
               if seg = [] then None
               else if rest = [] then Some (CollectionRoot seg)
               else Some (case decode rest of None \<Rightarrow> BadPath | Some p \<Rightarrow> CollectionPath seg p))
      | None \<Rightarrow>
          (case strip_prefix ''/pkarr/'' path of
             None \<Rightarrow> None
           | Some p \<Rightarrow> if p = [] \<or> starts_with p ''/'' then None else Some PkarrRoute))"

lemma alphanumeric_no_slash: "list_all is_alphanumeric seg \<Longrightarrow> CHR ''/'' \<notin> set seg" "list_all is_alphanumeric seg \<Longrightarrow> CHR ''?'' \<notin> set seg"
  by (auto simp: list_all_iff is_alphanumeric_def is_digit_def)

interpretation reference_matching: path_matching "match_reference decode" decode for decode
proof
  fix seg :: string assume seg: "seg \<noteq> []" "list_all is_alphanumeric seg"
  note slash = alphanumeric_no_slash(1) [OF seg(2)]
  have blake: "strip_prefix ''/blake3/'' (''/blake3/'' @ p) = Some p" for p by (rule strip_prefix_append)
  have pkarr: "strip_prefix ''/pkarr/'' (''/pkarr/'' @ p) = Some p" "strip_prefix ''/blake3/'' (''/pkarr/'' @ p) = None" for p
    by (rule strip_prefix_append) (simp add: strip_prefix_def)
  have first: "\<not> starts_with (seg @ p) ''/''" for p using seg(1) slash by (cases seg) (auto simp: starts_with_def)
  show "match_reference decode (''/blake3/'' @ seg) = Some (BlobRoute seg)"
    unfolding match_reference_def blake using seg slash by (simp add: split_once_None [THEN iffD2])
  show "match_reference decode (''/blake3/'' @ seg @ ''/'') = Some (CollectionRoot seg)"
    unfolding match_reference_def blake using seg split_once_append [OF slash, of "[]"] by simp
  show "match_reference decode (''/blake3/'' @ seg @ ''/'' @ rest) =
      Some (case decode rest of None \<Rightarrow> BadPath | Some p \<Rightarrow> CollectionPath seg p)" if "rest \<noteq> []" for rest
    unfolding match_reference_def blake using that seg split_once_append [OF slash, of rest] by simp
  show "match_reference decode (''/pkarr/'' @ seg) = Some PkarrRoute"
    "match_reference decode (''/pkarr/'' @ seg @ ''/'' @ rest) = Some PkarrRoute" for rest
    unfolding match_reference_def pkarr using seg first [of "[]"] first [of "''/'' @ rest"] by simp_all
qed

section \<open>Requests\<close>

record request =
  rq_uri_host :: "string option"
  rq_header_host :: "string option"
  rq_target :: "string option"
  rq_method :: http_method
  rq_headers :: request_headers

text \<open>
  What surrounds the handlers: the matching of paths, parsing of URIs, percent-decoding, the responses
  \<open>axum\<close> gives itself, and what the streamed debug pages show: style sheet, title and snapshots.
\<close>

record router_ext =
  ro_match :: "string \<Rightarrow> route option"
  ro_uri_ok :: "string \<Rightarrow> bool"
  ro_decode :: "string \<Rightarrow> string option"
  ro_missing :: response
  ro_bad_path :: response
  ro_debug :: "http_reply \<Rightarrow> string \<times> string \<times> string list"

text \<open>What a Pkarr request meets: two clock readings and the lookup of its key.\<close>

record pkarr_env =
  pe_t1 :: instant
  pe_t2 :: instant
  pe_lookup :: "(http_error + mutable_item) option"

definition split_target :: "string \<Rightarrow> string \<times> string option" where
  "split_target target' = (case split_once CHR ''?'' target' of None \<Rightarrow> (target', None) | Some (p, q) \<Rightarrow> (p, Some q))"

definition finish :: "router_ext \<Rightarrow> http_error + http_reply \<Rightarrow> response" where
  "finish R r =
     (case r of
        Inl e \<Rightarrow> error_response e
      | Inr (Reply resp) \<Rightarrow> resp
      | Inr page \<Rightarrow> (case ro_debug R page of (css, title, snapshots) \<Rightarrow> streamed_page css title snapshots))"

definition dispatch :: "'k packet_lru \<Rightarrow> pkarr_ext \<Rightarrow> http_ext \<Rightarrow> router_ext \<Rightarrow> ('p, 'h, 's, 'c, 'z) gateway_ops \<Rightarrow> gateway_env \<Rightarrow>
    pkarr_env \<Rightarrow> request \<Rightarrow> bool \<Rightarrow> string \<Rightarrow> 'k \<times> ('p, 'h, 's, 'c, 'z) gateway \<Rightarrow> response \<times> 'k \<times> ('p, 'h, 's, 'c, 'z) gateway" where
  "dispatch L x X R G env penv rq subdomain target' st =
     (let (path, query) = split_target target';
          (c, g) = st;
          mth = rq_method rq;
          hdrs = rq_headers rq;
          answer = (\<lambda>(r, g). (finish R r, c, g))
      in case ro_match R path of
           None \<Rightarrow> (ro_missing R, st)
         | Some BadPath \<Rightarrow> (ro_bad_path R, st)
         | Some (BlobRoute encoded) \<Rightarrow> answer (blob_route X G env encoded query subdomain mth hdrs g)
         | Some (CollectionRoot encoded) \<Rightarrow> answer (collection_root X G env encoded query subdomain mth hdrs g)
         | Some (CollectionPath encoded p) \<Rightarrow> answer (collection_path X G env encoded p query subdomain mth hdrs g)
         | Some PkarrRoute \<Rightarrow>
             (let (r, st) = pkarr_route L x X G env (ro_decode R) path query subdomain (rq_header_host rq) mth hdrs
                (pe_t1 penv) (pe_t2 penv) (pe_lookup penv) c g
              in (finish R r, st)))"

definition gateway_request :: "'k packet_lru \<Rightarrow> pkarr_ext \<Rightarrow> http_ext \<Rightarrow> router_ext \<Rightarrow> ('p, 'h, 's, 'c, 'z) gateway_ops \<Rightarrow>
    gateway_env \<Rightarrow> pkarr_env \<Rightarrow> request \<Rightarrow> 'k \<times> ('p, 'h, 's, 'c, 'z) gateway \<Rightarrow>
    response \<times> 'k \<times> ('p, 'h, 's, 'c, 'z) gateway" where
  "gateway_request L x X R G env penv rq st =
     (let rewritten = rewrite_subdomain (ie_decode (hx_ids X)) (ie_encode (hx_ids X)) (ro_uri_ok R)
            (rq_uri_host rq) (rq_header_host rq) (rq_target rq);
          target' = (case rewritten of Some t \<Rightarrow> t | None \<Rightarrow> (case rq_target rq of None \<Rightarrow> [] | Some t \<Rightarrow> t));
          (resp, st) = dispatch L x X R G env penv rq (rewritten \<noteq> None) target' st
      in (sandbox_path_routes (rewritten \<noteq> None) resp, st))"

section \<open>Where a subdomain leads\<close>

lemma split_target_append: "CHR ''?'' \<notin> set a \<Longrightarrow> split_target (a @ b) = apfst ((@) a) (split_target b)"
proof (cases "split_once CHR ''?'' b")
  case (Some pq)
  assume a: "CHR ''?'' \<notin> set a"
  obtain p q where pq: "pq = (p, q)" by fastforce
  with Some have "b = p @ CHR ''?'' # q" "CHR ''?'' \<notin> set p" by (simp_all add: split_once_Some)
  then have "split_once CHR ''?'' (a @ b) = Some (a @ p, q)" using a split_once_append [of "CHR ''?''" "a @ p" q] by simp
  with Some pq show ?thesis by (simp add: split_target_def)
next
  case None
  assume "CHR ''?'' \<notin> set a"
  with None show ?thesis by (simp add: split_target_def split_once_None [THEN iffD2] split_once_None [THEN iffD1])
qed

lemma split_target_path:
  "\<not> (rest = [] \<or> starts_with rest ''?'') \<Longrightarrow> fst (split_target rest) \<noteq> []"
  "rest = [] \<or> starts_with rest ''?'' \<Longrightarrow> fst (split_target rest) = []"
  by (cases rest; auto simp: split_target_def starts_with_def split: option.splits)+

text \<open>The target that a subdomain's label and the rest of the path make.\<close>

definition subdomain_target :: "string \<Rightarrow> string \<Rightarrow> string \<Rightarrow> string" where
  "subdomain_target route' label rest =
     (if rest = [] \<or> starts_with rest ''?'' then ''/'' @ route' @ ''/'' @ label @ rest
      else ''/'' @ route' @ ''/'' @ label @ ''/'' @ rest)"

lemma subdomain_target_path:
  assumes "list_all is_alphanumeric label" "CHR ''?'' \<notin> set route'"
  shows "\<exists>p. fst (split_target (subdomain_target route' label rest)) = ''/'' @ route' @ ''/'' @ label @ p \<and>
    (p = [] \<or> (\<exists>t. p = ''/'' @ t \<and> t \<noteq> []))"
proof (cases "rest = [] \<or> starts_with rest ''?''")
  case True
  have "CHR ''?'' \<notin> set (''/'' @ route' @ ''/'' @ label)" using assms alphanumeric_no_slash(2) by auto
  from split_target_append [OF this, of rest] split_target_path(2) [OF True] True show ?thesis
    by (simp add: subdomain_target_def)
next
  case False
  have "CHR ''?'' \<notin> set (''/'' @ route' @ ''/'' @ label @ ''/'')" using assms alphanumeric_no_slash(2) by auto
  from split_target_append [OF this, of rest] split_target_path(1) [OF False] False show ?thesis
    by (auto simp: subdomain_target_def)
qed

lemma find_route_label:
  assumes "find_route dec enc SUBDOMAIN_ROUTES host = Some (label, route')"
  shows "parse_z32_bytes dec enc label \<noteq> None \<and>
    (host = label @ ''.blake3.localhost'' \<and> route' = ''blake3'' \<or> host = label @ ''.pkarr.localhost'' \<and> route' = ''pkarr'')"
  using assms by (auto simp: SUBDOMAIN_ROUTES_def strip_suffix_Some split: option.splits if_splits)

lemma rewrite_subdomain_target:
  assumes "rewrite_subdomain dec enc uri_ok uri_host header_host pq = Some t"
  shows "\<exists>host label route' rest. request_host uri_host header_host = Some host \<and>
    find_route dec enc SUBDOMAIN_ROUTES host = Some (label, route') \<and> t = subdomain_target route' label rest"
  using assms unfolding rewrite_subdomain_def subdomain_target_def
  by (auto simp: Let_def bind_eq_Some_conv split: option.splits if_splits)

context path_matching
begin

text \<open>A rewritten request reaches a handler of the label's own hash or key.\<close>

lemma hash_route:
  assumes "label \<noteq> []" "list_all is_alphanumeric label"
  shows "\<exists>p. matches (fst (split_target (subdomain_target ''blake3'' label rest))) \<in> {Some (BlobRoute label), Some BadPath, Some (CollectionPath label p)}"
proof -
  obtain p where p: "fst (split_target (subdomain_target ''blake3'' label rest)) = ''/'' @ ''blake3'' @ ''/'' @ label @ p"
      "p = [] \<or> (\<exists>t. p = ''/'' @ t \<and> t \<noteq> [])"
    using subdomain_target_path [OF assms(2), of "''blake3''" rest] by auto
  then show ?thesis
    using match_blob [OF assms] match_path [OF assms] by (auto split: option.splits)
qed

lemma key_route:
  assumes "label \<noteq> []" "list_all is_alphanumeric label"
  shows "\<exists>p. fst (split_target (subdomain_target ''pkarr'' label rest)) = ''/pkarr/'' @ label @ p \<and> (p = [] \<or> starts_with p ''/'') \<and>
    matches (''/pkarr/'' @ label @ p) = Some PkarrRoute"
proof -
  obtain p where p: "fst (split_target (subdomain_target ''pkarr'' label rest)) = ''/'' @ ''pkarr'' @ ''/'' @ label @ p"
      "p = [] \<or> (\<exists>t. p = ''/'' @ t \<and> t \<noteq> [])"
    using subdomain_target_path [OF assms(2), of "''pkarr''" rest] by auto
  then show ?thesis using match_pkarr [OF assms] by (auto simp: starts_with_def)
qed

end

section \<open>Origins\<close>

text \<open>
  Responses to a request that came by a subdomain: those of the handlers of one hash, and those of the
  handler of one Pkarr key, whatever the state and the rest of the path.
\<close>

definition serves_hash :: "http_ext \<Rightarrow> router_ext \<Rightarrow> ('p, 'h, 's, 'c, 'z) gateway_ops \<Rightarrow> gateway_env \<Rightarrow> request \<Rightarrow>
    ('p, 'h, 's, 'c, 'z) gateway \<Rightarrow> string \<Rightarrow> response \<Rightarrow> bool" where
  "serves_hash X R G env rq g label resp \<longleftrightarrow> resp = ro_bad_path R \<or>
     (\<exists>query. resp = finish R (fst (blob_route X G env label query True (rq_method rq) (rq_headers rq) g)) \<or>
        (\<exists>path. resp = finish R (fst (collection_path X G env label path query True (rq_method rq) (rq_headers rq) g))))"

definition serves_key :: "'k packet_lru \<Rightarrow> pkarr_ext \<Rightarrow> http_ext \<Rightarrow> router_ext \<Rightarrow> ('p, 'h, 's, 'c, 'z) gateway_ops \<Rightarrow> gateway_env \<Rightarrow>
    pkarr_env \<Rightarrow> request \<Rightarrow> 'k \<Rightarrow> ('p, 'h, 's, 'c, 'z) gateway \<Rightarrow> string \<Rightarrow> response \<Rightarrow> bool" where
  "serves_key L x X R G env penv rq c g label resp \<longleftrightarrow>
     (\<exists>path query. (path = [] \<or> starts_with path ''/'') \<and>
        resp = finish R (fst (pkarr_route L x X G env (ro_decode R) (''/pkarr/'' @ label @ path) query True
          (rq_header_host rq) (rq_method rq) (rq_headers rq) (pe_t1 penv) (pe_t2 penv) (pe_lookup penv) c g)))"

lemma sandboxed: "map_of (rs_headers (sandbox_path_routes False resp)) ''content-security-policy'' = Some PATH_SANDBOX"
proof -
  have "map_of (filter (\<lambda>(name, _). name \<noteq> ''content-security-policy'') hs) ''content-security-policy'' = None"
    for hs :: "(string \<times> string) list"
    by (induction hs) auto
  then show ?thesis by (simp add: sandbox_path_routes_def map_add_def)
qed

lemma dispatch_hash:
  assumes "ro_match R (fst (split_target t)) \<in> {Some (BlobRoute label), Some BadPath, Some (CollectionPath label p)}"
  shows "serves_hash X R G env rq (snd st) label (fst (dispatch L x X R G env penv rq True t st))"
proof -
  obtain path query where t: "split_target t = (path, query)" by fastforce
  obtain c g where st: "st = (c, g)" by fastforce
  from assms consider "ro_match R path = Some (BlobRoute label)" | "ro_match R path = Some BadPath"
    | "ro_match R path = Some (CollectionPath label p)" by (auto simp: t)
  then show ?thesis
    by cases (auto simp: dispatch_def serves_hash_def t st case_prod_unfold Let_def)
qed

lemma dispatch_key:
  assumes "fst (split_target t) = ''/pkarr/'' @ label @ path" "path = [] \<or> starts_with path ''/''"
    "ro_match R (''/pkarr/'' @ label @ path) = Some PkarrRoute"
  shows "serves_key L x X R G env penv rq (fst st) (snd st) label (fst (dispatch L x X R G env penv rq True t st))"
proof -
  obtain query where t: "split_target t = (''/pkarr/'' @ label @ path, query)" using assms(1) by (cases "split_target t") simp
  obtain c g where st: "st = (c, g)" by fastforce
  have "fst (dispatch L x X R G env penv rq True t st) =
      finish R (fst (pkarr_route L x X G env (ro_decode R) (''/pkarr/'' @ label @ path) query True
        (rq_header_host rq) (rq_method rq) (rq_headers rq) (pe_t1 penv) (pe_t2 penv) (pe_lookup penv) c g))"
    unfolding dispatch_def t st prod.case Let_def assms(3) by (simp add: case_prod_unfold)
  with assms(2) st show ?thesis unfolding serves_key_def by auto
qed

text \<open>
  C35. Pages of different content never share an origin with scripts. Every response carries the
  sandbox, unless the host of the request is \<open>label.blake3.localhost\<close> or \<open>label.pkarr.localhost\<close> for a valid
  label, and then the response is one of the handlers of exactly that hash or key, with the label as the
  name they parse: nothing in the path, the query or a header makes another hash or key answer on that
  origin.
\<close>

theorem origin_isolation:
  assumes "path_matching (ro_match R) (ro_decode R)"
    "\<And>label. parse_z32_bytes (ie_decode (hx_ids X)) (ie_encode (hx_ids X)) label \<noteq> None \<Longrightarrow> list_all is_alphanumeric label"
    "gateway_request L x X R G env penv rq (c, g) = (resp, st)"
  shows "map_of (rs_headers resp) ''content-security-policy'' = Some PATH_SANDBOX \<or>
    (\<exists>label. parse_z32_bytes (ie_decode (hx_ids X)) (ie_encode (hx_ids X)) label \<noteq> None \<and>
       (request_host (rq_uri_host rq) (rq_header_host rq) = Some (label @ ''.blake3.localhost'') \<and>
          serves_hash X R G env rq g label resp \<or>
        request_host (rq_uri_host rq) (rq_header_host rq) = Some (label @ ''.pkarr.localhost'') \<and>
          serves_key L x X R G env penv rq c g label resp))"
proof -
  let ?dec = "ie_decode (hx_ids X)" and ?enc = "ie_encode (hx_ids X)"
  let ?rw = "rewrite_subdomain ?dec ?enc (ro_uri_ok R) (rq_uri_host rq) (rq_header_host rq) (rq_target rq)"
  show ?thesis
  proof (cases ?rw)
    case None
    with assms(3) sandboxed show ?thesis by (auto simp: gateway_request_def case_prod_unfold Let_def)
  next
    case (Some t)
    then have resp: "resp = fst (dispatch L x X R G env penv rq True t (c, g))"
      using assms(3) by (auto simp: gateway_request_def sandbox_path_routes_def case_prod_unfold Let_def)
    obtain host label route' rest where r: "request_host (rq_uri_host rq) (rq_header_host rq) = Some host"
        "find_route ?dec ?enc SUBDOMAIN_ROUTES host = Some (label, route')" "t = subdomain_target route' label rest"
      using rewrite_subdomain_target [OF Some] by blast
    note label = find_route_label [OF r(2)]
    have seg: "label \<noteq> []" "list_all is_alphanumeric label"
      using label assms(2) by (auto simp: parse_z32_bytes_def split: if_splits)
    show ?thesis
    proof (cases "route' = ''blake3''")
      case True
      with label r path_matching.hash_route [OF assms(1) seg, of rest] show ?thesis
        using dispatch_hash [of R t label _ X G env rq "(c, g)" L x penv] resp by fastforce
    next
      case False
      with label r(3) have t: "t = subdomain_target ''pkarr'' label rest" by auto
      from path_matching.key_route [OF assms(1) seg, of rest] obtain p where
        p: "fst (split_target t) = ''/pkarr/'' @ label @ p" "p = [] \<or> starts_with p ''/''"
          "ro_match R (''/pkarr/'' @ label @ p) = Some PkarrRoute" unfolding t by blast
      from dispatch_key [OF p, of L x X G env penv rq "(c, g)"] resp label r(1) False show ?thesis by auto
    qed
  qed
qed

definition sample_router :: router_ext where
  "sample_router = \<lparr>ro_match = match_reference Some, ro_uri_ok = (\<lambda>_. True), ro_decode = Some,
     ro_missing = \<lparr>rs_status = 404, rs_headers = [], rs_body = EmptyBody\<rparr>,
     ro_bad_path = \<lparr>rs_status = 400, rs_headers = [], rs_body = EmptyBody\<rparr>,
     ro_debug = (\<lambda>_. ([], ''Providers'', []))\<rparr>"

definition foreign_request :: request where
  "foreign_request = \<lparr>rq_uri_host = Some ''evil.example'', rq_header_host = None,
     rq_target = Some (''/blake3/'' @ sample_name @ ''/a/b.txt''), rq_method = GET, rq_headers = sample_request\<rparr>"

theorem origin_isolation_witness:
  "map_of (rs_headers (fst (gateway_request list_lru sample_pkarr sample_ext sample_router sample_ops serving_env
     \<lparr>pe_t1 = 0, pe_t2 = 0, pe_lookup = None\<rparr> foreign_request ((9, []), serving_gateway)))) ''content-security-policy'' =
   Some PATH_SANDBOX"
proof -
  have match: "path_matching (ro_match sample_router) (ro_decode sample_router)"
    by (simp add: sample_router_def reference_matching.path_matching_axioms)
  have label: "list_all is_alphanumeric label"
    if "parse_z32_bytes (ie_decode (hx_ids sample_ext)) (ie_encode (hx_ids sample_ext)) label \<noteq> None" for label
    using that by (auto simp: parse_z32_bytes_def sample_ext_def is_alphanumeric_def list_all_iff split: if_splits)
  have host: "request_host (rq_uri_host foreign_request) (rq_header_host foreign_request) = Some h \<Longrightarrow> last h = CHR ''e''" for h
    by (auto simp: request_host_def foreign_request_def to_ascii_lowercase_def)
  have "request_host (rq_uri_host foreign_request) (rq_header_host foreign_request) \<noteq> Some (label @ ''.blake3.localhost'')"
    "request_host (rq_uri_host foreign_request) (rq_header_host foreign_request) \<noteq> Some (label @ ''.pkarr.localhost'')" for label
    using host [of "label @ ''.blake3.localhost''"] host [of "label @ ''.pkarr.localhost''"] by auto
  then show ?thesis
    using origin_isolation [where X = sample_ext and L = list_lru and x = sample_pkarr and G = sample_ops and env = serving_env
        and penv = "\<lparr>pe_t1 = 0, pe_t2 = 0, pe_lookup = None\<rparr>" and rq = foreign_request and c = "(9, [])"
        and g = serving_gateway, OF match label surjective_pairing] by blast
qed

end
