(* ===== verification/Gateway_Types.thy ===== *)
theory Gateway_Types
  imports Gateway_Router
begin

text \<open>
  The handlers build their responses with \<open>expect("valid response")\<close>: a header value that is not legal
  ends the request with a panic, and a line break in one would end the header. File names, queries, MIME types,
  DNS targets and hosts flow into header values. Here every value that reaches one is followed, through
  the state the handlers share.
\<close>

section \<open>Header values\<close>

text \<open>What \<open>http::HeaderValue\<close> accepts: a tab, or any byte that is not a control character.\<close>

definition header_char :: "char \<Rightarrow> bool" where
  "header_char c \<longleftrightarrow> (32::nat) \<le> of_char c \<and> of_char c \<noteq> (127::nat) \<or> of_char c = (9::nat)"

definition header_value :: "string \<Rightarrow> bool" where
  "header_value v \<longleftrightarrow> list_all header_char v"

lemma header_value_append [simp]: "header_value (a @ b) \<longleftrightarrow> header_value a \<and> header_value b"
  by (simp add: header_value_def)

lemma header_value_Cons [simp]: "header_value (c # s) \<longleftrightarrow> header_char c \<and> header_value s" "header_value []"
  by (simp_all add: header_value_def)

lemma header_char_literal [simp]:
  "header_char (Char b0 b1 b2 b3 b4 b5 b6 b7) \<longleftrightarrow>
     b7 \<or> b6 \<and> \<not> (b5 \<and> b4 \<and> b3 \<and> b2 \<and> b1 \<and> b0) \<or> b5 \<and> \<not> b6 \<or> \<not> b4 \<and> b3 \<and> \<not> b2 \<and> \<not> b1 \<and> b0 \<and> \<not> b5 \<and> \<not> b6"
  by (cases b0; cases b1; cases b2; cases b3; cases b4; cases b5; cases b6; cases b7) (simp_all add: header_char_def)

lemma header_value_replicate [simp]: "header_value (replicate n c) \<longleftrightarrow> n = 0 \<or> header_char c"
  by (induction n) (auto simp: header_value_def)

lemma header_char_hex: "is_hex c \<Longrightarrow> header_char c"
  by (auto simp: is_hex_def is_digit_def header_char_def)

lemma header_char_alphanumeric: "is_alphanumeric c \<Longrightarrow> header_char c"
  by (auto simp: is_alphanumeric_def is_digit_def header_char_def)

lemma header_value_decimal [simp]: "header_value (decimal n)" "header_value (number_text k)"
  by (auto simp: header_value_def list_all_iff number_text_def is_digit_def header_char_def dest!: decimal_digits)

lemma header_value_alphanumeric: "list_all is_alphanumeric s \<Longrightarrow> header_value s"
  by (auto simp: header_value_def list_all_iff header_char_alphanumeric)

lemma header_value_join: "header_value sep \<Longrightarrow> \<forall>s \<in> set ss. header_value s \<Longrightarrow> header_value (join sep ss)"
  by (induction sep ss rule: join.induct) auto

text \<open>Percent-encoding leaves nothing of a name that a header could not carry.\<close>

lemma header_value_pct:
  assumes "percent_encoding pct" "\<And>c. is_control c \<Longrightarrow> S c"
  shows "header_value (pct S s)"
proof -
  have "header_char c" if "c \<in> set (pct S s)" for c
    using percent_encoding.pct_chars [OF assms(1) that] assms(2) [of c] header_char_hex [of c]
    by (force simp: header_char_def is_control_def)
  then show ?thesis by (simp add: header_value_def list_all_iff)
qed

lemma control_sets: "is_control c \<Longrightarrow> PATH_SEGMENT c" "is_control c \<Longrightarrow> ATTR_CHAR c"
  by (auto simp: PATH_SEGMENT_def ATTR_CHAR_def is_control_def is_alphanumeric_def is_digit_def)

lemma link_header: "percent_encoding pct \<Longrightarrow> header_value (rt_base r) \<Longrightarrow> header_value (link pct r path)"
  using header_value_pct [of pct PATH_SEGMENT] control_sets(1)
  by (auto simp: link_def Let_def intro!: header_value_join)

lemma attachment_header:
  assumes "percent_encoding pct"
  shows "header_value (attachment pct filename)"
proof -
  have "header_char (attachment_char c)" for c
    using header_char_alphanumeric [of c] by (auto simp: attachment_char_def)
  then have "header_value (map attachment_char s)" for s by (simp add: header_value_def list_all_iff)
  with header_value_pct [OF assms, of ATTR_CHAR filename] control_sets(2) show ?thesis by (simp add: attachment_def)
qed

section \<open>Typed responses and states\<close>

definition response_ok :: "response \<Rightarrow> bool" where
  "response_ok resp \<longleftrightarrow> (\<forall>(name, v) \<in> set (rs_headers resp). header_value v)"

fun reply_ok :: "http_error + http_reply \<Rightarrow> bool" where
  "reply_ok (Inr (Reply resp)) = response_ok resp"
| "reply_ok _ = True"

text \<open>What the code outside the repository gives: names of types, identifiers and the boundary.\<close>

definition env_ok :: "gateway_env \<Rightarrow> bool" where
  "env_ok env \<longleftrightarrow> (\<forall>supplied prefix. header_value (ge_classify env supplied prefix)) \<and> header_value (ge_boundary env)"

definition ext_ok :: "http_ext \<Rightarrow> bool" where
  "ext_ok X \<longleftrightarrow> percent_encoding (hx_pct X) \<and> (\<forall>bs. list_all is_alphanumeric (ie_encode (hx_ids X) bs))"

definition sources_ok :: "('p, 'h, 's, 'c, 'z) gateway_ops \<Rightarrow> ('p, 'h, 's, 'c, 'z) gateway \<Rightarrow> bool" where
  "sources_ok G g \<longleftrightarrow> (\<forall>h src. lru_peek (op_sources G) (gw_sources g) h = Some src \<longrightarrow> header_value (src_mime (snd src)))"

lemma ext_encode: "ext_ok X \<Longrightarrow> header_value (ie_encode (hx_ids X) bs)"
  by (simp add: ext_ok_def header_value_alphanumeric)

lemma parsed_header: "ext_ok X \<Longrightarrow> parse_z32_bytes (ie_decode (hx_ids X)) (ie_encode (hx_ids X)) v = Some bs \<Longrightarrow> header_value v"
  using ext_encode [of X bs] by (auto simp: parse_z32_bytes_def split: if_splits option.splits)

lemma caching_header_ok [simp]: "header_value (caching_header c)"
  by (cases c) simp_all

section \<open>Responses\<close>

lemma base_headers_ok:
  assumes "percent_encoding pct" "header_value (src_mime src)" "header_value encoded"
  shows "\<forall>(name, v) \<in> set (base_headers pct src encoded download c). header_value v"
  using assms attachment_header [OF assms(1)] by (auto simp: base_headers_def etag_def quot_def split: option.splits)

lemma serve_range_ok:
  assumes "serve_range C fetch src mth status headers rng = Inr resp" "\<forall>(name, v) \<in> set headers. header_value v"
  shows "response_ok resp"
  using assms by (auto simp: serve_range_def response_ok_def Let_def split: if_splits start_result.splits prod.splits)

lemma serve_blob_ok:
  assumes "serve_blob pct C fetch boundary src encoded download c mth headers = Inr resp"
    "percent_encoding pct" "header_value (src_mime src)" "header_value encoded" "header_value boundary"
  shows "response_ok resp"
proof -
  note base = base_headers_ok [OF assms(2-4), of download c]
  show ?thesis
  proof (cases "not_modified (etag encoded) (if_none_match headers)")
    case True
    with assms(1) base show ?thesis by (auto simp: serve_blob_def response_ok_def Let_def)
  next
    case False
    note sb = assms(1) [unfolded serve_blob_def Let_def if_not_P [OF False]]
    show ?thesis
    proof (cases "choose_selection (etag encoded) mth headers (src_size src)")
      case Unsatisfiable
      with sb show ?thesis by (auto simp: response_ok_def)
    next
      case SelFull
      with sb base show ?thesis by (auto intro: serve_range_ok)
    next
      case (SelPartial ranges)
      show ?thesis
      proof (cases "length ranges > 1")
        case True
        with sb SelPartial base assms(5) show ?thesis
          by (auto simp: response_ok_def split: option.splits prod.splits)
      next
        case False
        with sb SelPartial base show ?thesis by (auto intro!: serve_range_ok)
      qed
    qed
  qed
qed

lemma serve_source_ok:
  assumes "ext_ok X" "env_ok env" "header_value (src_mime (snd src))" "serve_source X env c hash src download mth headers = Inr resp"
  shows "response_ok resp"
  using assms(4) unfolding serve_source_def
  by (rule serve_blob_ok) (use assms ext_encode in \<open>auto simp: ext_ok_def env_ok_def\<close>)

lemma with_charset_ok: "header_value mime \<Longrightarrow> header_value (with_charset mime prefix)"
  by (simp add: with_charset_def Let_def)

lemma source_on_connection_ok:
  "env_ok env \<Longrightarrow> source_on_connection env conn hash name = Inr src \<Longrightarrow> header_value (src_mime (snd src))"
  by (auto simp: source_on_connection_def env_ok_def Let_def intro!: with_charset_ok split: option.splits sum.splits)

section \<open>State\<close>

text \<open>Only \<open>source_for\<close> writes the cache of sources.\<close>

lemma sources_ok_keep: "gw_sources g' = gw_sources g \<Longrightarrow> sources_ok G g' = sources_ok G g"
  by (simp add: sources_ok_def)

lemma connection_sources: "gw_sources (snd (connection G env hash g)) = gw_sources g"
  by (auto simp: connection_def Let_def split: prod.splits option.splits miss.splits if_splits)

lemma size_for_sources: "gw_sources (snd (size_for G env hash conn g)) = gw_sources g"
  by (auto simp: size_for_def Let_def split: prod.splits option.splits sum.splits)

lemma sizes_for_sources: "gw_sources (snd (sizes_for G env hashes conn g)) = gw_sources g"
  by (induction hashes arbitrary: g) (auto simp: Let_def size_for_sources case_prod_unfold)

lemma collection_on_connection_sources: "gw_sources (snd (collection_on_connection G env hash conn g)) = gw_sources g"
  by (auto simp: collection_on_connection_def Let_def split: prod.splits option.splits sum.splits if_splits)

lemma collection_for_sources: "gw_sources (snd (collection_for G env hash g)) = gw_sources g"
proof -
  have "gw_sources (snd (case connection G env hash g of (Inl e, g) \<Rightarrow> (Inl e, g)
      | (Inr conn, g) \<Rightarrow> collection_on_connection G env hash conn g)) = gw_sources g" for g
    using connection_sources [of G env hash g] collection_on_connection_sources [of G env hash]
    by (auto split: prod.splits sum.splits)
  then show ?thesis
    unfolding collection_for_def Let_def case_prod_unfold by (auto split: option.splits sum.splits)
qed

lemma source_for_ok:
  assumes "lru_cache (op_sources G) e" "env_ok env" "sources_ok G g" "source_for G env hash g = (r, g')"
  shows "sources_ok G g'" "r = Inr src \<Longrightarrow> header_value (src_mime (snd src))"
proof -
  let ?g = "g\<lparr>gw_sources := snd (lru_get (op_sources G) hash (gw_sources g))\<rparr>"
  have g: "sources_ok G ?g" using assms(3) by (simp add: sources_ok_def lru_cache.get_keeps [OF assms(1)])
  have put: "sources_ok G (h\<lparr>gw_sources := lru_put (op_sources G) hash src (gw_sources h)\<rparr>)"
    if "sources_ok G h" "header_value (src_mime (snd src))" for h src
  proof (unfold sources_ok_def, intro allI impI)
    fix k s assume "lru_peek (op_sources G) (gw_sources (h\<lparr>gw_sources := lru_put (op_sources G) hash src (gw_sources h)\<rparr>)) k = Some s"
    then show "header_value (src_mime (snd s))"
      using that lru_cache.peek_put [OF assms(1), of hash src "gw_sources h"]
        lru_cache.peek_put_other [OF assms(1), of k hash src "gw_sources h" s]
      unfolding sources_ok_def by (cases "k = hash"; cases s) auto
  qed
  define fetch where "fetch h = (let (conn, h) = connection G env hash h
      in case conn of Inl e \<Rightarrow> (Inl e, h)
         | Inr conn \<Rightarrow> (case source_on_connection env conn hash None of
             Inl e \<Rightarrow> (Inl e, h)
           | Inr src \<Rightarrow> (Inr src, h\<lparr>gw_sources := lru_put (op_sources G) hash src (gw_sources h)\<rparr>)))" for h
  define ok where "ok p \<longleftrightarrow> sources_ok G (snd p) \<and> (\<forall>src. fst p = Inr src \<longrightarrow> header_value (src_mime (snd src)))"
    for p :: "(http_error + blob_source) \<times> _"
  have "ok (fetch h)" if "sources_ok G h" for h
  proof -
    obtain c h' where c: "connection G env hash h = (c, h')" by fastforce
    then have h': "sources_ok G h'" using that sources_ok_keep [OF connection_sources, of G G env hash h] by simp
    show ?thesis
    proof (cases c)
      case (Inl e)
      with h' show ?thesis by (simp add: fetch_def c ok_def)
    next
      case (Inr conn)
      with h' put [OF h'] source_on_connection_ok [OF assms(2), of conn hash None] show ?thesis
        by (cases "source_on_connection env conn hash None") (simp_all add: fetch_def c ok_def)
    qed
  qed
  moreover have "source_for G env hash g = (case lru_peek (op_sources G) (gw_sources g) hash of
      Some src \<Rightarrow> if \<not> ge_closed env (fst src) then (Inr src, ?g) else fetch ?g | None \<Rightarrow> fetch ?g)"
    unfolding source_for_def Let_def case_prod_unfold fetch_def lru_cache.get_value [OF assms(1)] ..
  moreover have "ok (Inr src, ?g)" if "lru_peek (op_sources G) (gw_sources g) hash = Some src" for src
    using that g assms(3) unfolding ok_def sources_ok_def by (metis fst_conv snd_conv sum.inject(2))
  ultimately have "ok (source_for G env hash g)" using g by (simp split: option.split)
  with assms(4) show "sources_ok G g'" "r = Inr src \<Longrightarrow> header_value (src_mime (snd src))" by (simp_all add: ok_def)
qed

section \<open>Handlers\<close>

definition typed :: "('p, 'h, 's, 'c, 'z) gateway_ops \<Rightarrow> (http_error + http_reply) \<times> ('p, 'h, 's, 'c, 'z) gateway \<Rightarrow> bool" where
  "typed G r \<longleftrightarrow> reply_ok (fst r) \<and> sources_ok G (snd r)"

lemma typed_error [simp]: "typed G (Inl e, g) = sources_ok G g"
  by (simp add: typed_def)

lemma typed_reply: "(\<And>resp. r = Inr resp \<Longrightarrow> response_ok resp) \<Longrightarrow> sources_ok G g \<Longrightarrow> typed G (reply (r, g))"
  by (cases r) (simp_all add: typed_def reply_def)

definition query_ok :: "string option \<Rightarrow> bool" where
  "query_ok query \<longleftrightarrow> (case query of None \<Rightarrow> True | Some q \<Rightarrow> header_value q)"

lemma entry_response_typed:
  assumes "ext_ok X" "env_ok env" "sources_ok G g" "header_value (rt_base r)" "query_ok query"
  shows "typed G (reply (entry_response X G env r source url_path query mth headers g))"
proof -
  obtain conn coll where src: "source = (conn, coll)" by fastforce
  have pct: "percent_encoding (hx_pct X)" using assms(1) by (simp add: ext_ok_def)
  have listing: "response_ok (listing_response html)" for html by (simp add: listing_response_def response_ok_def)
  show ?thesis
  proof (cases "collection_entry (hx_pct X) r coll url_path query")
    case (ServeFile hash name download)
    have "fst (entry_response X G env r source url_path query mth headers g) = Inr resp \<Longrightarrow> response_ok resp" for resp
      using ServeFile source_on_connection_ok [OF assms(2), of conn hash "Some name"]
        serve_source_ok [OF assms(1,2), of _ "rt_caching r" hash download mth headers resp]
      by (fastforce simp: entry_response_def src split: sum.splits)
    moreover have "snd (entry_response X G env r source url_path query mth headers g) = g"
      using ServeFile by (simp add: entry_response_def src)
    ultimately show ?thesis using assms(3) typed_reply by (metis prod.collapse)
  next
    case (Redirect status location cache)
    then have "\<exists>dir. location = link (hx_pct X) r dir @ (case query of None \<Rightarrow> [] | Some q \<Rightarrow> ''?'' @ q)" "\<exists>c. cache = caching_header c"
      by (auto simp: collection_entry_def Let_def split: option.splits if_splits)
    then have "response_ok (redirect_response status location cache)"
      using link_header [OF pct assms(4)] assms(5)
      by (auto simp: redirect_response_def response_ok_def query_ok_def split: option.splits)
    with Redirect assms(3) show ?thesis by (auto simp: entry_response_def src intro!: typed_reply)
  next
    case (Listing dir e with_sizes flag)
    have "sources_ok G (snd (listing_sizes G env conn hs g))" for hs
      using assms(3) sizes_for_sources [of G env "fst (ge_sizes env hs)" conn g]
      by (simp add: listing_sizes_def case_prod_unfold Let_def sources_ok_def)
    with Listing listing assms(3) show ?thesis
      by (auto simp: entry_response_def src case_prod_unfold Let_def intro!: typed_reply split: option.splits)
  next
    case NotFound
    with assms(3) show ?thesis by (auto simp: entry_response_def src intro!: typed_reply)
  qed
qed

lemma sources_ok_hints [simp]: "sources_ok G (g\<lparr>gw_hints := h\<rparr>) = sources_ok G g"
  by (simp add: sources_ok_def)

lemma typed_debug [simp]: "typed G (Inr (DebugProviders hash), g) = sources_ok G g"
  by (simp add: typed_def)

lemma collection_for_typed: "sources_ok G g \<Longrightarrow> sources_ok G (snd (collection_for G env hash g))"
  by (simp only: sources_ok_keep [OF collection_for_sources])

lemma serve_path_typed:
  assumes "ext_ok X" "env_ok env" "sources_ok G g" "header_value (rt_base r)" "query_ok query"
  shows "typed G (serve_path X G env r hash path query mth headers g)"
proof -
  obtain hints hs where h: "add_from_query (hx_ids X) (op_hints G) hash query (ge_now env) (gw_hints g) = (hints, hs)" by fastforce
  let ?g = "g\<lparr>gw_hints := hs\<rparr>"
  obtain coll g' where c: "collection_for G env hash ?g = (coll, g')" by fastforce
  have g': "sources_ok G g'" using collection_for_typed [of G ?g env hash] assms(3) c by simp
  show ?thesis
    using assms(3) g' entry_response_typed [OF assms(1,2) g' assms(4,5)]
    by (auto simp: serve_path_def h c Let_def split: sum.splits)
qed

lemma serve_root_typed:
  assumes "lru_cache (op_sources G) e" "ext_ok X" "env_ok env" "sources_ok G g" "header_value (rt_base r)" "query_ok query"
  shows "typed G (serve_root X G env r hash slash query mth headers g)"
proof -
  obtain hints hs where h: "add_from_query (hx_ids X) (op_hints G) hash query (ge_now env) (gw_hints g) = (hints, hs)" by fastforce
  let ?g = "g\<lparr>gw_hints := hs\<rparr>"
  obtain coll g1 where c: "collection_for G env hash ?g = (coll, g1)" by fastforce
  have g1: "sources_ok G g1" using collection_for_typed [of G ?g env hash] assms(4) c by simp
  obtain src g2 where s: "source_for G env hash ?g = (src, g2)" by fastforce
  have ok: "sources_ok G ?g" using assms(4) by simp
  note src = source_for_ok [OF assms(1,3) ok s]
  have g3: "sources_ok G (snd (collection_on_connection G env hash conn g2))" for conn
    using src(1) by (simp only: sources_ok_keep [OF collection_on_connection_sources])
  have plain: "typed G (reply (serve_source X env (rt_caching r) hash x d mth headers, g'))"
    if "src = Inr x" "sources_ok G g'" for x d g'
    using serve_source_ok [OF assms(2,3) src(2) [OF that(1)]] that(2) by (auto intro: typed_reply)
  have entry: "typed G (reply (entry_response X G env r c u query mth headers g'))" if "sources_ok G g'" for c u g'
    using entry_response_typed [OF assms(2,3) that assms(5,6)] .
  show ?thesis
  proof (cases src)
    case (Inl err)
    with assms(4) g1 src(1) entry show ?thesis by (auto simp: serve_root_def h c s Let_def split: sum.splits)
  next
    case (Inr x)
    obtain coll' g4 where c': "collection_on_connection G env hash (fst x) g2 = (coll', g4)" by fastforce
    with g3 [of "fst x"] have "sources_ok G g4" by simp
    with assms(4) g1 src(1) entry plain [OF Inr] Inr show ?thesis
      by (auto simp: serve_root_def h c s c' Let_def split: sum.splits)
  qed
qed

lemma root_new_header: "ext_ok X \<Longrightarrow> parse_path_hash (hx_ids X) encoded = Inr hash \<Longrightarrow> header_value (rt_base (root_new encoded subdomain))"
  using parsed_header [of X encoded] by (auto simp: parse_path_hash_def root_new_def split: option.splits)

lemma routes_typed:
  assumes "lru_cache (op_sources G) e" "ext_ok X" "env_ok env" "sources_ok G g" "query_ok query"
  shows "typed G (blob_route X G env encoded query subdomain mth headers g)"
    "typed G (collection_path X G env encoded path query subdomain mth headers g)"
    "typed G (collection_root X G env encoded query subdomain mth headers g)"
  using assms serve_root_typed [OF assms(1-4) root_new_header [OF assms(2)] assms(5)]
    serve_path_typed [OF assms(2-4) root_new_header [OF assms(2)] assms(5)]
  by (auto simp: blob_route_def collection_path_def collection_root_def split: sum.splits)

section \<open>Pkarr names\<close>

lemma label_header: "label_ok a \<Longrightarrow> header_value a"
  by (auto simp: label_ok_def header_value_def list_all_iff header_char_alphanumeric)

lemma hostname_header: "is_hostname s \<Longrightarrow> header_value s"
proof -
  assume h: "is_hostname s"
  let ?v = "case strip_suffix ''.'' s of None \<Rightarrow> s | Some v \<Rightarrow> v"
  have labels: "list_all label_ok (split_on CHR ''.'' ?v)" using h by (simp add: is_hostname_def Let_def)
  have ok: "header_value t" if "list_all label_ok (split_on CHR ''.'' t)" for t
    using that
  proof (induction t rule: length_induct)
    case (1 t)
    show ?case
    proof (cases "split_once CHR ''.'' t")
      case None
      then have "label_ok t" using 1(2) by (simp add: split_once_None split_on_single)
      then show ?thesis by (rule label_header)
    next
      case (Some p)
      obtain a b where p: "p = (a, b)" by fastforce
      with Some have t: "t = a @ CHR ''.'' # b" "CHR ''.'' \<notin> set a" by (simp_all add: split_once_Some)
      with 1(2) have "label_ok a" "list_all label_ok (split_on CHR ''.'' b)" by (simp_all add: split_on_append)
      moreover have "length b < length t" using t by simp
      ultimately have "header_value b" "header_value a" using 1(1) label_header by blast+
      with t show ?thesis by simp
    qed
  qed
  from ok [OF labels] show "header_value s"
    by (cases "strip_suffix ''.'' s") (auto simp: strip_suffix_Some)
qed

lemma target_ports_header: "target_ports ps t = Some a \<Longrightarrow> header_value t \<Longrightarrow> header_value a"
  by (induction ps t rule: target_ports.induct) (auto split: if_splits)

lemma authority_header: "authority s = Some a \<Longrightarrow> header_value a"
  using target_ports_header hostname_header by (auto simp: authority_def Let_def split: if_splits)

lemma min_target_mem: "min_target ts = Some m \<Longrightarrow> m \<in> set ts"
  by (induction ts arbitrary: m) (auto split: option.splits if_splits)

lemma target_header: "target packet key = Some a \<Longrightarrow> header_value a"
  using authority_header
  by (fastforce simp: target_def target_of_def List.map_filter_def dest!: min_target_mem split: pk_rdata.splits)

lemma pkarr_target_header: "fst (pkarr_target L x encoded key t1 t2 answer c) = Inr a \<Longrightarrow> header_value a"
  using target_header by (auto simp: pkarr_target_def Let_def case_prod_unfold split: option.splits sum.splits)

text \<open>What the plan of a Pkarr request carries into headers, when the path and query of the request are those of a URI.\<close>

fun plan_ok :: "pkarr_plan \<Rightarrow> bool" where
  "plan_ok (PkarrRoot r hash slash) = header_value (rt_base r)"
| "plan_ok (PkarrPath r hash path) = header_value (rt_base r)"
| "plan_ok (PkarrRedirect location) = header_value location"
| "plan_ok (PkarrDebug key encoded) = True"

lemma redirect_plan:
  assumes "ext_ok X" "header_value uri_path" "query_ok query"
    "fst (redirect L x (hx_ids X) decode uri_path query subdomain t1 t2 answer c) = Inr plan"
  shows "plan_ok plan"
proof -
  define rest where "rest = (case strip_prefix ''/pkarr/'' uri_path of None \<Rightarrow> uri_path | Some r \<Rightarrow> r)"
  obtain encoded path where ep: "(case split_once CHR ''/'' rest of None \<Rightarrow> (rest, ''/'') | Some (k, p) \<Rightarrow> (k, ''/'' @ p)) = (encoded, path)"
    by fastforce
  have "header_value rest" using assms(2) by (auto simp: rest_def strip_prefix_Some split: option.splits)
  then have path: "header_value path" using ep by (auto simp: split_once_Some split: option.splits)
  have enc: "header_value encoded" if "parse_key (hx_ids X) encoded = Inr key" for key
    using that parsed_header [OF assms(1), of encoded] by (auto simp: parse_key_def split: option.splits)
  show ?thesis
    using assms(3,4) path enc pkarr_target_header [of L x encoded _ t1 t2 answer c]
    unfolding redirect_def Let_def rest_def [symmetric] ep
    by (auto simp: case_prod_unfold root_at_def query_ok_def split: sum.splits if_splits option.splits)
qed

lemma pkarr_route_typed:
  assumes "lru_cache (op_sources G) e" "ext_ok X" "env_ok env" "sources_ok G g" "query_ok query" "header_value uri_path"
    "pkarr_route L x X G env decode uri_path query subdomain host mth headers t1 t2 answer c g = (r, c', g')"
  shows "typed G (r, g')"
proof -
  obtain plan c1 where p: "redirect L x (hx_ids X) decode uri_path query subdomain t1 t2 answer c = (plan, c1)" by fastforce
  show ?thesis
  proof (cases plan)
    case (Inl err)
    with assms(4,7) p show ?thesis by (auto simp: pkarr_route_def)
  next
    case (Inr pl)
    have ok: "plan_ok pl" using redirect_plan [OF assms(2,6,5)] p Inr by (metis fst_conv)
    have "typed G (pkarr_response X G env query h mth headers pl g)" for h
      using ok serve_root_typed [OF assms(1-4) _ assms(5)] serve_path_typed [OF assms(2-4) _ assms(5)] assms(4)
      by (cases pl) (auto simp: pkarr_response_def typed_def response_ok_def)
    with assms(7) p Inr show ?thesis by (auto simp: pkarr_route_def case_prod_unfold Let_def)
  qed
qed

section \<open>Requests\<close>

text \<open>What the framework around the handlers gives: its own responses are legal, and a request target is a URI.\<close>

definition router_ok :: "router_ext \<Rightarrow> bool" where
  "router_ok R \<longleftrightarrow> response_ok (ro_missing R) \<and> response_ok (ro_bad_path R)"

definition request_ok :: "request \<Rightarrow> bool" where
  "request_ok rq \<longleftrightarrow> (case rq_target rq of None \<Rightarrow> True | Some t \<Rightarrow> header_value t)"

lemma error_response_ok: "response_ok (error_response e)"
  by (cases e) (simp add: error_response_def response_ok_def)

text \<open>The headers of a debug page are three literals.\<close>

lemma streamed_page_ok: "response_ok (streamed_page css title snapshots)"
  by (simp add: streamed_page_def response_ok_def)

lemma finish_ok: "reply_ok r \<Longrightarrow> response_ok (finish R r)"
  by (auto simp: finish_def error_response_ok streamed_page_ok split: sum.splits http_reply.splits prod.splits)

lemma split_target_header:
  assumes "split_target t = (path, query)" "header_value t"
  shows "header_value path" "query_ok query"
  using assms by (auto simp: split_target_def query_ok_def split_once_Some split: option.splits)

lemma dispatch_typed:
  assumes "lru_cache (op_sources G) e" "ext_ok X" "env_ok env" "router_ok R" "sources_ok G g" "header_value t"
    "dispatch L x X R G env penv rq subdomain t (c, g) = (resp, c', g')"
  shows "response_ok resp \<and> sources_ok G g'"
proof -
  obtain path query where t: "split_target t = (path, query)" by fastforce
  note pq = split_target_header [OF t assms(6)]
  note routes = routes_typed [OF assms(1-3,5) pq(2)]
  obtain r c1 g1 where pk: "pkarr_route L x X G env (ro_decode R) path query subdomain (rq_header_host rq) (rq_method rq)
      (rq_headers rq) (pe_t1 penv) (pe_t2 penv) (pe_lookup penv) c g = (r, c1, g1)" by (metis prod.collapse)
  note pkarr = pkarr_route_typed [OF assms(1-3,5) pq(2,1) pk]
  have own: "response_ok (ro_missing R)" "response_ok (ro_bad_path R)" using assms(4) by (simp_all add: router_ok_def)
  show ?thesis
    using assms(5,7) own routes pkarr finish_ok
    by (auto simp: dispatch_def t pk Let_def case_prod_unfold typed_def split: option.splits route.splits)
qed

lemma rewritten_header:
  assumes "ext_ok X" "request_ok rq"
    "rewrite_subdomain (ie_decode (hx_ids X)) (ie_encode (hx_ids X)) uri_ok uri_host header_host (rq_target rq) = Some t"
  shows "header_value t"
proof -
  obtain host label route' where r: "find_route (ie_decode (hx_ids X)) (ie_encode (hx_ids X)) SUBDOMAIN_ROUTES host = Some (label, route')"
      "t = subdomain_target route' label (case strip_prefix ''/'' (case rq_target rq of None \<Rightarrow> ''/'' | Some p \<Rightarrow> p) of
         None \<Rightarrow> (case rq_target rq of None \<Rightarrow> ''/'' | Some p \<Rightarrow> p) | Some r \<Rightarrow> r)"
    using assms(3) unfolding rewrite_subdomain_def subdomain_target_def
    by (auto simp: Let_def bind_eq_Some_conv split: option.splits if_splits)
  have "header_value label" "header_value route'"
    using find_route_label [OF r(1)] parsed_header [OF assms(1)] by auto
  moreover have "header_value (case rq_target rq of None \<Rightarrow> ''/'' | Some p \<Rightarrow> p)"
    using assms(2) by (auto simp: request_ok_def split: option.splits)
  ultimately show ?thesis unfolding r(2) subdomain_target_def by (auto simp: strip_prefix_Some split: option.splits)
qed

lemma sandbox_ok: "response_ok resp \<Longrightarrow> response_ok (sandbox_path_routes subdomain resp)"
  by (auto simp: response_ok_def sandbox_path_routes_def PATH_SANDBOX_def)

lemma gateway_request_typed:
  assumes "lru_cache (op_sources G) e" "ext_ok X" "env_ok env" "router_ok R" "sources_ok G g" "request_ok rq"
    "gateway_request L x X R G env penv rq (c, g) = (resp, c', g')"
  shows "response_ok resp \<and> sources_ok G g'"
proof -
  let ?rw = "rewrite_subdomain (ie_decode (hx_ids X)) (ie_encode (hx_ids X)) (ro_uri_ok R)
    (rq_uri_host rq) (rq_header_host rq) (rq_target rq)"
  let ?t = "case ?rw of Some t \<Rightarrow> t | None \<Rightarrow> (case rq_target rq of None \<Rightarrow> [] | Some t \<Rightarrow> t)"
  have t: "header_value ?t" using rewritten_header [OF assms(2,6)] assms(6) by (auto simp: request_ok_def split: option.splits)
  obtain r c1 g1 where d: "dispatch L x X R G env penv rq (?rw \<noteq> None) ?t (c, g) = (r, c1, g1)" by (metis prod.collapse)
  from dispatch_typed [OF assms(1-5) t d] have "response_ok r" "sources_ok G g1" by simp_all
  moreover have "resp = sandbox_path_routes (?rw \<noteq> None) r" "g' = g1" using assms(7) d by (simp_all add: gateway_request_def)
  ultimately show ?thesis using sandbox_ok by simp
qed

text \<open>The requests one gateway answers, one after the other, each with what its environment does.\<close>

fun serve_requests :: "'k packet_lru \<Rightarrow> pkarr_ext \<Rightarrow> http_ext \<Rightarrow> router_ext \<Rightarrow> ('p, 'h, 's, 'c, 'z) gateway_ops \<Rightarrow>
    (gateway_env \<times> pkarr_env \<times> request) list \<Rightarrow> 'k \<times> ('p, 'h, 's, 'c, 'z) gateway \<Rightarrow> response list" where
  "serve_requests L x X R G [] st = []"
| "serve_requests L x X R G ((env, penv, rq) # rqs) st =
     (let (resp, st) = gateway_request L x X R G env penv rq st in resp # serve_requests L x X R G rqs st)"

text \<open>
  C28. No request makes the gateway panic on a response or break its headers. Whatever requests a gateway answers, with
  whatever file names, queries, hosts, Pkarr packets and providers, from its start on: every value of every header it
  sends is a legal one, without a line break or another control character. What it keeps between requests
  stays typed: the cached sources carry legal content types.
\<close>

theorem responses_well_typed:
  assumes "lru_cache (op_sources G) e" "ext_ok X" "router_ok R" "gw_sources g = e"
    "\<And>env penv rq. (env, penv, rq) \<in> set rqs \<Longrightarrow> env_ok env \<and> request_ok rq"
  shows "\<forall>resp \<in> set (serve_requests L x X R G rqs (c, g)). \<forall>(name, v) \<in> set (rs_headers resp). header_value v"
proof -
  have "sources_ok G g" using assms(4) lru_cache.peek_empty [OF assms(1)] by (simp add: sources_ok_def)
  then have "\<forall>resp \<in> set (serve_requests L x X R G rqs (c, g)). response_ok resp"
    using assms(5)
  proof (induction rqs arbitrary: c g)
    case (Cons q rqs)
    obtain env penv rq where q: "q = (env, penv, rq)" by (cases q) auto
    obtain resp c' g' where r: "gateway_request L x X R G env penv rq (c, g) = (resp, c', g')" by (metis prod.collapse)
    have "env_ok env" "request_ok rq" using Cons.prems(2) [of env penv rq] q by simp_all
    from gateway_request_typed [OF assms(1,2) this(1) assms(3) Cons.prems(1) this(2) r] Cons.IH [of g' c'] Cons.prems(2)
    show ?case by (auto simp: q r)
  qed simp
  then show ?thesis by (simp add: response_ok_def)
qed

theorem responses_well_typed_witness:
  "list_all (\<lambda>resp. list_all (\<lambda>(name, v). header_value v) (rs_headers resp))
     (serve_requests list_lru sample_pkarr sample_ext sample_router sample_ops
      [(serving_env, \<lparr>pe_t1 = 0, pe_t2 = 0, pe_lookup = None\<rparr>, foreign_request),
       (serving_env, \<lparr>pe_t1 = 0, pe_t2 = 0, pe_lookup = None\<rparr>, foreign_request\<lparr>rq_target := None\<rparr>)] ((9, []), serving_gateway))"
  unfolding list_all_iff
proof (rule responses_well_typed [where e = "(9, [])"])
  show "lru_cache (op_sources sample_ops) (9, [])" by (simp add: sample_ops_def list_lru.lru_cache_axioms)
  show "ext_ok sample_ext"
    by (simp add: ext_ok_def sample_ext_def reference.percent_encoding_axioms list_all_iff is_alphanumeric_def)
  show "router_ok sample_router" by (simp add: router_ok_def sample_router_def response_ok_def)
  show "gw_sources serving_gateway = (9, [])" by (simp add: serving_gateway_def sample_gateway_def)
  show "env_ok env \<and> request_ok rq"
    if "(env, penv, rq) \<in> set [(serving_env, \<lparr>pe_t1 = 0, pe_t2 = 0, pe_lookup = None\<rparr>, foreign_request),
       (serving_env, \<lparr>pe_t1 = 0, pe_t2 = 0, pe_lookup = None\<rparr>, foreign_request\<lparr>rq_target := None\<rparr>)]" for env penv rq
    using that by (auto simp: env_ok_def request_ok_def serving_env_def sample_env_def foreign_request_def sample_name_def)
qed

end
