(* ===== verification/Lifecycle.thy ===== *)
theory Lifecycle
  imports Prelude
begin

text \<open>
  The lifecycle of the installed gateway: the files of its state directory
  (\<open>iroh-link-gateway/src/background.rs\<close>) and the launcher that starts, stops and checks it
  (\<open>iroh-link-gateway/src/bin/iroh-link-gateway-background.rs\<close>). Gateways and the launcher are
  processes that only share files, so every operation on a file is a step of its own and the steps of
  all processes interleave.
\<close>

section \<open>State\<close>

type_synonym pid = nat

text \<open>
  A gateway from its start to its end: it opens the lock file, locks it, removes the stop and the ready
  file, writes the ready file once its listener is bound, and on leaving drops its
  \<open>Runtime\<close>: the ready file, the stop file, the lock.
\<close>

datatype gateway_phase =
    Absent
  | Spawned
  | Opened
  | Locked
  | StopCleared
  | Cleared
  | Serving
  | Leaving
  | ReadyRemoved
  | StopRemoved
  | Gone

text \<open>The launcher runs one command at a time. \<open>running\<close> is called from four places.\<close>

datatype probe_caller = StartCheck | StartWait pid | StopCheck | StopWait | StatusCheck

datatype command_result = StartOk | StartFailed | StartTimedOut | StopOk | StopTimedOut | Status bool | Failed

datatype launcher_phase =
    Idle
  | Probing probe_caller
  | ProbeOpen probe_caller
  | ProbeHeld probe_caller
  | Answer probe_caller bool
  | StartClear
  | StartRemove
  | StartSpawn
  | StartPoll pid
  | StopWrite
  | Done command_result

datatype lock = Free | ByGateway pid | ByLauncher

text \<open>
  The ready file is \<open>Some\<close> when it exists, with the gateway that wrote it and the number of commands the
  launcher had begun; the stop file with the owner of the lock when it was written. What they carry is
  only for the statements below: no step reads it.
\<close>

record lifecycle =
  lock_exists :: bool
  lock_owner :: lock
  ready_file :: "(pid \<times> nat) option"
  stop_file :: "lock option"
  phases :: "pid \<Rightarrow> gateway_phase"
  launcher :: launcher_phase
  commands :: nat

definition lifecycle_new :: lifecycle where
  "lifecycle_new = \<lparr>lock_exists = False, lock_owner = Free, ready_file = None, stop_file = None,
     phases = (\<lambda>_. Absent), launcher = Idle, commands = 0\<rparr>"

definition set_phase :: "pid \<Rightarrow> gateway_phase \<Rightarrow> lifecycle \<Rightarrow> lifecycle" where
  "set_phase p ph s = s\<lparr>phases := (phases s)(p := ph)\<rparr>"

text \<open>The system releases the lock of a process that ends.\<close>

definition end_gateway :: "pid \<Rightarrow> lifecycle \<Rightarrow> lifecycle" where
  "end_gateway p s =
     (set_phase p Gone s)\<lparr>lock_owner := if lock_owner s = ByGateway p then Free else lock_owner s\<rparr>"

section \<open>Gateways\<close>

text \<open>
  \<open>Runtime::acquire\<close>, \<open>ready\<close>, \<open>stopped\<close> and \<open>drop\<close>. A gateway can be started by anyone, and end at any time.
  An error inside \<open>acquire\<close> gives the lock back without a \<open>Runtime\<close> to drop; \<open>drop\<close> ignores errors, so
  \<open>removed\<close> says whether a file is gone after it.
\<close>

inductive gateway_step :: "pid \<Rightarrow> lifecycle \<Rightarrow> lifecycle \<Rightarrow> bool" for p where
  g_spawn: "phases s p = Absent \<Longrightarrow> gateway_step p s (set_phase p Spawned s)"
| g_open: "phases s p = Spawned \<Longrightarrow> gateway_step p s ((set_phase p Opened s)\<lparr>lock_exists := True\<rparr>)"
| g_lock: "phases s p = Opened \<Longrightarrow> lock_owner s = Free \<Longrightarrow>
    gateway_step p s ((set_phase p Locked s)\<lparr>lock_owner := ByGateway p\<rparr>)"
| g_busy: "phases s p = Opened \<Longrightarrow> lock_owner s \<noteq> Free \<Longrightarrow> gateway_step p s (set_phase p Gone s)"
| g_clear_stop: "phases s p = Locked \<Longrightarrow> gateway_step p s ((set_phase p StopCleared s)\<lparr>stop_file := None\<rparr>)"
| g_clear_ready: "phases s p = StopCleared \<Longrightarrow> gateway_step p s ((set_phase p Cleared s)\<lparr>ready_file := None\<rparr>)"
| g_ready: "phases s p = Cleared \<Longrightarrow>
    gateway_step p s ((set_phase p Serving s)\<lparr>ready_file := Some (p, commands s)\<rparr>)"
| g_stopped: "phases s p = Serving \<Longrightarrow> stop_file s \<noteq> None \<Longrightarrow> gateway_step p s (set_phase p Leaving s)"
| g_leave: "phases s p \<in> {Cleared, Serving} \<Longrightarrow> gateway_step p s (set_phase p Leaving s)"
| g_drop_ready: "phases s p = Leaving \<Longrightarrow>
    gateway_step p s ((set_phase p ReadyRemoved s)\<lparr>ready_file := if removed then None else ready_file s\<rparr>)"
| g_drop_stop: "phases s p = ReadyRemoved \<Longrightarrow>
    gateway_step p s ((set_phase p StopRemoved s)\<lparr>stop_file := if removed then None else stop_file s\<rparr>)"
| g_end: "phases s p \<notin> {Absent, Gone} \<Longrightarrow> gateway_step p s (end_gateway p s)"

section \<open>The launcher\<close>

text \<open>
  \<open>running\<close>, on behalf of \<open>c\<close>: it opens the lock file if it exists and tries to lock it. When that
  succeeds nobody runs, and the lock is given back when the file is closed. An error of opening or locking
  ends the command.
\<close>

inductive probe_step :: "lifecycle \<Rightarrow> lifecycle \<Rightarrow> bool" where
  p_missing: "launcher s = Probing c \<Longrightarrow> \<not> lock_exists s \<Longrightarrow> probe_step s (s\<lparr>launcher := Answer c False\<rparr>)"
| p_open: "launcher s = Probing c \<Longrightarrow> lock_exists s \<Longrightarrow> probe_step s (s\<lparr>launcher := ProbeOpen c\<rparr>)"
| p_busy: "launcher s = ProbeOpen c \<Longrightarrow> lock_owner s \<noteq> Free \<Longrightarrow> probe_step s (s\<lparr>launcher := Answer c True\<rparr>)"
| p_take: "launcher s = ProbeOpen c \<Longrightarrow> lock_owner s = Free \<Longrightarrow>
    probe_step s (s\<lparr>launcher := ProbeHeld c, lock_owner := ByLauncher\<rparr>)"
| p_failed: "launcher s = Probing c \<or> launcher s = ProbeOpen c \<Longrightarrow> probe_step s (s\<lparr>launcher := Done Failed\<rparr>)"
| p_close: "launcher s = ProbeHeld c \<Longrightarrow> probe_step s (s\<lparr>launcher := Answer c False, lock_owner := Free\<rparr>)"

text \<open>
  \<open>start\<close>: unless a gateway runs, the arguments are read, a ready file is removed and the gateway is
  spawned; then, until the deadline, the child must not have exited, and some gateway must run with
  its ready file written. The deadline only passes while the loop sleeps, and kills the child.
\<close>

inductive start_step :: "lifecycle \<Rightarrow> lifecycle \<Rightarrow> bool" where
  s_begin: "launcher s = Idle \<Longrightarrow> start_step s (s\<lparr>launcher := Probing StartCheck, commands := Suc (commands s)\<rparr>)"
| s_running: "launcher s = Answer StartCheck True \<Longrightarrow> start_step s (s\<lparr>launcher := Done StartOk\<rparr>)"
| s_arguments: "launcher s = Answer StartCheck False \<Longrightarrow> start_step s (s\<lparr>launcher := StartClear\<rparr>)"
| s_no_arguments: "launcher s = Answer StartCheck False \<Longrightarrow> start_step s (s\<lparr>launcher := Done StartFailed\<rparr>)"
| s_stale: "launcher s = StartClear \<Longrightarrow> ready_file s \<noteq> None \<Longrightarrow> start_step s (s\<lparr>launcher := StartRemove\<rparr>)"
| s_none: "launcher s = StartClear \<Longrightarrow> ready_file s = None \<Longrightarrow> start_step s (s\<lparr>launcher := StartSpawn\<rparr>)"
| s_remove: "launcher s = StartRemove \<Longrightarrow> ready_file s \<noteq> None \<Longrightarrow>
    start_step s (s\<lparr>launcher := StartSpawn, ready_file := None\<rparr>)"
| s_not_removed: "launcher s = StartRemove \<Longrightarrow> start_step s (s\<lparr>launcher := Done StartFailed\<rparr>)"
| s_spawn: "launcher s = StartSpawn \<Longrightarrow> phases s p = Absent \<Longrightarrow>
    start_step s ((set_phase p Spawned s)\<lparr>launcher := StartPoll p\<rparr>)"
| s_no_spawn: "launcher s = StartSpawn \<Longrightarrow> start_step s (s\<lparr>launcher := Done StartFailed\<rparr>)"
| s_exited: "launcher s = StartPoll p \<Longrightarrow> phases s p = Gone \<Longrightarrow> start_step s (s\<lparr>launcher := Done StartFailed\<rparr>)"
| s_alive: "launcher s = StartPoll p \<Longrightarrow> phases s p \<noteq> Gone \<Longrightarrow> start_step s (s\<lparr>launcher := Probing (StartWait p)\<rparr>)"
| s_ready: "launcher s = Answer (StartWait p) True \<Longrightarrow> ready_file s \<noteq> None \<Longrightarrow>
    start_step s (s\<lparr>launcher := Done StartOk\<rparr>)"
| s_sleep: "launcher s = Answer (StartWait p) b \<Longrightarrow> b = False \<or> ready_file s = None \<Longrightarrow>
    start_step s (s\<lparr>launcher := StartPoll p\<rparr>)"
| s_timeout: "launcher s = StartPoll p \<Longrightarrow> start_step s ((end_gateway p s)\<lparr>launcher := Done StartTimedOut\<rparr>)"

text \<open>
  \<open>stop\<close> writes the stop file when a gateway runs and waits, until the deadline, for it to end;
  \<open>status\<close> only asks. A command that ended leaves the launcher idle, and the launcher can be killed.
\<close>

inductive stop_step :: "lifecycle \<Rightarrow> lifecycle \<Rightarrow> bool" where
  t_begin: "launcher s = Idle \<Longrightarrow> stop_step s (s\<lparr>launcher := Probing StopCheck, commands := Suc (commands s)\<rparr>)"
| t_stopped: "launcher s = Answer StopCheck False \<Longrightarrow> stop_step s (s\<lparr>launcher := Done StopOk\<rparr>)"
| t_running: "launcher s = Answer StopCheck True \<Longrightarrow> stop_step s (s\<lparr>launcher := StopWrite\<rparr>)"
| t_write: "launcher s = StopWrite \<Longrightarrow>
    stop_step s (s\<lparr>launcher := Probing StopWait, stop_file := Some (lock_owner s)\<rparr>)"
| t_not_written: "launcher s = StopWrite \<Longrightarrow> stop_step s (s\<lparr>launcher := Done Failed\<rparr>)"
| t_wait: "launcher s = Answer StopWait True \<Longrightarrow> stop_step s (s\<lparr>launcher := Probing StopWait\<rparr>)"
| t_timeout: "launcher s = Answer StopWait True \<Longrightarrow> stop_step s (s\<lparr>launcher := Done StopTimedOut\<rparr>)"
| t_ended: "launcher s = Answer StopWait False \<Longrightarrow> stop_step s (s\<lparr>launcher := Done StopOk\<rparr>)"
| q_begin: "launcher s = Idle \<Longrightarrow> stop_step s (s\<lparr>launcher := Probing StatusCheck, commands := Suc (commands s)\<rparr>)"
| q_answer: "launcher s = Answer StatusCheck b \<Longrightarrow> stop_step s (s\<lparr>launcher := Done (Status b)\<rparr>)"
| l_next: "launcher s = Done r \<Longrightarrow> stop_step s (s\<lparr>launcher := Idle\<rparr>)"
| l_killed: "stop_step s (s\<lparr>launcher := Idle,
    lock_owner := if lock_owner s = ByLauncher then Free else lock_owner s\<rparr>)"

inductive lifecycle_step :: "lifecycle \<Rightarrow> lifecycle \<Rightarrow> bool" where
  gateway: "gateway_step p s s' \<Longrightarrow> lifecycle_step s s'"
| probe: "probe_step s s' \<Longrightarrow> lifecycle_step s s'"
| start: "start_step s s' \<Longrightarrow> lifecycle_step s s'"
| stop: "stop_step s s' \<Longrightarrow> lifecycle_step s s'"

section \<open>Invariant\<close>

fun holding :: "gateway_phase \<Rightarrow> bool" where
  "holding Absent = False"
| "holding Spawned = False"
| "holding Opened = False"
| "holding Gone = False"
| "holding _ = True"

fun stop_cleared :: "gateway_phase \<Rightarrow> bool" where
  "stop_cleared Locked = False"
| "stop_cleared ph = holding ph"

fun ready_cleared :: "gateway_phase \<Rightarrow> bool" where
  "ready_cleared StopCleared = False"
| "ready_cleared ph = stop_cleared ph"

lemma cleared_holding: "stop_cleared ph \<Longrightarrow> holding ph" "ready_cleared ph \<Longrightarrow> holding ph"
  by (cases ph; simp)+

text \<open>The part of \<open>start\<close> after the old ready file is gone.\<close>

fun waiting :: "launcher_phase \<Rightarrow> bool" where
  "waiting StartSpawn = True"
| "waiting (StartPoll p) = True"
| "waiting (Probing (StartWait p)) = True"
| "waiting (ProbeOpen (StartWait p)) = True"
| "waiting (ProbeHeld (StartWait p)) = True"
| "waiting (Answer (StartWait p) b) = True"
| "waiting _ = False"

lemmas update_defs = set_phase_def end_gateway_def

definition lock_ok :: "lifecycle \<Rightarrow> bool" where
  "lock_ok s \<longleftrightarrow> (\<forall>p. holding (phases s p) \<longleftrightarrow> lock_owner s = ByGateway p) \<and>
     (lock_owner s = ByLauncher \<longleftrightarrow> (\<exists>c. launcher s = ProbeHeld c)) \<and>
     (\<forall>p. holding (phases s p) \<or> phases s p = Opened \<longrightarrow> lock_exists s)"

definition files_ok :: "lifecycle \<Rightarrow> bool" where
  "files_ok s \<longleftrightarrow>
     (\<forall>p l. stop_cleared (phases s p) \<and> stop_file s = Some l \<longrightarrow> l = ByGateway p) \<and>
     (\<forall>p q n. ready_cleared (phases s p) \<and> ready_file s = Some (q, n) \<longrightarrow> q = p) \<and>
     (\<forall>q n. waiting (launcher s) \<and> ready_file s = Some (q, n) \<longrightarrow> n = commands s)"

lemma lifecycle_new_ok: "lock_ok lifecycle_new" "files_ok lifecycle_new"
  by (simp_all add: lock_ok_def files_ok_def lifecycle_new_def)

lemma lock_okD:
  assumes "lock_ok s"
  shows "holding (phases s p) \<longleftrightarrow> lock_owner s = ByGateway p"
    "lock_owner s = ByLauncher \<longleftrightarrow> (\<exists>c. launcher s = ProbeHeld c)"
    "holding (phases s p) \<Longrightarrow> lock_exists s" "phases s p = Opened \<Longrightarrow> lock_exists s"
  using assms unfolding lock_ok_def by blast+

lemma files_okD:
  assumes "files_ok s"
  shows "stop_cleared (phases s p) \<Longrightarrow> stop_file s = Some l \<Longrightarrow> l = ByGateway p"
    "ready_cleared (phases s p) \<Longrightarrow> ready_file s = Some (q, n) \<Longrightarrow> q = p"
    "waiting (launcher s) \<Longrightarrow> ready_file s = Some (q, n) \<Longrightarrow> n = commands s"
  using assms unfolding files_ok_def by blast+

text \<open>Updates that an invariant does not look at.\<close>

lemma lock_ok_simps [simp]:
  "lock_ok (s\<lparr>ready_file := r\<rparr>) = lock_ok s" "lock_ok (s\<lparr>stop_file := t\<rparr>) = lock_ok s"
  "lock_ok (s\<lparr>commands := n\<rparr>) = lock_ok s"
  by (simp_all add: lock_ok_def)

lemma files_ok_simps [simp]:
  "files_ok (s\<lparr>lock_owner := l\<rparr>) = files_ok s" "files_ok (s\<lparr>lock_exists := e\<rparr>) = files_ok s"
  by (simp_all add: files_ok_def)

lemma set_phase_simps [simp]:
  "phases (set_phase p ph s) q = (if q = p then ph else phases s q)" "lock_exists (set_phase p ph s) = lock_exists s"
  "lock_owner (set_phase p ph s) = lock_owner s" "ready_file (set_phase p ph s) = ready_file s"
  "stop_file (set_phase p ph s) = stop_file s" "launcher (set_phase p ph s) = launcher s"
  "commands (set_phase p ph s) = commands s"
  by (simp_all add: set_phase_def)

text \<open>A gateway that changes its phase.\<close>

lemma lock_ok_set_phase:
  assumes "lock_ok s" "holding ph = holding (phases s p)" "ph = Opened \<Longrightarrow> lock_exists s"
  shows "lock_ok (set_phase p ph s)"
  unfolding lock_ok_def using lock_okD [OF assms(1)] assms(2,3) by auto

lemma files_ok_set_phase:
  assumes "files_ok s" "stop_cleared ph \<Longrightarrow> stop_cleared (phases s p)" "ready_cleared ph \<Longrightarrow> ready_cleared (phases s p)"
  shows "files_ok (set_phase p ph s)"
  unfolding files_ok_def using files_okD [OF assms(1)] assms(2,3) by auto

text \<open>A gateway that takes the lock or ends.\<close>

lemma lock_ok_take: "lock_ok s \<Longrightarrow> lock_owner s = Free \<Longrightarrow> holding ph \<Longrightarrow> phases s p = Opened \<Longrightarrow>
    lock_ok ((set_phase p ph s)\<lparr>lock_owner := ByGateway p\<rparr>)"
  unfolding lock_ok_def [of "(set_phase p ph s)\<lparr>lock_owner := ByGateway p\<rparr>"]
  using lock_okD(1) [of s] lock_okD(2-4) [of s] by auto

lemma lock_ok_end:
  assumes "lock_ok s"
  shows "lock_ok (end_gateway p s)"
  unfolding end_gateway_def lock_ok_def using lock_okD [OF assms] by auto

lemma files_ok_end: "files_ok s \<Longrightarrow> files_ok (end_gateway p s)"
  unfolding end_gateway_def files_ok_simps by (rule files_ok_set_phase) simp_all

lemma lock_ok_open:
  assumes "lock_ok s" "phases s p = Spawned"
  shows "lock_ok ((set_phase p Opened s)\<lparr>lock_exists := True\<rparr>)"
proof -
  have "lock_owner s \<noteq> ByGateway p" using lock_okD(1) [OF assms(1), of p] assms(2) by simp
  then show ?thesis unfolding lock_ok_def using lock_okD [OF assms(1)] assms(2) by auto
qed

text \<open>A launcher that goes on without touching the lock or a file.\<close>

lemma lock_ok_launcher:
  assumes "lock_ok s" "\<And>c. launcher s \<noteq> ProbeHeld c" "\<And>c. l \<noteq> ProbeHeld c"
  shows "lock_ok (s\<lparr>launcher := l\<rparr>)"
  unfolding lock_ok_def using lock_okD [OF assms(1)] assms(2,3) by auto

lemma files_ok_launcher:
  assumes "files_ok s" "waiting l \<Longrightarrow> waiting (launcher s) \<or> ready_file s = None"
  shows "files_ok (s\<lparr>launcher := l\<rparr>)"
  unfolding files_ok_def using files_okD [OF assms(1)] assms(2) by auto

section \<open>Every step keeps the invariant\<close>

lemma gateway_step_lock: "gateway_step p s s' \<Longrightarrow> lock_ok s \<Longrightarrow> lock_ok s'"
  by (erule gateway_step.cases)
    (auto intro!: lock_ok_set_phase lock_ok_take lock_ok_open lock_ok_end)

lemma gateway_step_files:
  assumes "gateway_step p s s'" "lock_ok s" "files_ok s"
  shows "files_ok s'"
proof -
  have only: "q = p" if "holding (phases s q)" "holding (phases s p)" for q
    using lock_okD(1) [OF assms(2)] that by (metis lock.inject)
  show ?thesis using assms(1)
  proof (cases rule: gateway_step.cases)
    case g_clear_stop
    then show ?thesis using files_okD [OF assms(3)] by (auto simp: files_ok_def)
  next
    case g_clear_ready
    then show ?thesis using files_okD [OF assms(3)] by (auto simp: files_ok_def)
  next
    case g_ready
    then show ?thesis using files_okD [OF assms(3)] only cleared_holding by (auto simp: files_ok_def)
  next
    case (g_drop_ready removed)
    then show ?thesis using files_okD [OF assms(3)] by (auto simp: files_ok_def)
  next
    case (g_drop_stop removed)
    then show ?thesis using files_okD [OF assms(3)] by (auto simp: files_ok_def)
  next
    case g_lock
    then show ?thesis using files_ok_set_phase [OF assms(3), of Locked p] by simp
  next
    case g_open
    then show ?thesis using files_ok_set_phase [OF assms(3), of Opened p] by simp
  qed (use assms(3) in \<open>auto intro!: files_ok_set_phase files_ok_end\<close>)
qed

lemma probe_step_ok:
  assumes "probe_step s s'" "lock_ok s" "files_ok s"
  shows "lock_ok s' \<and> files_ok s'"
proof -
  have wait: "waiting (Probing c) = waiting (ProbeOpen c)" "waiting (ProbeOpen c) = waiting (ProbeHeld c)"
      "waiting (ProbeHeld c) = waiting (Answer c b)" for c b
    by (cases c; simp)+
  show ?thesis using assms(1)
  proof (cases rule: probe_step.cases)
    case (p_take c)
    then show ?thesis
      using lock_okD [OF assms(2)] files_ok_launcher [OF assms(3), of "ProbeHeld c"] wait by (auto simp: lock_ok_def)
  next
    case (p_close c)
    then show ?thesis
      using lock_okD [OF assms(2)] files_ok_launcher [OF assms(3), of "Answer c False"] wait by (auto simp: lock_ok_def)
  qed (use assms(2,3) wait in \<open>auto intro!: lock_ok_launcher files_ok_launcher\<close>)
qed

lemma start_step_ok:
  assumes "start_step s s'" "lock_ok s" "files_ok s"
  shows "lock_ok s' \<and> files_ok s'"
  using assms(1)
proof (cases rule: start_step.cases)
  case s_begin
  then show ?thesis
    using lock_ok_launcher [OF assms(2), of "Probing StartCheck"] files_okD [OF assms(3)] by (auto simp: files_ok_def)
next
  case s_remove
  then show ?thesis
    using lock_ok_launcher [OF assms(2), of StartSpawn] files_okD [OF assms(3)] by (auto simp: files_ok_def)
next
  case (s_spawn p)
  then show ?thesis
    by (auto intro!: lock_ok_launcher files_ok_launcher lock_ok_set_phase files_ok_set_phase assms(2,3))
next
  case (s_timeout p)
  have "launcher (end_gateway p s) = launcher s" by (simp add: end_gateway_def)
  with s_timeout show ?thesis
    by (auto intro!: lock_ok_launcher files_ok_launcher lock_ok_end files_ok_end assms(2,3))
qed (use assms(2,3) in \<open>auto intro!: lock_ok_launcher files_ok_launcher\<close>)

lemma stop_step_ok:
  assumes "stop_step s s'" "lock_ok s" "files_ok s"
  shows "lock_ok s' \<and> files_ok s'"
  using assms(1)
proof (cases rule: stop_step.cases)
  case t_begin
  then show ?thesis
    using lock_ok_launcher [OF assms(2), of "Probing StopCheck"] files_okD [OF assms(3)] by (auto simp: files_ok_def)
next
  case q_begin
  then show ?thesis
    using lock_ok_launcher [OF assms(2), of "Probing StatusCheck"] files_okD [OF assms(3)] by (auto simp: files_ok_def)
next
  case t_write
  have "lock_owner s = ByGateway p" if "stop_cleared (phases s p)" for p
    using lock_okD(1) [OF assms(2)] cleared_holding(1) that by blast
  then have "files_ok (s\<lparr>launcher := Probing StopWait, stop_file := Some (lock_owner s)\<rparr>)"
    using files_okD [OF assms(3)] by (auto simp: files_ok_def)
  with t_write lock_ok_launcher [OF assms(2), of "Probing StopWait"] show ?thesis by auto
next
  case l_killed
  then show ?thesis
    using lock_okD [OF assms(2)] files_ok_launcher [OF assms(3), of Idle] by (auto simp: lock_ok_def)
qed (use assms(2,3) in \<open>auto intro!: lock_ok_launcher files_ok_launcher\<close>)

lemma lifecycle_reaches_ok: "lifecycle_step\<^sup>*\<^sup>* lifecycle_new s \<Longrightarrow> lock_ok s \<and> files_ok s"
proof (induction rule: rtranclp_induct)
  case (step s s')
  from step(2) show ?case
    by (cases rule: lifecycle_step.cases)
      (use step(3) gateway_step_lock gateway_step_files probe_step_ok start_step_ok stop_step_ok in blast)+
qed (simp add: lifecycle_new_ok)

section \<open>Properties\<close>

text \<open>
  C18. The lifecycle files are safe against every interleaving of gateways and launcher. In every
  reachable state at most one gateway is past taking the lock. The ready file beside a gateway that has
  cleared it was written by that gateway, so none deletes or inherits another's. A gateway that
  ends because of the stop file was asked to while it held the lock: a request left over from
  before never stops a new gateway. When the launcher finds that nobody runs, no gateway holds the lock at
  that moment; and when waiting for a start it accepts a ready file, that file was written during
  this very command.
\<close>

theorem lifecycle_safe:
  assumes "lifecycle_step\<^sup>*\<^sup>* lifecycle_new s"
  shows "(\<forall>p q. holding (phases s p) \<and> holding (phases s q) \<longrightarrow> p = q) \<and>
    (\<forall>p q n. ready_cleared (phases s p) \<and> ready_file s = Some (q, n) \<longrightarrow> q = p) \<and>
    (\<forall>p owner. phases s p = Serving \<and> stop_file s = Some owner \<longrightarrow> owner = ByGateway p) \<and>
    (\<forall>c. launcher s = ProbeHeld c \<or> launcher s = Probing c \<and> \<not> lock_exists s \<longrightarrow> (\<forall>p. \<not> holding (phases s p))) \<and>
    (\<forall>p q n. launcher s = Answer (StartWait p) True \<and> ready_file s = Some (q, n) \<longrightarrow> n = commands s)"
proof -
  have "lock_ok s" and files: "files_ok s" using lifecycle_reaches_ok [OF assms] by auto
  note lock = lock_okD [OF \<open>lock_ok s\<close>]
  have "p = q" if "holding (phases s p)" "holding (phases s q)" for p q using lock(1) that by (metis lock.inject)
  moreover have "\<not> holding (phases s p)" if "launcher s = ProbeHeld c" for c p
    using lock(1,2) that by (metis lock.distinct(5))
  moreover have "owner = ByGateway p" if "phases s p = Serving" "stop_file s = Some owner" for p owner
    using files_okD(1) [OF files, of p owner] that by simp
  ultimately show ?thesis using lock(3) files_okD(2,3) [OF files] by fastforce
qed

text \<open>Runs for the statements below: a gateway that takes the lock, and a start whose probe meets its child.\<close>

definition at_phase :: "gateway_phase \<Rightarrow> lock \<Rightarrow> launcher_phase \<Rightarrow> nat \<Rightarrow> lifecycle" where
  "at_phase ph owner l n = \<lparr>lock_exists = ph \<notin> {Absent, Spawned}, lock_owner = owner, ready_file = None, stop_file = None,
     phases = (\<lambda>_. Absent)(0 := ph), launcher = l, commands = n\<rparr>"

lemma at_phase_simps [simp]:
  "lock_exists (at_phase ph owner l n) = (ph \<notin> {Absent, Spawned})" "lock_owner (at_phase ph owner l n) = owner"
  "ready_file (at_phase ph owner l n) = None" "phases (at_phase ph owner l n) 0 = ph"
  "launcher (at_phase ph owner l n) = l" "commands (at_phase ph owner l n) = n"
  "(at_phase ph owner l n)\<lparr>launcher := l'\<rparr> = at_phase ph owner l' n"
  "(at_phase ph owner l n)\<lparr>lock_owner := owner'\<rparr> = at_phase ph owner' l n"
  "(at_phase ph owner l n)\<lparr>commands := n'\<rparr> = at_phase ph owner l n'"
  "(at_phase ph owner l n)\<lparr>launcher := l', lock_owner := owner'\<rparr> = at_phase ph owner' l' n"
  "(at_phase ph owner l n)\<lparr>launcher := l', commands := n'\<rparr> = at_phase ph owner l' n'"
  by (simp_all add: at_phase_def)

lemma at_phase_set [simp]:
  "ph' = Gone \<and> ph \<notin> {Absent, Spawned} \<or> ph' = Spawned \<and> ph = Absent \<or> ph' = Locked \<and> ph = Opened \<Longrightarrow>
     set_phase 0 ph' (at_phase ph owner l n) = at_phase ph' owner l n"
  "(set_phase 0 Opened (at_phase Spawned owner l n))\<lparr>lock_exists := True\<rparr> = at_phase Opened owner l n"
  by (auto simp: set_phase_def at_phase_def)

lemma lifecycle_new_at: "lifecycle_new = at_phase Absent Free Idle 0"
  by (simp add: lifecycle_new_def at_phase_def fun_eq_iff)

lemma start_runs:
  "lifecycle_step (at_phase ph owner Idle n) (at_phase ph owner (Probing StartCheck) (Suc n))"
  "lifecycle_step (at_phase ph owner (Answer StartCheck False) n) (at_phase ph owner StartClear n)"
  "lifecycle_step (at_phase ph owner StartClear n) (at_phase ph owner StartSpawn n)"
  "lifecycle_step (at_phase Absent owner StartSpawn n) (at_phase Spawned owner (StartPoll 0) n)"
  "ph \<noteq> Gone \<Longrightarrow> lifecycle_step (at_phase ph owner (StartPoll 0) n) (at_phase ph owner (Probing (StartWait 0)) n)"
  "lifecycle_step (at_phase Gone owner (StartPoll 0) n) (at_phase Gone owner (Done StartFailed) n)"
  "lifecycle_step (at_phase ph owner (Answer (StartWait 0) False) n) (at_phase ph owner (StartPoll 0) n)"
  using lifecycle_step.start [OF start_step.s_begin [of "at_phase ph owner Idle n"]]
    lifecycle_step.start [OF start_step.s_arguments [of "at_phase ph owner (Answer StartCheck False) n"]]
    lifecycle_step.start [OF start_step.s_none [of "at_phase ph owner StartClear n"]]
    lifecycle_step.start [OF start_step.s_spawn [of "at_phase Absent owner StartSpawn n" 0]]
    lifecycle_step.start [OF start_step.s_alive [of "at_phase ph owner (StartPoll 0) n" 0]]
    lifecycle_step.start [OF start_step.s_exited [of "at_phase Gone owner (StartPoll 0) n" 0]]
    lifecycle_step.start [OF start_step.s_sleep [of "at_phase ph owner (Answer (StartWait 0) False) n" 0 False]]
  by simp_all

lemma probe_runs:
  "lifecycle_step (at_phase Absent owner (Probing c) n) (at_phase Absent owner (Answer c False) n)"
  "ph \<notin> {Absent, Spawned} \<Longrightarrow> lifecycle_step (at_phase ph owner (Probing c) n) (at_phase ph owner (ProbeOpen c) n)"
  "lifecycle_step (at_phase ph Free (ProbeOpen c) n) (at_phase ph ByLauncher (ProbeHeld c) n)"
  "lifecycle_step (at_phase ph ByLauncher (ProbeHeld c) n) (at_phase ph Free (Answer c False) n)"
  using lifecycle_step.probe [OF probe_step.p_missing [of "at_phase Absent owner (Probing c) n" c]]
    lifecycle_step.probe [OF probe_step.p_open [of "at_phase ph owner (Probing c) n" c]]
    lifecycle_step.probe [OF probe_step.p_take [of "at_phase ph Free (ProbeOpen c) n" c]]
    lifecycle_step.probe [OF probe_step.p_close [of "at_phase ph ByLauncher (ProbeHeld c) n" c]]
  by simp_all

lemma child_runs:
  "gateway_step 0 (at_phase Absent owner l n) (at_phase Spawned owner l n)"
  "gateway_step 0 (at_phase Spawned owner l n) (at_phase Opened owner l n)"
  "gateway_step 0 (at_phase Opened Free l n) (at_phase Locked (ByGateway 0) l n)"
  "gateway_step 0 (at_phase Opened ByLauncher l n) (at_phase Gone ByLauncher l n)"
  using gateway_step.g_spawn [of "at_phase Absent owner l n" 0] gateway_step.g_open [of "at_phase Spawned owner l n" 0]
    gateway_step.g_lock [of "at_phase Opened Free l n" 0] gateway_step.g_busy [of "at_phase Opened ByLauncher l n" 0]
  by simp_all

theorem lifecycle_safe_witness:
  "\<exists>s. lifecycle_step\<^sup>*\<^sup>* lifecycle_new s \<and> holding (phases s 0) \<and> {q. holding (phases s q)} = {0}"
proof -
  have "successively lifecycle_step [at_phase Absent Free Idle 0, at_phase Spawned Free Idle 0, at_phase Opened Free Idle 0,
      at_phase Locked (ByGateway 0) Idle 0]"
    by (simp add: child_runs [THEN lifecycle_step.gateway])
  from path_reaches [OF this] have "lifecycle_step\<^sup>*\<^sup>* lifecycle_new (at_phase Locked (ByGateway 0) Idle 0)"
    by (simp add: lifecycle_new_at)
  moreover from lifecycle_safe [OF this] have "\<forall>p q. holding (phases (at_phase Locked (ByGateway 0) Idle 0) p) \<and>
      holding (phases (at_phase Locked (ByGateway 0) Idle 0) q) \<longrightarrow> p = q" by (rule conjunct1)
  moreover have "holding (phases (at_phase Locked (ByGateway 0) Idle 0) 0)" by simp
  ultimately have "lifecycle_step\<^sup>*\<^sup>* lifecycle_new (at_phase Locked (ByGateway 0) Idle 0)"
      "holding (phases (at_phase Locked (ByGateway 0) Idle 0) 0)"
      "{q. holding (phases (at_phase Locked (ByGateway 0) Idle 0) q)} = {0}" by blast+
  then show ?thesis by blast
qed

text \<open>
  C24. The launcher's own check can make the gateway it starts fail. From a fresh state directory, with
  no other gateway at all, a start can reach a moment where its check of the lock holds the lock
  that its child is about to take. Whatever the child does next, it is over (the lock is taken, so it
  gives up), and the start goes on to report that the gateway exited.
\<close>

theorem start_defeats_itself:
  "\<exists>s s'. lifecycle_step\<^sup>*\<^sup>* lifecycle_new s \<and> launcher s = ProbeHeld (StartWait 0) \<and> phases s = (\<lambda>_. Absent)(0 := Opened) \<and>
     gateway_step 0 s s' \<and> Collect (gateway_step 0 s) \<subseteq> {t. phases t 0 = Gone} \<and>
     (\<exists>t. lifecycle_step\<^sup>*\<^sup>* s' t \<and> launcher t = Done StartFailed \<and> phases t = (\<lambda>_. Absent)(0 := Gone) \<and> commands t = 1)"
proof -
  let ?s = "at_phase Opened ByLauncher (ProbeHeld (StartWait 0)) 1"
  let ?s' = "at_phase Gone ByLauncher (ProbeHeld (StartWait 0)) 1"
  have "successively lifecycle_step [at_phase Absent Free Idle 0, at_phase Absent Free (Probing StartCheck) 1,
      at_phase Absent Free (Answer StartCheck False) 1, at_phase Absent Free StartClear 1, at_phase Absent Free StartSpawn 1,
      at_phase Spawned Free (StartPoll 0) 1, at_phase Spawned Free (Probing (StartWait 0)) 1,
      at_phase Opened Free (Probing (StartWait 0)) 1, at_phase Opened Free (ProbeOpen (StartWait 0)) 1, ?s]"
    using start_runs(1) [of Absent Free 0]
    by (simp add: start_runs probe_runs child_runs [THEN lifecycle_step.gateway])
  from path_reaches [OF this] have s: "lifecycle_step\<^sup>*\<^sup>* lifecycle_new ?s" by (simp add: lifecycle_new_at)
  have "successively lifecycle_step [?s', at_phase Gone Free (Answer (StartWait 0) False) 1, at_phase Gone Free (StartPoll 0) 1,
      at_phase Gone Free (Done StartFailed) 1]"
    by (simp add: start_runs probe_runs)
  from path_reaches [OF this] have t: "lifecycle_step\<^sup>*\<^sup>* ?s' (at_phase Gone Free (Done StartFailed) 1)" by simp
  have dead: "Collect (gateway_step 0 ?s) \<subseteq> {t. phases t 0 = Gone}"
    by (auto elim!: gateway_step.cases simp: end_gateway_def)
  have ph: "phases (at_phase ph owner l n) = (\<lambda>_. Absent)(0 := ph)" for ph owner l n by (simp add: at_phase_def)
  have end_t: "\<exists>t. lifecycle_step\<^sup>*\<^sup>* ?s' t \<and> launcher t = Done StartFailed \<and> phases t = (\<lambda>_. Absent)(0 := Gone) \<and> commands t = 1"
    by (rule exI [of _ "at_phase Gone Free (Done StartFailed) 1"]) (intro conjI t, simp_all add: ph)
  have race: "launcher ?s = ProbeHeld (StartWait 0)" "phases ?s = (\<lambda>_. Absent)(0 := Opened)" "gateway_step 0 ?s ?s'"
    using child_runs(4) by (simp_all add: ph)
  show ?thesis by (rule exI [of _ ?s], rule exI [of _ ?s']) (intro conjI s race dead end_t)
qed

end
