(* ===== verification/Programs.thy ===== *)
theory Programs
  imports Discovery Pkarr Gateway_Routes
begin

text \<open>
  The programs around the libraries: configuration and the stored server list of the gateway
  (\<open>iroh-link-gateway/src/main.rs\<close>), the limits of the index server
  (\<open>udp-addr-index/src/bin/udp-addr-index.rs\<close>), and the tool that signs a server list
  (\<open>iroh-mainline-endpoint-discovery/src/bin/iroh-index-list.rs\<close>). Hexadecimal and z-base-32 are
  parameters; the file system is a map from names to contents.
\<close>

section \<open>Arguments\<close>

definition parse_hex :: "(string \<Rightarrow> bytes option) \<Rightarrow> nat \<Rightarrow> string \<Rightarrow> string + bytes" where
  "parse_hex hex n v =
     (let invalid = Inl (''expected '' @ decimal (n * 2) @ '' hex digits'')
      in case hex v of None \<Rightarrow> invalid | Some bs \<Rightarrow> if length bs = n then Inr bs else invalid)"

definition parse_list_key :: "(string \<Rightarrow> bytes option) \<Rightarrow> id_ext \<Rightarrow> string \<Rightarrow> string + bytes" where
  "parse_list_key hex x v =
     (if length v = 64 then parse_hex hex 32 v
      else
        (let invalid = Inl ''expected a z-base-32 Pkarr public key or 64 hex digits''
         in case ie_decode x v of
              None \<Rightarrow> invalid
            | Some bs \<Rightarrow> if length bs = 32 \<and> ie_encode x bs = v then Inr bs else invalid))"

record gateway_args =
  ga_state_dir :: "string option"
  ga_listen :: ip_addr
  ga_index_server :: "socket_addr_v4 option"
  ga_index_list_key :: "bytes option"
  ga_rendezvous_hash :: "bytes option"

definition args_index :: "gateway_args \<Rightarrow> builder" where
  "args_index args =
     (let b = n0_defaults builder_new;
          b = (case ga_index_server args of None \<Rightarrow> b | Some server \<Rightarrow> with_server server b);
          b = (case ga_index_list_key args of None \<Rightarrow> b | Some key \<Rightarrow> with_list_key key b)
      in case ga_rendezvous_hash args of None \<Rightarrow> b | Some hash \<Rightarrow> with_rendezvous_hash hash b)"

section \<open>The stored server list\<close>

type_synonym file_system = "string \<rightharpoonup> bytes"

definition INDEX_LIST_FILE :: string where "INDEX_LIST_FILE = ''index-list.pkarr''"

definition index_list_path :: "string \<Rightarrow> string" where
  "index_list_path state = state @ ''/'' @ INDEX_LIST_FILE"

definition temporary_path :: "string \<Rightarrow> string" where
  "temporary_path state = state @ ''/index-list.tmp''"

definition load_index_list :: "(bytes \<Rightarrow> bytes \<Rightarrow> bytes \<Rightarrow> bool) \<Rightarrow> string \<Rightarrow> file_system \<Rightarrow> signed_item option" where
  "load_index_list verify state fs = Option.bind (fs (index_list_path state)) (decode_signed_packet verify)"

text \<open>The operations of storing, in their order; \<open>None\<close> when the item is not a Pkarr packet.\<close>

datatype file_op = WriteFile string bytes | RenameFile string string

definition store_index_list :: "string \<Rightarrow> signed_item \<Rightarrow> file_op list option" where
  "store_index_list state item =
     map_option (\<lambda>bs. [WriteFile (temporary_path state) bs, RenameFile (temporary_path state) (index_list_path state)])
       (encode_signed_packet item)"

fun run_op :: "file_op \<Rightarrow> file_system \<Rightarrow> file_system" where
  "run_op (WriteFile path bs) fs = fs(path \<mapsto> bs)"
| "run_op (RenameFile source dest) fs = (case fs source of None \<Rightarrow> fs | Some bs \<Rightarrow> fs(dest \<mapsto> bs, source := None))"

text \<open>
  What a crash can leave behind: the state before or after an operation, or any contents in a file that
  was being written. A rename is atomic.
\<close>

fun crash_states :: "file_op list \<Rightarrow> file_system \<Rightarrow> file_system set" where
  "crash_states [] fs = {fs}"
| "crash_states (WriteFile path bs # ops) fs =
     insert fs ({fs(path := contents) | contents. True} \<union> crash_states ops (run_op (WriteFile path bs) fs))"
| "crash_states (RenameFile source dest # ops) fs = insert fs (crash_states ops (run_op (RenameFile source dest) fs))"

section \<open>Starting\<close>

text \<open>
  The builder with the stored list, and the attempts to find index servers: with a state directory a failed
  attempt is repeated after twenty seconds. \<open>None\<close> when the attempts so far all failed.
\<close>

definition gateway_builder :: "(bytes \<Rightarrow> bytes \<Rightarrow> bytes \<Rightarrow> bool) \<Rightarrow> gateway_args \<Rightarrow> file_system \<Rightarrow> builder" where
  "gateway_builder verify args fs =
     (case Option.bind (ga_state_dir args) (\<lambda>state. load_index_list verify state fs) of
        None \<Rightarrow> args_index args
      | Some item \<Rightarrow> with_fallback_list (mutable_item.truncate item) (args_index args))"

fun build_loop :: "bool \<Rightarrow> ('e + 'i) list \<Rightarrow> ('e + 'i) option" where
  "build_loop retry [] = None"
| "build_loop retry (Inr index # attempts) = Some (Inr index)"
| "build_loop retry (Inl error # attempts) = (if retry then build_loop retry attempts else Some (Inl error))"

text \<open>After discovery, the list in use is stored; a failure only warns.\<close>

definition store_after_build :: "gateway_args \<Rightarrow> signed_item option \<Rightarrow> file_op list" where
  "store_after_build args in_use =
     (case (ga_state_dir args, in_use) of
        (Some state, Some item) \<Rightarrow> (case store_index_list state item of None \<Rightarrow> [] | Some ops \<Rightarrow> ops)
      | _ \<Rightarrow> [])"

section \<open>The other programs\<close>

record server_cli =
  sc_max_value_len :: usize
  sc_max_entries :: usize
  sc_value_ttl_secs :: u64
  sc_token_bucket_secs :: u64

definition server_cli_default :: server_cli where
  "server_cli_default = \<lparr>sc_max_value_len = MAX_VALUE_LEN, sc_max_entries = 2000000, sc_value_ttl_secs = 3600,
     sc_token_bucket_secs = 30\<rparr>"

definition cli_limits :: "server_cli \<Rightarrow> limits" where
  "cli_limits cli = limits_default\<lparr>max_value_len := sc_max_value_len cli, max_entries := sc_max_entries cli,
     value_ttl_secs := sc_value_ttl_secs cli, token_bucket_secs := sc_token_bucket_secs cli\<rparr>"

definition parse_cli_infohash :: "(string \<Rightarrow> bytes option) \<Rightarrow> string \<Rightarrow> string + bytes" where
  "parse_cli_infohash hex v =
     (let invalid = Inl ''expected 40 hexadecimal digits''
      in case hex v of None \<Rightarrow> invalid | Some bs \<Rightarrow> if length bs = 20 then Inr bs else invalid)"

datatype sign_error = SecretLength | SecretDigits | ClockRange | BadServers list_error | BadSequence

text \<open>\<open>now\<close> is the clock in microseconds, \<open>None\<close> before the epoch; \<open>public\<close> the public key of a secret.\<close>

definition list_tool_sign :: "dns_ext \<Rightarrow> (string \<Rightarrow> bytes option) \<Rightarrow> (bytes \<Rightarrow> bytes) \<Rightarrow> socket_addr_v4 list \<Rightarrow>
    int option \<Rightarrow> nat option \<Rightarrow> string \<Rightarrow> sign_error + mutable_item" where
  "list_tool_sign x hex public sockets sequence now secret =
     (if length secret \<noteq> 64 then Inl SecretLength
      else case hex secret of
        None \<Rightarrow> Inl SecretDigits
      | Some key \<Rightarrow>
          if length key \<noteq> 32 then Inl SecretDigits
          else (case (case sequence of Some n \<Rightarrow> Some n
                      | None \<Rightarrow> Option.bind now (\<lambda>n. if int n < 2 ^ 63 then Some (int n) else None)) of
                  None \<Rightarrow> Inl ClockRange
                | Some n \<Rightarrow>
                    (case server_list_new sockets of
                       Inl e \<Rightarrow> Inl (BadServers e)
                     | Inr l \<Rightarrow>
                         (case server_list_sign x (public key) n l of
                            None \<Rightarrow> Inl BadSequence
                          | Some item \<Rightarrow> Inr item))))"

section \<open>Lemmas\<close>

text \<open>The command line only adds sources: the signed list of n0 stays unless another key is given.\<close>

lemma args_index_sources:
  "src_list_key (b_sources (args_index args)) =
     Some (case ga_index_list_key args of None \<Rightarrow> DEFAULT_INDEX_LIST_KEY | Some key \<Rightarrow> key)"
  "src_rendezvous (b_sources (args_index args)) = ga_rendezvous_hash args"
  "b_servers (args_index args) = (case ga_index_server args of None \<Rightarrow> {||} | Some server \<Rightarrow> {|server|})"
  by (simp_all add: args_index_def n0_defaults_def builder_new_def with_server_def with_list_key_def
      with_rendezvous_hash_def with_lookup_cache_def Let_def split: option.split)

definition storable :: "(bytes \<Rightarrow> bytes \<Rightarrow> bytes \<Rightarrow> bool) \<Rightarrow> signed_item \<Rightarrow> bool" where
  "storable verify item \<longleftrightarrow> length (mi_key item) = 32 \<and> length (mi_signature item) = 64 \<and> mi_salt item = None \<and>
     0 \<le> mi_seq item \<and> mi_seq item < 2 ^ 63 \<and>
     verify (mi_key item) (bep44_signable (nat (mi_seq item)) (mi_value item)) (mi_signature item)"

lemma paths_differ: "temporary_path state \<noteq> index_list_path state"
  by (simp add: temporary_path_def index_list_path_def INDEX_LIST_FILE_def)

text \<open>
  A stored list is read back as it was stored, and a crash at any point leaves a directory from which
  either the old list or the new one is read, never a damaged one.
\<close>

lemma index_list_survives:
  assumes "storable verify item" "store_index_list state item = Some ops"
  shows "load_index_list verify state (fold run_op ops fs) = Some item"
    "fs' \<in> crash_states ops fs \<Longrightarrow> load_index_list verify state fs' \<in> {load_index_list verify state fs, Some item}"
proof -
  obtain bs where bs: "encode_signed_packet item = Some bs" "decode_signed_packet verify bs = Some item"
    using assms(1) encode_decode_packet [of item verify] unfolding storable_def by blast
  have ops: "ops = [WriteFile (temporary_path state) bs, RenameFile (temporary_path state) (index_list_path state)]"
    using assms(2) bs(1) by (simp add: store_index_list_def)
  show "load_index_list verify state (fold run_op ops fs) = Some item"
    using bs(2) paths_differ [of state, symmetric] by (simp add: ops load_index_list_def)
  show "load_index_list verify state fs' \<in> {load_index_list verify state fs, Some item}" if "fs' \<in> crash_states ops fs"
    using that bs(2) paths_differ [of state] paths_differ [of state, symmetric] by (auto simp: ops load_index_list_def)
qed

lemma build_loop_retries:
  "build_loop True attempts = None \<longleftrightarrow> (\<forall>a \<in> set attempts. \<exists>e. a = Inl e)"
  "build_loop True attempts \<noteq> Some (Inl e)"
  by (induction "True" attempts rule: build_loop.induct) auto

lemma list_tool_signs:
  assumes "list_tool_sign x hex public sockets sequence now secret = Inr item"
  shows "\<exists>l key. server_list_new sockets = Inr l \<and> set l = set sockets \<and> hex secret = Some key \<and> 0 \<le> mi_seq item \<and>
    item = \<lparr>mi_key = public key, mi_seq = mi_seq item, mi_value = server_list_encode x (public key) l, mi_salt = None\<rparr>"
  using assms server_list_new_sound
  by (auto simp: list_tool_sign_def server_list_sign_def split: if_splits option.splits sum.splits)

end
