(* ===== verification/Launch_Agent.thy ===== *)
theory Launch_Agent
  imports Programs
begin

text \<open>
  The registration of the gateway with macOS (\<open>iroh-link-gateway/src/background_macos.rs\<close>) and the
  arguments the launcher passes on (\<open>iroh-link-gateway/src/bin/iroh-link-gateway-background.rs\<close>). Commands
  and file operations are recorded in a trace; how the system answers them, which may depend on
  everything done before, is part of the environment.
\<close>

section \<open>Arguments of the gateway\<close>

definition arguments :: "(bytes \<Rightarrow> string list option) \<Rightarrow> string \<Rightarrow> file_system \<Rightarrow> string list option \<times> file_system" where
  "arguments from_json state fs =
     (let path = state @ ''/arguments.json'';
          fs = (case fs path of None \<Rightarrow> fs(path \<mapsto> ascii ''[]'' @ [10]) | Some _ \<Rightarrow> fs)
      in (Option.bind (fs path) from_json, fs))"

definition start_arguments :: "string \<Rightarrow> string list \<Rightarrow> string list" where
  "start_arguments state args = args @ [''--state-dir'', state]"

section \<open>The agent\<close>

datatype plist = PString string | PBool bool | PInteger u64 | PArray "plist list" | PDict "(string \<times> plist) list"

definition LABEL :: string where "LABEL = ''computer.n0.iroh-link-gateway''"

definition agent_definition :: "string \<Rightarrow> string \<Rightarrow> string \<Rightarrow> string list \<Rightarrow> plist" where
  "agent_definition executable home state args =
     PDict ([(''Label'', PString LABEL),
       (''ProgramArguments'', PArray (map PString ([executable, ''--state-dir'', state] @ args))),
       (''WorkingDirectory'', PString home),
       (''RunAtLoad'', PBool True),
       (''KeepAlive'', PDict [(''SuccessfulExit'', PBool False)]),
       (''ThrottleInterval'', PInteger 10),
       (''ExitTimeOut'', PInteger 30),
       (''AssociatedBundleIdentifiers'', PArray [PString ''computer.n0.iroh-link-gateway''])] @
       map (\<lambda>key. (key, PString (state @ ''/gateway.log''))) [''StandardOutPath'', ''StandardErrorPath''])"

section \<open>Commands\<close>

datatype sys_call =
    PrintTarget string
  | StopGateway
  | Bootout string
  | RemovePlist string
  | CreateDir string
  | WritePlist string plist
  | Enable string
  | Bootstrap string string

text \<open>
  A command succeeds, ends with a failure, or cannot be run. For the removal of a file the failure is that
  the file does not exist.
\<close>

datatype outcome = Success | Failure | IoError

datatype agent_error = NoUser | Superuser | NoHome | NotBesideHelper | CallFailed sys_call | BadArguments | CheckFailed | NotReady

text \<open>\<open>la_polls\<close>: what each turn of the wait finds, a running gateway (\<open>None\<close> for an error) and a ready file.\<close>

record agent_env =
  la_uid :: "u32 option"
  la_home :: "string option"
  la_directory :: string
  la_executable :: bool
  la_arguments :: "string list option"
  la_answer :: "sys_call list \<Rightarrow> sys_call \<Rightarrow> outcome"
  la_polls :: "(bool option \<times> bool) list"

type_synonym 'a act = "sys_call list \<Rightarrow> (agent_error + 'a) \<times> sys_call list"

definition bind_act :: "'a act \<Rightarrow> ('a \<Rightarrow> 'b act) \<Rightarrow> 'b act" where
  "bind_act m f t = (case m t of (Inl e, t) \<Rightarrow> (Inl e, t) | (Inr a, t) \<Rightarrow> f a t)"

definition yields :: "agent_error + 'a \<Rightarrow> 'a act" where "yields r t = (r, t)"

definition required :: "agent_error \<Rightarrow> 'a option \<Rightarrow> 'a act" where
  "required e v = yields (case v of None \<Rightarrow> Inl e | Some a \<Rightarrow> Inr a)"

text \<open>\<open>launchctl\<close> and file operations must succeed; \<open>asks\<close> only fails when the command cannot be run.\<close>

definition must :: "agent_env \<Rightarrow> sys_call \<Rightarrow> unit act" where
  "must E c t = (if la_answer E t c = Success then Inr () else Inl (CallFailed c), t @ [c])"

definition asks :: "agent_env \<Rightarrow> sys_call \<Rightarrow> bool act" where
  "asks E c t = ((case la_answer E t c of Success \<Rightarrow> Inr True | Failure \<Rightarrow> Inr False | IoError \<Rightarrow> Inl (CallFailed c)), t @ [c])"

definition domain :: "agent_env \<Rightarrow> string act" where
  "domain E =
     bind_act (required NoUser (la_uid E)) (\<lambda>uid.
       if uid = 0 then yields (Inl Superuser)
       else bind_act (asks E (PrintTarget (''gui/'' @ decimal (unat uid)))) (\<lambda>gui.
         yields (Inr ((if gui then ''gui/'' else ''user/'') @ decimal (unat uid)))))"

definition plist_path :: "agent_env \<Rightarrow> string option" where
  "plist_path E = map_option (\<lambda>home. home @ ''/Library/LaunchAgents/'' @ LABEL @ ''.plist'') (la_home E)"

definition remove_agent :: "agent_env \<Rightarrow> unit act" where
  "remove_agent E =
     bind_act (domain E) (\<lambda>domain.
     bind_act (must E StopGateway) (\<lambda>_.
     let service = domain @ ''/'' @ LABEL in
     bind_act (asks E (PrintTarget service)) (\<lambda>loaded.
     bind_act (if loaded then must E (Bootout service) else yields (Inr ())) (\<lambda>_.
     bind_act (required NoHome (plist_path E)) (\<lambda>path.
     bind_act (asks E (RemovePlist path)) (\<lambda>_. yields (Inr ())))))))"

fun await_ready :: "(bool option \<times> bool) list \<Rightarrow> agent_error + unit" where
  "await_ready [] = Inl NotReady"
| "await_ready ((None, ready) # polls) = Inl CheckFailed"
| "await_ready ((Some running, ready) # polls) = (if \<not> running \<or> \<not> ready then await_ready polls else Inr ())"

definition install_agent :: "agent_env \<Rightarrow> string \<Rightarrow> unit act" where
  "install_agent E state =
     bind_act (required NoHome (la_home E)) (\<lambda>home.
     if \<not> la_executable E then yields (Inl NotBesideHelper) else
     bind_act (domain E) (\<lambda>domain.
     bind_act (remove_agent E) (\<lambda>_.
     bind_act (must E (CreateDir state)) (\<lambda>_.
     bind_act (required NoHome (plist_path E)) (\<lambda>path.
     bind_act (must E (CreateDir (home @ ''/Library/LaunchAgents''))) (\<lambda>_.
     bind_act (required BadArguments (la_arguments E)) (\<lambda>args.
     bind_act (must E (WritePlist path (agent_definition (la_directory E @ ''/iroh-link-gateway'') home state args))) (\<lambda>_.
     bind_act (must E (Enable (domain @ ''/'' @ LABEL))) (\<lambda>_.
     bind_act (must E (Bootstrap domain path)) (\<lambda>_.
     yields (await_ready (la_polls E))))))))))))"

section \<open>Lemmas\<close>

lemma bind_act_Inr: "bind_act m f t = (Inr b, t') \<longleftrightarrow> (\<exists>a u. m t = (Inr a, u) \<and> f a u = (Inr b, t'))"
  by (auto simp: bind_act_def split: prod.splits sum.splits)

lemma yields_Inr [simp]: "yields r t = (Inr a, t') \<longleftrightarrow> r = Inr a \<and> t' = t"
  by (auto simp: yields_def)

lemma required_Inr [simp]: "required e v t = (Inr a, t') \<longleftrightarrow> v = Some a \<and> t' = t"
  by (auto simp: required_def split: option.splits)

lemma must_Inr [simp]: "must E c t = (Inr a, t') \<longleftrightarrow> la_answer E t c = Success \<and> t' = t @ [c]"
  by (auto simp: must_def)

lemma asks_Inr: "asks E c t = (Inr b, t') \<longleftrightarrow> la_answer E t c = (if b then Success else Failure) \<and> t' = t @ [c]"
  by (auto simp: asks_def split: outcome.splits)

lemmas act_simps = bind_act_Inr asks_Inr

text \<open>The arguments file exists afterwards, and a second reading finds the same arguments.\<close>

lemma arguments_stable:
  assumes "arguments from_json state fs = (r, fs')"
  shows "fs' (state @ ''/arguments.json'') \<noteq> None" "arguments from_json state fs' = (r, fs')"
  using assms by (auto simp: arguments_def Let_def split: option.splits)

text \<open>Neither operation does anything for the superuser.\<close>

lemma superuser_refused:
  assumes "la_uid E = Some 0"
  shows "remove_agent E t = (Inl Superuser, t)" "\<exists>e. install_agent E state t = (Inl e, t)"
  using assms
  by (auto simp: remove_agent_def install_agent_def domain_def bind_act_def required_def yields_def split: option.splits)

text \<open>
  A removal that succeeds stopped the gateway before it looked at the service, unloaded the service when it was
  loaded, and then removed the file.
\<close>

lemma remove_agent_steps:
  assumes "remove_agent E t = (Inr (), t')"
  shows "\<exists>gui service path unload. t' = t @ [PrintTarget gui, StopGateway, PrintTarget service] @ unload @ [RemovePlist path] \<and>
    plist_path E = Some path \<and>
    (unload = [Bootout service] \<or> unload = [] \<and> la_answer E (t @ [PrintTarget gui, StopGateway]) (PrintTarget service) = Failure)"
  using assms by (auto simp: remove_agent_def domain_def act_simps Let_def split: if_splits)

text \<open>
  An installation that succeeds replaced what was installed before, in an order that never loads two
  agents or an outdated definition, and saw a running gateway with its ready file.
\<close>

lemma install_agent_steps:
  assumes "install_agent E state t = (Inr (), t')"
  shows "\<exists>home args gui domain before path. la_home E = Some home \<and> la_arguments E = Some args \<and> plist_path E = Some path \<and>
    remove_agent E (t @ [PrintTarget gui]) = (Inr (), before) \<and>
    t' = before @ [CreateDir state, CreateDir (home @ ''/Library/LaunchAgents''),
      WritePlist path (agent_definition (la_directory E @ ''/iroh-link-gateway'') home state args),
      Enable (domain @ ''/'' @ LABEL), Bootstrap domain path] \<and> (Some True, True) \<in> set (la_polls E)"
proof -
  have polls: "(Some True, True) \<in> set ps" if "await_ready ps = Inr ()" for ps
    using that by (induction ps rule: await_ready.induct) (auto split: if_splits)
  from assms show ?thesis
    by (auto simp: install_agent_def domain_def act_simps split: if_splits dest!: polls)
qed

end
