(* ===== verification/Pkarr_Rounds.thy ===== *)
theory Pkarr_Rounds
  imports Pkarr
begin

text \<open>
  The Pkarr publisher as its callers and its task run it,
  \<open>iroh-mainline-endpoint-discovery/src/pkarr.rs\<close>: edits, rounds of the background task and of
  \<open>publish_all\<close>, and the wake-ups of the task, each critical section a step of its own. The steps use the
  operations of \<open>Pkarr\<close>.
\<close>

section \<open>State\<close>

text \<open>An edit of a name: a call of \<open>set_raw\<close> that passed its checks, or of \<open>remove\<close> for a name that was set.\<close>

datatype pk_edit = SetName bytes pkarr_entry | RemoveName bytes

fun edit_key :: "pk_edit \<Rightarrow> bytes" where
  "edit_key (SetName k e) = k"
| "edit_key (RemoveName k) = k"

fun apply_edit :: "pk_edit \<Rightarrow> (bytes, pkarr_entry) fmap \<Rightarrow> (bytes, pkarr_entry) fmap" where
  "apply_edit (SetName k e) m = fmupd k e m"
| "apply_edit (RemoveName k) m = fmdrop k m"

text \<open>
  A round is started with the generation it read, and puts the items it signed one after the other. It
  runs in the task or in a call of \<open>publish_all\<close>.
\<close>

datatype round_owner = ByTask | ByCaller

datatype round_phase =
    NoRound
  | Started round_owner u64
  | Putting round_owner u64 "mutable_item list" bool

text \<open>The task waits for the lock, runs its round, or sleeps; it remembers whether the round succeeded.\<close>

datatype task_phase = Wants | InRound | Sleeping bool

text \<open>
  \<open>sy_history\<close> lists the edits in the order they changed the packets; an edit is named by its position.
  \<open>sy_bumps\<close> lists those that were counted, \<open>sy_notifying\<close> how many of them did not wake the task yet. Both and
  \<open>sy_delivered\<close>, the items Mainline accepted, are only for the statements below.
\<close>

record pkarr_sys =
  sy_state :: pkarr_state
  sy_round :: round_phase
  sy_task :: task_phase
  sy_permit :: bool
  sy_history :: "pk_edit list"
  sy_bumps :: "nat list"
  sy_notifying :: nat
  sy_delivered :: "mutable_item set"

definition pkarr_sys_new :: pkarr_sys where
  "pkarr_sys_new = \<lparr>sy_state = pkarr_new, sy_round = NoRound, sy_task = Wants, sy_permit = False,
     sy_history = [], sy_bumps = [], sy_notifying = 0, sy_delivered = {}\<rparr>"

definition apply_to :: "pk_edit \<Rightarrow> pkarr_state \<Rightarrow> pkarr_state" where
  "apply_to ed st = st\<lparr>ps_packets := apply_edit ed (ps_packets st)\<rparr>"

text \<open>The operations of the publisher are such an edit, followed by counting it.\<close>

lemma set_raw_edit:
  "px_build x packet = Some bs \<Longrightarrow> length bs \<le> 1000 \<Longrightarrow>
     set_raw x public key packet st = (Inr (), edited (apply_to (SetName (public key) \<lparr>pke_key = key, pke_packet = bs\<rparr>) st))"
  by (simp add: set_raw_def apply_to_def)

lemma remove_edit:
  "pkarr_remove k st = (if k |\<in>| fmdom (ps_packets st) then (True, edited (apply_to (RemoveName k) st)) else (False, st))"
  by (simp add: pkarr_remove_def apply_to_def)

definition edit_ok :: "(bytes \<Rightarrow> bytes) \<Rightarrow> pkarr_state \<Rightarrow> pk_edit \<Rightarrow> bool" where
  "edit_ok public st ed =
     (case ed of SetName k e \<Rightarrow> k = public (pke_key e) \<and> length (pke_packet e) \<le> 1000
      | RemoveName k \<Rightarrow> k |\<in>| fmdom (ps_packets st))"

section \<open>Steps\<close>

text \<open>
  \<open>edit\<close>, \<open>bump\<close> and \<open>notify\<close> are the parts of one call: the packets are changed under their lock, then the
  generation under its own, then the task is notified. \<open>begin_round\<close> takes the publishing lock and reads
  the generation; \<open>sign\<close> reads clock and packets, in any order of the hash map; \<open>cancel\<close> is a call of \<open>publish_all\<close>
  whose caller gives up while an item is put.
\<close>

inductive pkarr_step :: "(bytes \<Rightarrow> bytes) \<Rightarrow> pkarr_sys \<Rightarrow> pkarr_sys \<Rightarrow> bool" for public where
  edit: "edit_ok public (sy_state s) ed \<Longrightarrow>
    pkarr_step public s (s\<lparr>sy_state := apply_to ed (sy_state s), sy_history := sy_history s @ [ed]\<rparr>)"
| bump: "i < length (sy_history s) \<Longrightarrow> i \<notin> set (sy_bumps s) \<Longrightarrow>
    pkarr_step public s (s\<lparr>sy_state := edited (sy_state s), sy_bumps := sy_bumps s @ [i], sy_notifying := Suc (sy_notifying s)\<rparr>)"
| notify: "sy_notifying s = Suc n \<Longrightarrow> pkarr_step public s (s\<lparr>sy_permit := True, sy_notifying := n\<rparr>)"
| begin_task: "sy_round s = NoRound \<Longrightarrow> sy_task s = Wants \<Longrightarrow>
    pkarr_step public s (s\<lparr>sy_round := Started ByTask (ps_generation (sy_state s)), sy_task := InRound\<rparr>)"
| begin_call: "sy_round s = NoRound \<Longrightarrow>
    pkarr_step public s (s\<lparr>sy_round := Started ByCaller (ps_generation (sy_state s))\<rparr>)"
| no_clock: "sy_round s = Started owner g \<Longrightarrow>
    pkarr_step public s (s\<lparr>sy_round := NoRound, sy_task := if owner = ByTask then Sleeping False else sy_task s\<rparr>)"
| sign: "sy_round s = Started owner g \<Longrightarrow> set order = fset (fmdom (ps_packets (sy_state s))) \<Longrightarrow> distinct order \<Longrightarrow>
    sign_all public order (Some now) (sy_state s) = (Some items, st) \<Longrightarrow>
    pkarr_step public s (s\<lparr>sy_state := st, sy_round := Putting owner g items True\<rparr>)"
| put_ok: "sy_round s = Putting owner g (item # items) ok \<Longrightarrow>
    pkarr_step public s (s\<lparr>sy_round := Putting owner g items ok, sy_delivered := insert item (sy_delivered s)\<rparr>)"
| put_failed: "sy_round s = Putting owner g (item # items) ok \<Longrightarrow>
    pkarr_step public s (s\<lparr>sy_round := Putting owner g items False\<rparr>)"
| end_round: "sy_round s = Putting owner g [] ok \<Longrightarrow>
    pkarr_step public s (s\<lparr>sy_state := round_end g (if ok then None else Some (PutError ())) (sy_state s), sy_round := NoRound,
      sy_task := if owner = ByTask then Sleeping ok else sy_task s\<rparr>)"
| cancel: "sy_round s = Putting ByCaller g (item # items) ok \<Longrightarrow> pkarr_step public s (s\<lparr>sy_round := NoRound\<rparr>)"
| timer: "sy_task s = Sleeping ok \<Longrightarrow> pkarr_step public s (s\<lparr>sy_task := Wants\<rparr>)"
| woken: "sy_task s = Sleeping ok \<Longrightarrow> sy_permit s \<Longrightarrow> pkarr_step public s (s\<lparr>sy_task := Wants, sy_permit := False\<rparr>)"

section \<open>Invariants\<close>

lemma fold_snoc [simp]: "fold apply_edit (h @ [ed]) m = apply_edit ed (fold apply_edit h m)"
  by simp

lemma replay_lookup:
  "i < length h \<Longrightarrow> h ! i = SetName k e \<Longrightarrow> (\<And>j. i < j \<Longrightarrow> j < length h \<Longrightarrow> edit_key (h ! j) \<noteq> k) \<Longrightarrow>
     fmlookup (fold apply_edit h fmempty) k = Some e"
proof (induction h rule: rev_induct)
  case (snoc ed h)
  show ?case
  proof (cases "i = length h")
    case True
    with snoc.prems(2) show ?thesis by simp
  next
    case False
    with snoc.prems(1,2) have i: "i < length h" "h ! i = SetName k e" by (simp_all add: nth_append)
    have "edit_key (h ! j) \<noteq> k" if "i < j" "j < length h" for j
      using snoc.prems(3) [of j] that by (simp add: nth_append)
    then have "fmlookup (fold apply_edit h fmempty) k = Some e" using snoc.IH i by blast
    moreover have "edit_key ed \<noteq> k" using snoc.prems(3) [of "length h"] i(1) by simp
    ultimately show ?thesis by (cases ed) simp_all
  qed
qed simp

text \<open>An edit is covered by items when its packet is among them, unless a later edit replaced it.\<close>

definition covered :: "mutable_item set \<Rightarrow> pk_edit list \<Rightarrow> nat \<Rightarrow> bool" where
  "covered items h i \<longleftrightarrow> (\<forall>k e. h ! i = SetName k e \<longrightarrow>
     (\<exists>item \<in> items. mi_key item = k \<and> mi_value item = pke_packet e) \<or>
     (\<exists>j. i < j \<and> j < length h \<and> edit_key (h ! j) = k))"

lemma covered_mono: "covered items h i \<Longrightarrow> items \<subseteq> items' \<Longrightarrow> covered items' h i"
  unfolding covered_def by blast

lemma covered_append: "covered items h i \<Longrightarrow> i < length h \<Longrightarrow> covered items (h @ h') i"
  unfolding covered_def by (auto simp: nth_append)

definition edits_ok :: "(bytes \<Rightarrow> bytes) \<Rightarrow> pkarr_sys \<Rightarrow> bool" where
  "edits_ok public s \<longleftrightarrow> ps_packets (sy_state s) = fold apply_edit (sy_history s) fmempty \<and>
     (\<forall>k e. SetName k e \<in> set (sy_history s) \<longrightarrow> k = public (pke_key e)) \<and>
     distinct (sy_bumps s) \<and> set (sy_bumps s) \<subseteq> {..<length (sy_history s)} \<and>
     ps_generation (sy_state s) = of_nat (length (sy_bumps s))"

text \<open>What is published up to a generation, and what the round of the lock's holder will have published.\<close>

definition published_to :: "u64 \<Rightarrow> mutable_item set \<Rightarrow> pkarr_sys \<Rightarrow> bool" where
  "published_to g items s \<longleftrightarrow> (\<forall>i \<in> set (take (unat g) (sy_bumps s)). covered items (sy_history s) i)"

fun phase_ok :: "round_phase \<Rightarrow> pkarr_sys \<Rightarrow> bool" where
  "phase_ok NoRound s = True"
| "phase_ok (Started owner g) s \<longleftrightarrow> ps_published (sy_state s) \<le> g \<and> unat g \<le> length (sy_bumps s)"
| "phase_ok (Putting owner g items ok) s \<longleftrightarrow> ps_published (sy_state s) \<le> g \<and> unat g \<le> length (sy_bumps s) \<and>
     (ok \<longrightarrow> published_to g (sy_delivered s \<union> set items) s)"

definition rounds_ok :: "pkarr_sys \<Rightarrow> bool" where
  "rounds_ok s \<longleftrightarrow> unat (ps_published (sy_state s)) \<le> length (sy_bumps s) \<and>
     published_to (ps_published (sy_state s)) (sy_delivered s) s \<and> phase_ok (sy_round s) s"

text \<open>The task's next wake-up is on its way whenever an edit it has not seen was counted.\<close>

definition alarmed :: "pkarr_sys \<Rightarrow> bool" where
  "alarmed s \<longleftrightarrow> sy_permit s \<or> 0 < sy_notifying s"

fun task_ok :: "round_phase \<Rightarrow> task_phase \<Rightarrow> pkarr_sys \<Rightarrow> bool" where
  "task_ok r (Sleeping ok) s \<longleftrightarrow> (\<forall>g. r \<noteq> Started ByTask g) \<and> (\<forall>g items b. r \<noteq> Putting ByTask g items b) \<and>
     (ok \<and> ps_published (sy_state s) \<noteq> ps_generation (sy_state s) \<longrightarrow> alarmed s)"
| "task_ok r Wants s \<longleftrightarrow> (\<forall>g. r \<noteq> Started ByTask g) \<and> (\<forall>g items b. r \<noteq> Putting ByTask g items b)"
| "task_ok (Started ByTask g) InRound s \<longleftrightarrow> (g \<noteq> ps_generation (sy_state s) \<longrightarrow> alarmed s)"
| "task_ok (Putting ByTask g items b) InRound s \<longleftrightarrow> (g \<noteq> ps_generation (sy_state s) \<longrightarrow> alarmed s)"
| "task_ok r InRound s = False"

section \<open>Every step keeps the invariants\<close>

lemma sign_all_items:
  assumes "sign_all public order (Some now) st = (Some items, st')" "fmlookup (ps_packets st) k = Some e" "k \<in> set order"
  shows "\<exists>item \<in> set items. mi_key item = public (pke_key e) \<and> mi_value item = pke_packet e"
  using assms by (force simp: sign_all_def Let_def sign_entry_def List.map_filter_def)

lemma sign_all_state:
  assumes "sign_all public order now st = (Some items, st')"
  shows "ps_packets st' = ps_packets st" "ps_generation st' = ps_generation st" "ps_published st' = ps_published st"
  using assms by (auto simp: sign_all_def Let_def split: option.splits)

lemma state_simps [simp]:
  "ps_packets (apply_to ed st) = apply_edit ed (ps_packets st)" "ps_generation (apply_to ed st) = ps_generation st"
  "ps_published (apply_to ed st) = ps_published st" "ps_packets (edited st) = ps_packets st"
  "ps_generation (edited st) = ps_generation st + 1" "ps_published (edited st) = ps_published st"
  "ps_packets (round_end g r st) = ps_packets st" "ps_generation (round_end g r st) = ps_generation st"
  "ps_published (round_end g r st) = (if r = None then g else ps_published st)"
  by (simp_all add: apply_to_def edited_def round_end_def)

lemma edits_step:
  assumes "pkarr_step public s s'" "edits_ok public s"
  shows "edits_ok public s'"
  using assms(1)
proof cases
  case (edit ed)
  then show ?thesis using assms(2) by (auto simp: edits_ok_def edit_ok_def split: pk_edit.splits)
next
  case (sign owner g order now items st)
  then show ?thesis using assms(2) sign_all_state [OF sign(5)] by (auto simp: edits_ok_def)
qed (use assms(2) in \<open>auto simp: edits_ok_def\<close>)

lemma bumps_bound: "edits_ok public s \<Longrightarrow> length (sy_bumps s) \<le> length (sy_history s)"
  unfolding edits_ok_def by (metis card_lessThan card_mono distinct_card finite_lessThan)

lemma generation_nat:
  "edits_ok public s \<Longrightarrow> length (sy_history s) < 2 ^ 64 \<Longrightarrow> unat (ps_generation (sy_state s)) = length (sy_bumps s)"
  using bumps_bound [of public s] by (auto simp: edits_ok_def unat_of_nat)

text \<open>Signing covers every edit made so far.\<close>

lemma sign_covers:
  assumes "edits_ok public s" "set order = fset (fmdom (ps_packets (sy_state s)))" "i < length (sy_history s)"
    "sign_all public order (Some now) (sy_state s) = (Some items, st)"
  shows "covered (set items) (sy_history s) i"
proof (unfold covered_def, intro allI impI)
  fix k e
  assume i: "sy_history s ! i = SetName k e"
  then have key: "k = public (pke_key e)" using assms(1,3) nth_mem [of i "sy_history s"] by (auto simp: edits_ok_def)
  show "(\<exists>item \<in> set items. mi_key item = k \<and> mi_value item = pke_packet e) \<or>
      (\<exists>j. i < j \<and> j < length (sy_history s) \<and> edit_key (sy_history s ! j) = k)"
  proof (rule disjCI)
    assume "\<not> (\<exists>j. i < j \<and> j < length (sy_history s) \<and> edit_key (sy_history s ! j) = k)"
    then have look: "fmlookup (ps_packets (sy_state s)) k = Some e"
      using replay_lookup [OF assms(3) i] assms(1) by (auto simp: edits_ok_def)
    then have "k \<in> set order" using assms(2) by (simp add: fmdomI)
    with sign_all_items [OF assms(4) look] key show "\<exists>item \<in> set items. mi_key item = k \<and> mi_value item = pke_packet e"
      by simp
  qed
qed

text \<open>Later items, edits and counts do not take back what is published.\<close>

lemma published_to_mono:
  assumes "published_to g items s" "items \<subseteq> items'" "unat g \<le> length (sy_bumps s)"
    "set (sy_bumps s) \<subseteq> {..<length (sy_history s)}" "sy_bumps s' = sy_bumps s @ b" "sy_history s' = sy_history s @ h"
  shows "published_to g items' s'"
proof (unfold published_to_def, intro ballI)
  fix i
  assume "i \<in> set (take (unat g) (sy_bumps s'))"
  then have i: "i \<in> set (take (unat g) (sy_bumps s))" using assms(3,5) by simp
  then have "i < length (sy_history s)" using assms(4) in_set_takeD by fastforce
  with i assms(1) show "covered items' (sy_history s') i"
    unfolding published_to_def assms(6) by (metis assms(2) covered_append covered_mono)
qed

lemma rounds_step:
  assumes "pkarr_step public s s'" "edits_ok public s" "rounds_ok s" "length (sy_history s) < 2 ^ 64"
  shows "rounds_ok s'"
proof -
  have bumps: "set (sy_bumps s) \<subseteq> {..<length (sy_history s)}" using assms(2) by (simp add: edits_ok_def)
  note gen = generation_nat [OF assms(2,4)]
  have keep: "published_to g items t" if "published_to g items s" "unat g \<le> length (sy_bumps s)"
      "sy_bumps t = sy_bumps s @ b" "sy_history t = sy_history s @ h" for g items t b h
    using published_to_mono [OF that(1) subset_refl that(2) bumps that(3,4)] .
  have pub: "unat (ps_published (sy_state s)) \<le> length (sy_bumps s)"
      "published_to (ps_published (sy_state s)) (sy_delivered s) s" "phase_ok (sy_round s) s"
    using assms(3) by (auto simp: rounds_ok_def)
  from assms(1) show ?thesis
  proof cases
    case (edit ed)
    then show ?thesis using pub keep [of _ _ s' "[]" "[ed]"] by (cases "sy_round s") (auto simp: rounds_ok_def)
  next
    case (bump i)
    then show ?thesis using pub keep [of _ _ s' "[i]" "[]"] by (cases "sy_round s") (auto simp: rounds_ok_def)
  next
    case (sign owner g order now items st)
    have "published_to g (sy_delivered s \<union> set items) s"
      using sign_covers [OF assms(2) sign(3) _ sign(5)] bumps covered_mono [of "set items" _ _ "sy_delivered s \<union> set items"]
      by (fastforce simp: published_to_def dest: in_set_takeD)
    with sign pub keep [of _ _ s' "[]" "[]"] sign_all_state [OF sign(5)] show ?thesis by (auto simp: rounds_ok_def)
  next
    case (put_ok owner g item items ok)
    then show ?thesis
      using pub keep [of _ _ s' "[]" "[]"] published_to_mono [OF _ subset_insertI _ bumps, of _ _ s' "[]" "[]"]
      by (auto simp: rounds_ok_def)
  next
    case (end_round owner g ok)
    then show ?thesis using pub keep [of _ _ s' "[]" "[]"] by (auto simp: rounds_ok_def)
  next
    case begin_task
    then show ?thesis using pub gen keep [of _ _ s' "[]" "[]"] by (auto simp: rounds_ok_def word_le_nat_alt)
  next
    case begin_call
    then show ?thesis using pub gen keep [of _ _ s' "[]" "[]"] by (auto simp: rounds_ok_def word_le_nat_alt)
  qed (use pub keep [of _ _ s' "[]" "[]"] in \<open>cases "sy_round s"; auto simp: rounds_ok_def\<close>)+
qed

lemma task_step:
  assumes "pkarr_step public s s'" "edits_ok public s" "rounds_ok s" "length (sy_history s) < 2 ^ 64"
    "task_ok (sy_round s) (sy_task s) s"
  shows "task_ok (sy_round s') (sy_task s') s'"
  using assms(1)
proof cases
  case (edit ed)
  then show ?thesis using assms(5)
    by (cases "(sy_round s, sy_task s, s)" rule: task_ok.cases) (auto simp: alarmed_def)
next
  case (bump i)
  then show ?thesis using assms(5)
    by (cases "(sy_round s, sy_task s, s)" rule: task_ok.cases) (auto simp: alarmed_def)
next
  case (notify n)
  then show ?thesis using assms(5)
    by (cases "(sy_round s, sy_task s, s)" rule: task_ok.cases) (auto simp: alarmed_def)
next
  case begin_call
  then show ?thesis using assms(5) by (cases "sy_task s") (auto simp: alarmed_def)
next
  case (no_clock owner g)
  then show ?thesis using assms(5) by (cases owner; cases "sy_task s") (auto simp: alarmed_def)
next
  case (sign owner g order now items st)
  then show ?thesis using assms(5) sign_all_state [OF sign(5)] by (cases owner; cases "sy_task s") (auto simp: alarmed_def)
next
  case (put_ok owner g item items ok)
  then show ?thesis using assms(5) by (cases owner; cases "sy_task s") (auto simp: alarmed_def)
next
  case (put_failed owner g item items ok)
  then show ?thesis using assms(5) by (cases owner; cases "sy_task s") (auto simp: alarmed_def)
next
  case (end_round owner g ok)
  have "ps_published (sy_state s) \<le> g" "unat g \<le> length (sy_bumps s)"
    using assms(3) end_round(2) by (auto simp: rounds_ok_def)
  then have "g = ps_generation (sy_state s)" if "ps_published (sy_state s) = ps_generation (sy_state s)"
    using that generation_nat [OF assms(2,4)] by (simp add: word_le_nat_alt word_unat_eq_iff)
  with end_round assms(5) show ?thesis by (cases owner; cases "sy_task s") (auto simp: alarmed_def)
next
  case (cancel g item items ok)
  then show ?thesis using assms(5) by (cases "sy_task s") (auto simp: alarmed_def)
qed (use assms(5) in \<open>auto simp: alarmed_def\<close>)

definition pkarr_inv :: "(bytes \<Rightarrow> bytes) \<Rightarrow> pkarr_sys \<Rightarrow> bool" where
  "pkarr_inv public s \<longleftrightarrow> edits_ok public s \<and> rounds_ok s \<and> task_ok (sy_round s) (sy_task s) s"

lemma pkarr_inv_new: "pkarr_inv public pkarr_sys_new"
  by (simp add: pkarr_inv_def edits_ok_def rounds_ok_def published_to_def pkarr_sys_new_def pkarr_new_def)

text \<open>Edits and counts only add to the lists.\<close>

lemma pkarr_step_extends:
  "pkarr_step public s s' \<Longrightarrow> \<exists>h b. sy_history s' = sy_history s @ h \<and> sy_bumps s' = sy_bumps s @ b"
  by (erule pkarr_step.cases) auto

lemma pkarr_steps_extend:
  "(pkarr_step public)\<^sup>*\<^sup>* s s' \<Longrightarrow> \<exists>h b. sy_history s' = sy_history s @ h \<and> sy_bumps s' = sy_bumps s @ b"
proof (induction rule: rtranclp_induct)
  case (step s' s'')
  from pkarr_step_extends [OF step(2)] step(3) show ?case by auto
qed simp

lemma pkarr_reach_inv:
  "(pkarr_step public)\<^sup>*\<^sup>* s s' \<Longrightarrow> pkarr_inv public s \<Longrightarrow> length (sy_history s') < 2 ^ 64 \<Longrightarrow> pkarr_inv public s'"
proof (induction rule: rtranclp_induct)
  case (step s' s'')
  from pkarr_step_extends [OF step(2)] step.prems(2) have "length (sy_history s') < 2 ^ 64" by auto
  with step show ?case unfolding pkarr_inv_def using edits_step rounds_step task_step by blast
qed

section \<open>Properties\<close>

text \<open>
  C14. Waiting for publication means what it says, in every interleaving of edits, rounds of the task,
  calls of \<open>publish_all\<close> (given up or not), failures and clocks. When a wait that began in a state returns, every
  name that was set before it began was accepted by Mainline with the packet that was set, unless a
  later edit of the same name replaced or removed it. And no edit is forgotten: while the task sleeps
  after a successful round, every wait that could begin is already over, or the task is about to be woken.
\<close>

theorem wait_published_sound:
  assumes "(pkarr_step public)\<^sup>*\<^sup>* pkarr_sys_new s" "(pkarr_step public)\<^sup>*\<^sup>* s s'" "length (sy_history s') < 2 ^ 64"
  shows "(wait_published_done (ps_generation (sy_state s)) (sy_state s') \<longrightarrow>
      (\<forall>i k e. i \<in> set (sy_bumps s) \<and> sy_history s ! i = SetName k e \<longrightarrow>
         (\<exists>item \<in> sy_delivered s'. mi_key item = k \<and> mi_value item = pke_packet e) \<or>
         (\<exists>j. i < j \<and> j < length (sy_history s') \<and> edit_key (sy_history s' ! j) = k))) \<and>
    (sy_task s' = Sleeping True \<longrightarrow> wait_published_done (ps_generation (sy_state s')) (sy_state s') \<or>
       sy_permit s' \<or> 0 < sy_notifying s')"
proof -
  obtain h b where ext: "sy_history s' = sy_history s @ h" "sy_bumps s' = sy_bumps s @ b"
    using pkarr_steps_extend [OF assms(2)] by blast
  have inv: "pkarr_inv public s" "pkarr_inv public s'"
    using pkarr_reach_inv [OF assms(1) pkarr_inv_new] pkarr_reach_inv [OF assms(2)] assms(3) ext(1) by simp_all
  have gen: "unat (ps_generation (sy_state s)) = length (sy_bumps s)"
    using generation_nat [of public s] inv(1) assms(3) ext(1) by (simp add: pkarr_inv_def)
  have "covered (sy_delivered s') (sy_history s') i"
    if "wait_published_done (ps_generation (sy_state s)) (sy_state s')" "i \<in> set (sy_bumps s)" for i
  proof -
    have "length (sy_bumps s) \<le> unat (ps_published (sy_state s'))"
      using that(1) gen by (simp add: wait_published_done_def not_less word_le_nat_alt)
    then have "i \<in> set (take (unat (ps_published (sy_state s'))) (sy_bumps s'))" using that(2) ext(2) by simp
    then show ?thesis using inv(2) by (simp add: pkarr_inv_def rounds_ok_def published_to_def)
  qed
  moreover have "sy_history s' ! i = sy_history s ! i" if "i \<in> set (sy_bumps s)" for i
    using that inv(1) ext(1) by (auto simp: pkarr_inv_def edits_ok_def nth_append)
  moreover have "wait_published_done (ps_generation (sy_state s')) (sy_state s') \<or> sy_permit s' \<or> 0 < sy_notifying s'"
    if "sy_task s' = Sleeping True"
    using inv(2) that by (auto simp: pkarr_inv_def alarmed_def wait_published_done_def)
  ultimately show ?thesis unfolding covered_def by (metis (no_types, lifting))
qed

text \<open>A name that is set, counted, signed and put, and the wait for it.\<close>

definition sample_entry :: pkarr_entry where "sample_entry = \<lparr>pke_key = [1], pke_packet = [7]\<rparr>"

definition named :: "u64 \<Rightarrow> int \<Rightarrow> u64 \<Rightarrow> pkarr_state" where
  "named g previous p = \<lparr>ps_packets = fmupd [1] sample_entry fmempty, ps_generation = g, ps_published = p, ps_previous = previous\<rparr>"

definition naming :: "pkarr_state \<Rightarrow> round_phase \<Rightarrow> task_phase \<Rightarrow> nat list \<Rightarrow> mutable_item set \<Rightarrow> pkarr_sys" where
  "naming st r t bumps items = \<lparr>sy_state = st, sy_round = r, sy_task = t, sy_permit = False,
     sy_history = [SetName [1] sample_entry], sy_bumps = bumps, sy_notifying = length bumps, sy_delivered = items\<rparr>"

lemma naming_runs:
  fixes item :: mutable_item
  defines "item \<equiv> sign_entry id 5 sample_entry"
  shows "pkarr_step id pkarr_sys_new (naming (named 0 0 0) NoRound Wants [] {})"
    "pkarr_step id (naming (named 0 0 0) NoRound Wants [] {}) (naming (named 1 0 0) NoRound Wants [0] {})"
    "pkarr_step id (naming (named 1 0 0) NoRound Wants [0] {}) (naming (named 1 0 0) (Started ByTask 1) InRound [0] {})"
    "pkarr_step id (naming (named 1 0 0) (Started ByTask 1) InRound [0] {})
       (naming (named 1 5 0) (Putting ByTask 1 [item] True) InRound [0] {})"
    "pkarr_step id (naming (named 1 5 0) (Putting ByTask 1 [item] True) InRound [0] {})
       (naming (named 1 5 0) (Putting ByTask 1 [] True) InRound [0] {item})"
    "pkarr_step id (naming (named 1 5 0) (Putting ByTask 1 [] True) InRound [0] {item})
       (naming (named 1 5 1) NoRound (Sleeping True) [0] {item})"
proof -
  show "pkarr_step id pkarr_sys_new (naming (named 0 0 0) NoRound Wants [] {})"
    using pkarr_step.edit [of id pkarr_sys_new "SetName [1] sample_entry"]
    by (simp add: pkarr_sys_new_def naming_def named_def pkarr_new_def apply_to_def edit_ok_def sample_entry_def)
  show "pkarr_step id (naming (named 0 0 0) NoRound Wants [] {}) (naming (named 1 0 0) NoRound Wants [0] {})"
    using pkarr_step.bump [of 0 "naming (named 0 0 0) NoRound Wants [] {}" id]
    by (simp add: naming_def named_def edited_def)
  show "pkarr_step id (naming (named 1 0 0) NoRound Wants [0] {}) (naming (named 1 0 0) (Started ByTask 1) InRound [0] {})"
    using pkarr_step.begin_task [of "naming (named 1 0 0) NoRound Wants [0] {}" id] by (simp add: naming_def named_def)
  show "pkarr_step id (naming (named 1 0 0) (Started ByTask 1) InRound [0] {})
      (naming (named 1 5 0) (Putting ByTask 1 [item] True) InRound [0] {})"
    using pkarr_step.sign [of "naming (named 1 0 0) (Started ByTask 1) InRound [0] {}" ByTask 1 "[[1]]" id 5 "[item]" "named 1 5 0"]
    by (simp add: naming_def named_def sign_all_def Let_def wrap_i64_def List.map_filter_def item_def)
  show "pkarr_step id (naming (named 1 5 0) (Putting ByTask 1 [item] True) InRound [0] {})
      (naming (named 1 5 0) (Putting ByTask 1 [] True) InRound [0] {item})"
    using pkarr_step.put_ok [of "naming (named 1 5 0) (Putting ByTask 1 [item] True) InRound [0] {}" ByTask 1 item "[]" True id]
    by (simp add: naming_def)
  show "pkarr_step id (naming (named 1 5 0) (Putting ByTask 1 [] True) InRound [0] {item})
      (naming (named 1 5 1) NoRound (Sleeping True) [0] {item})"
    using pkarr_step.end_round [of "naming (named 1 5 0) (Putting ByTask 1 [] True) InRound [0] {item}" ByTask 1 True id]
    by (simp add: naming_def named_def round_end_def)
qed

theorem wait_published_sound_witness:
  "\<exists>s s'. (pkarr_step id)\<^sup>*\<^sup>* pkarr_sys_new s \<and> (pkarr_step id)\<^sup>*\<^sup>* s s' \<and>
     wait_published_done (ps_generation (sy_state s)) (sy_state s') \<and> 0 \<in> set (sy_bumps s) \<and>
     (\<exists>item \<in> sy_delivered s'. mi_key item = [1] \<and> mi_value item = [7])"
proof -
  let ?item = "sign_entry id 5 sample_entry"
  let ?s = "naming (named 1 0 0) NoRound Wants [0] {}" and ?s' = "naming (named 1 5 1) NoRound (Sleeping True) [0] {?item}"
  have reach: "(pkarr_step id)\<^sup>*\<^sup>* pkarr_sys_new ?s" "(pkarr_step id)\<^sup>*\<^sup>* ?s ?s'"
    using path_reaches [of "pkarr_step id" pkarr_sys_new "[naming (named 0 0 0) NoRound Wants [] {}, ?s]"]
      path_reaches [of "pkarr_step id" ?s "[naming (named 1 0 0) (Started ByTask 1) InRound [0] {},
        naming (named 1 5 0) (Putting ByTask 1 [?item] True) InRound [0] {},
        naming (named 1 5 0) (Putting ByTask 1 [] True) InRound [0] {?item}, ?s']"] naming_runs by simp_all
  have "length (sy_history ?s') < 2 ^ 64" by (simp add: naming_def)
  from conjunct1 [OF wait_published_sound [OF reach this]]
  have "wait_published_done 1 (sy_state ?s') \<longrightarrow> (\<exists>item \<in> sy_delivered ?s'. mi_key item = [1] \<and> mi_value item = [7])"
    by (auto simp: naming_def named_def sample_entry_def)
  moreover have "wait_published_done (ps_generation (sy_state ?s)) (sy_state ?s')" "wait_published_done 1 (sy_state ?s')" "0 \<in> set (sy_bumps ?s)"
    by (simp_all add: naming_def named_def wait_published_done_def)
  ultimately show ?thesis using reach by blast
qed

end
