(* ===== verification/Startup.thy ===== *)
theory Startup
  imports Programs
begin

text \<open>
  How the programs start and stop: the order of what can fail in the gateway (\<open>iroh-link-gateway/src/main.rs\<close>), in
  the index server (\<open>udp-addr-index/src/bin/udp-addr-index.rs\<close>), in the tool that signs a server list
  (\<open>iroh-mainline-endpoint-discovery/src/bin/iroh-index-list.rs\<close>) and the directory of the launcher
  (\<open>iroh-link-gateway/src/bin/iroh-link-gateway-background.rs\<close>). Which step fails is a parameter.
\<close>

section \<open>Steps that can fail\<close>

text \<open>Steps run in their order until one fails: those that were done, and the one that failed.\<close>

fun run_steps :: "('s \<Rightarrow> bool) \<Rightarrow> 's list \<Rightarrow> 's list \<times> 's option" where
  "run_steps works [] = ([], None)"
| "run_steps works (s # steps) = (if works s then apfst ((#) s) (run_steps works steps) else ([], Some s))"

lemma run_steps_takeWhile:
  "run_steps works steps = (takeWhile works steps, case dropWhile works steps of [] \<Rightarrow> None | s # _ \<Rightarrow> Some s)"
  by (induction steps) simp_all

lemma run_steps_all: "run_steps works steps = (xs, None) \<longleftrightarrow> xs = steps \<and> (\<forall>s \<in> set steps. works s)"
proof (cases "\<forall>s \<in> set steps. works s")
  case True
  then have "takeWhile works steps = steps" "dropWhile works steps = []" by (simp_all add: takeWhile_eq_all_conv dropWhile_eq_Nil_conv)
  then have "run_steps works steps = (steps, None)" by (simp only: run_steps_takeWhile list.case)
  with True show ?thesis by auto
next
  case False
  then have "dropWhile works steps \<noteq> []" by (simp add: dropWhile_eq_Nil_conv)
  with False show ?thesis by (auto simp: run_steps_takeWhile split: list.splits)
qed

lemma run_steps_failed:
  assumes "run_steps works steps = (xs, Some s)"
  shows "\<exists>rest. steps = xs @ s # rest" "\<forall>s \<in> set xs. works s" "\<not> works s"
proof -
  obtain rest where rest: "dropWhile works steps = s # rest" and xs: "xs = takeWhile works steps"
    using assms by (auto simp: run_steps_takeWhile split: list.splits)
  show "\<exists>rest. steps = xs @ s # rest" by (metis takeWhile_dropWhile_id rest xs)
  show "\<forall>s \<in> set xs. works s" using xs set_takeWhileD [of _ works steps] by blast
  show "\<not> works s" using rest hd_dropWhile [of works steps] by simp
qed

section \<open>The gateway\<close>

text \<open>
  The listen address is checked first, then the lock of the lifecycle directory is taken, the port is bound, and the endpoint
  and the Mainline node are started; only then is the gateway marked ready. With no directory there is no
  lock and no mark.
\<close>

datatype gateway_start = CheckListen | AcquireRuntime | BindHttp | BindEndpoint | BindNode | MarkReady

definition gateway_steps :: "gateway_args \<Rightarrow> gateway_start list" where
  "gateway_steps args =
     [CheckListen] @ (if ga_state_dir args = None then [] else [AcquireRuntime]) @ [BindHttp, BindEndpoint, BindNode] @
     (if ga_state_dir args = None then [] else [MarkReady])"

definition gateway_main :: "(gateway_start \<Rightarrow> bool) \<Rightarrow> gateway_args \<Rightarrow> gateway_start list \<times> gateway_start option" where
  "gateway_main works args =
     run_steps (\<lambda>s. if s = CheckListen then validate_listen_addr (ga_listen args) else works s) (gateway_steps args)"

text \<open>
  It then serves until one of three things: an interrupt, a request to terminate, where that signal can be received,
  or the stop file of its directory.
\<close>

definition shuts_down :: "gateway_args \<Rightarrow> bool \<Rightarrow> bool option \<Rightarrow> bool \<Rightarrow> bool" where
  "shuts_down args interrupt terminate stop_file \<longleftrightarrow>
     interrupt \<or> terminate = Some True \<or> ga_state_dir args \<noteq> None \<and> stop_file"

text \<open>
  A gateway that is marked ready has its port, its lock and its node; one that must not listen where it is told to
  touches nothing; and a port that is in use is found before anything of the network is started.
\<close>

lemma gateway_ready_last:
  assumes "gateway_main works args = (xs, r)" "MarkReady \<in> set xs"
  shows "r = None" "xs = [CheckListen, AcquireRuntime, BindHttp, BindEndpoint, BindNode, MarkReady]" "validate_listen_addr (ga_listen args)"
  using assms by (auto simp: gateway_main_def gateway_steps_def split: if_splits)

lemma gateway_refuses_address:
  "\<not> validate_listen_addr (ga_listen args) \<Longrightarrow> gateway_main works args = ([], Some CheckListen)"
  by (simp add: gateway_main_def gateway_steps_def)

lemma gateway_port_in_use:
  "\<not> works BindHttp \<Longrightarrow> gateway_main works args = (xs, r) \<Longrightarrow> set xs \<subseteq> {CheckListen, AcquireRuntime} \<and> r \<noteq> None"
  by (auto simp: gateway_main_def gateway_steps_def split: if_splits)

section \<open>The index server\<close>

datatype server_start = SpawnMetrics | StartNode | AttachServer "bytes option"

record server_options =
  so_limits :: server_cli
  so_rendezvous :: "bytes option"
  so_metrics :: bool

definition server_steps :: "server_options \<Rightarrow> server_start list" where
  "server_steps cli = (if so_metrics cli then [SpawnMetrics] else []) @ [StartNode, AttachServer (so_rendezvous cli)]"

definition server_main :: "(server_start \<Rightarrow> bool) \<Rightarrow> server_options \<Rightarrow> limits \<times> server_start list \<times> server_start option" where
  "server_main works cli = (cli_limits (so_limits cli), run_steps works (server_steps cli))"

text \<open>The server announces itself exactly when a hash was given.\<close>

lemma server_announces:
  assumes "server_main works cli = (l, xs, None)"
  shows "AttachServer (so_rendezvous cli) \<in> set xs" "AttachServer h \<in> set xs \<Longrightarrow> h = so_rendezvous cli"
  using assms by (auto simp: server_main_def run_steps_all server_steps_def split: if_splits)

section \<open>The list tool\<close>

definition SECRET_ENV :: string where "SECRET_ENV = ''IROH_INDEX_LIST_SECRET''"

datatype list_tool_error = SecretRequired | SigningFailed sign_error

text \<open>The secret is removed from the environment before it is used.\<close>

definition list_tool_start :: "dns_ext \<Rightarrow> (string \<Rightarrow> bytes option) \<Rightarrow> (bytes \<Rightarrow> bytes) \<Rightarrow> socket_addr_v4 list \<Rightarrow> int option \<Rightarrow>
    nat option \<Rightarrow> (string \<rightharpoonup> string) \<Rightarrow> (list_tool_error + mutable_item) \<times> (string \<rightharpoonup> string)" where
  "list_tool_start x hex public sockets sequence now vars =
     (case vars SECRET_ENV of
        None \<Rightarrow> (Inl SecretRequired, vars)
      | Some secret \<Rightarrow>
          (map_sum SigningFailed (\<lambda>item. item) (list_tool_sign x hex public sockets sequence now secret), vars(SECRET_ENV := None)))"

lemma list_tool_forgets:
  "list_tool_start x hex public sockets sequence now vars = (r, vars') \<Longrightarrow> vars' = vars(SECRET_ENV := None)"
  by (auto simp: list_tool_start_def split: option.splits)

section \<open>The directory of the launcher\<close>

text \<open>The default is computed whether or not a directory was given, and an error of that ends the launcher.\<close>

definition default_state_dir :: "string option \<Rightarrow> string option" where
  "default_state_dir data_dir = map_option (\<lambda>d. d @ ''/iroh-link-gateway'') data_dir"

definition launcher_state :: "string option \<Rightarrow> string option \<Rightarrow> string option" where
  "launcher_state state_dir data_dir =
     (case default_state_dir data_dir of
        None \<Rightarrow> None
      | Some d \<Rightarrow> Some (case state_dir of None \<Rightarrow> d | Some s \<Rightarrow> s))"

text \<open>So a directory that is given helps nothing where the user has no data directory.\<close>

lemma launcher_needs_default: "launcher_state (Some s) None = None"
  by (simp add: launcher_state_def default_state_dir_def)

end
