(* ===== verification/Provide.thy ===== *)
theory Provide
  imports Gateway_Routes "HOL-Library.Multiset"
begin

text \<open>
  Providing a directory, \<open>iroh-mainline-endpoint-discovery/examples/provide.rs\<close>: the walk over the
  directory, the collection made of what it finds, and what the gateway serves for it. Importing a file into the
  blob store is a parameter.
\<close>

section \<open>Directories\<close>

text \<open>
  What the program sees of the file system, links followed. \<open>Other\<close> is neither file nor directory; a directory can be
  unreadable, and reading one can fail at an entry. Names are text.
\<close>

datatype fs_node =
    File bytes
  | Other
  | Unreadable
  | BadEntry
  | Dir "(string \<times> fs_node) list"

type_synonym fs_path = "string list"

datatype provide_error = NoFileName | ReadDirectory | ReadEntry | NoFiles | ImportFailed

text \<open>The entries of one directory: directories go on the stack, files on the list.\<close>

fun scan :: "fs_path \<Rightarrow> (string \<times> fs_node) list \<Rightarrow> (fs_path \<times> fs_node) list \<Rightarrow> (string \<times> fs_path) list \<Rightarrow>
    provide_error + (fs_path \<times> fs_node) list \<times> (string \<times> fs_path) list" where
  "scan dir [] dirs files = Inr (dirs, files)"
| "scan dir ((name, node) # entries) dirs files =
     (let path = dir @ [name] in
      case node of
        BadEntry \<Rightarrow> Inl ReadEntry
      | Dir _ \<Rightarrow> scan dir entries ((path, node) # dirs) files
      | Unreadable \<Rightarrow> scan dir entries ((path, node) # dirs) files
      | File _ \<Rightarrow> scan dir entries dirs (files @ [(join ''/'' path, path)])
      | Other \<Rightarrow> scan dir entries dirs files)"

lemma scan_size:
  "scan dir entries dirs files = Inr (dirs', files') \<Longrightarrow>
     sum_list (map (size \<circ> snd) dirs') \<le> sum_list (map (size \<circ> snd) dirs) + sum_list (map (size \<circ> snd) entries)"
  by (induction dir entries dirs files rule: scan.induct) (fastforce simp: Let_def split: fs_node.splits)+

lemma size_dir: "sum_list (map (size \<circ> snd) entries) < size (Dir entries)"
proof -
  have "sum_list (map (size \<circ> snd) es) \<le> size_list (size_prod (\<lambda>_. 0) size) es" for es :: "(string \<times> fs_node) list"
    by (induction es) auto
  then show ?thesis by (simp add: le_imp_less_Suc)
qed

text \<open>The loop over the stack; the last directory pushed is read first.\<close>

function walk :: "(fs_path \<times> fs_node) list \<Rightarrow> (string \<times> fs_path) list \<Rightarrow> provide_error + (string \<times> fs_path) list" where
  "walk [] files = Inr files"
| "walk ((dir, node) # dirs) files =
     (case node of
        Dir entries \<Rightarrow>
          (case scan dir entries dirs files of
             Inl e \<Rightarrow> Inl e
           | Inr (dirs, files) \<Rightarrow> walk dirs files)
      | _ \<Rightarrow> Inl ReadDirectory)"
  by pat_completeness auto
termination
proof (relation "measure (\<lambda>(dirs, files). sum_list (map (size \<circ> snd) dirs))", goal_cases)
  case (2 dir node dirs files entries p dirs' files')
  from scan_size [of dir entries dirs files dirs' files'] 2 size_dir [of entries] show ?case by auto
qed simp

text \<open>\<open>root_name\<close> is the file name of the path; only the root of the file system has none.\<close>

definition collect_files :: "string option \<Rightarrow> fs_node \<Rightarrow> provide_error + (string \<times> fs_path) list" where
  "collect_files root_name root_node =
     (case root_node of
        File _ \<Rightarrow> (case root_name of None \<Rightarrow> Inl NoFileName | Some name \<Rightarrow> Inr [(name, [])])
      | _ \<Rightarrow> (case walk [([], root_node)] [] of Inl e \<Rightarrow> Inl e | Inr files \<Rightarrow> Inr (sort files)))"

section \<open>The collection\<close>

text \<open>\<open>add_path\<close> imports a file and returns the hash of what it read there.\<close>

fun import_entries :: "(fs_path \<Rightarrow> hash option) \<Rightarrow> (string \<times> fs_path) list \<Rightarrow> provide_error + collection" where
  "import_entries add_path [] = Inr []"
| "import_entries add_path ((name, path) # files) =
     (case add_path path of
        None \<Rightarrow> Inl ImportFailed
      | Some h \<Rightarrow>
          (case import_entries add_path files of Inl e \<Rightarrow> Inl e | Inr entries \<Rightarrow> Inr ((name, h) # entries)))"

definition provide :: "(fs_path \<Rightarrow> hash option) \<Rightarrow> string option \<Rightarrow> fs_node \<Rightarrow> provide_error + collection" where
  "provide add_path root_name root_node =
     (case collect_files root_name root_node of
        Inl e \<Rightarrow> Inl e
      | Inr files \<Rightarrow> if files = [] then Inl NoFiles else import_entries add_path files)"

section \<open>The files of a directory\<close>

fun tree_files :: "fs_path \<Rightarrow> fs_node \<Rightarrow> (fs_path \<times> bytes) list" where
  "tree_files path (File c) = [(path, c)]"
| "tree_files path (Dir entries) = concat (map (\<lambda>(name, node). tree_files (path @ [name]) node) entries)"
| "tree_files path _ = []"

definition named_paths :: "(fs_path \<times> bytes) list \<Rightarrow> (string \<times> fs_path) list" where
  "named_paths = map (\<lambda>(path, c). (join ''/'' path, path))"

text \<open>What a file system guarantees of the names in a directory.\<close>

fun tree_ok :: "fs_node \<Rightarrow> bool" where
  "tree_ok (Dir entries) \<longleftrightarrow> distinct (map fst entries) \<and>
     (\<forall>(name, node) \<in> set entries. name \<noteq> [] \<and> CHR ''/'' \<notin> set name \<and> tree_ok node)"
| "tree_ok _ \<longleftrightarrow> True"

fun readable :: "fs_node \<Rightarrow> bool" where
  "readable (Dir entries) \<longleftrightarrow> (\<forall>(name, node) \<in> set entries. readable node)"
| "readable node \<longleftrightarrow> node \<noteq> Unreadable \<and> node \<noteq> BadEntry"

definition stack_files :: "(fs_path \<times> fs_node) list \<Rightarrow> (string \<times> fs_path) list" where
  "stack_files dirs = concat (map (\<lambda>(path, node). named_paths (tree_files path node)) dirs)"

lemma named_paths_simps [simp]:
  "named_paths [] = []" "named_paths (a @ b) = named_paths a @ named_paths b"
  "named_paths [(path, c)] = [(join ''/'' path, path)]"
  by (simp_all add: named_paths_def)

lemma stack_files_simps [simp]:
  "stack_files [] = []" "stack_files ((path, node) # dirs) = named_paths (tree_files path node) @ stack_files dirs"
  by (simp_all add: stack_files_def)

lemma scan_files:
  "scan dir entries dirs files = Inr (dirs', files') \<Longrightarrow>
     mset (files' @ stack_files dirs') = mset (files @ stack_files dirs) + mset (named_paths (tree_files dir (Dir entries)))"
  by (induction dir entries dirs files rule: scan.induct) (auto simp: Let_def ac_simps split: fs_node.splits)

lemma walk_files: "walk dirs files = Inr files' \<Longrightarrow> mset files' = mset (files @ stack_files dirs)"
proof (induction dirs files rule: walk.induct)
  case (2 dir node dirs files)
  then show ?case using scan_files by (fastforce split: fs_node.splits sum.splits prod.splits simp: ac_simps)
qed simp

definition readable_dirs :: "(fs_path \<times> fs_node) list \<Rightarrow> bool" where
  "readable_dirs dirs \<longleftrightarrow> (\<forall>(path, node) \<in> set dirs. readable node \<and> (\<exists>entries. node = Dir entries))"

lemma scan_readable:
  "readable (Dir entries) \<Longrightarrow> readable_dirs dirs \<Longrightarrow>
     \<exists>dirs' files'. scan dir entries dirs files = Inr (dirs', files') \<and> readable_dirs dirs'"
  by (induction dir entries dirs files rule: scan.induct) (auto simp: Let_def readable_dirs_def split: fs_node.splits)

text \<open>The walk succeeds whenever everything can be read, however deep the directory.\<close>

lemma walk_readable: "readable_dirs dirs \<Longrightarrow> \<exists>files'. walk dirs files = Inr files'"
proof (induction dirs files rule: walk.induct)
  case (2 dir node dirs files)
  then obtain es where es: "node = Dir es" "readable (Dir es)" "readable_dirs dirs" by (auto simp: readable_dirs_def)
  from scan_readable [OF this(2,3)] obtain dirs' files' where
    s: "scan dir es dirs files = Inr (dirs', files')" "readable_dirs dirs'" by blast
  from 2(1) [OF es(1) s(1) refl s(2)] es(1) s(1) show ?case by simp
qed simp

section \<open>Names\<close>

lemma split_join: "ss \<noteq> [] \<Longrightarrow> \<forall>s \<in> set ss. c \<notin> set s \<Longrightarrow> split_on c (join [c] ss) = ss"
  by (induction "[c]" ss rule: join.induct) (simp_all add: split_on_single split_on_append)

lemma split_join_append:
  "ss \<noteq> [] \<Longrightarrow> \<forall>s \<in> set ss. c \<notin> set s \<Longrightarrow> split_on c (join [c] ss @ c # rest) = ss @ split_on c rest"
  by (induction "[c]" ss rule: join.induct) (simp_all add: split_on_append)

definition path_ok :: "fs_path \<Rightarrow> bool" where
  "path_ok path \<longleftrightarrow> (\<forall>name \<in> set path. name \<noteq> [] \<and> CHR ''/'' \<notin> set name)"

lemma tree_paths:
  "(p, c) \<in> set (tree_files path node) \<Longrightarrow> tree_ok node \<Longrightarrow> \<exists>rest. p = path @ rest \<and> path_ok rest"
proof (induction path node rule: tree_files.induct)
  case (2 path entries)
  then obtain name node where n: "(name, node) \<in> set entries" "(p, c) \<in> set (tree_files (path @ [name]) node)" by auto
  with 2 show ?case by (fastforce simp: path_ok_def)
qed (auto simp: path_ok_def)

text \<open>No file lies below another file, and a path names one file.\<close>

lemma tree_unique:
  "(p, c) \<in> set (tree_files path node) \<Longrightarrow> (p @ q, c') \<in> set (tree_files path node) \<Longrightarrow> tree_ok node \<Longrightarrow> q = [] \<and> c = c'"
proof (induction path node rule: tree_files.induct)
  case (2 path entries)
  from 2 obtain n t m u where n: "(n, t) \<in> set entries" "(p, c) \<in> set (tree_files (path @ [n]) t)"
      "(m, u) \<in> set entries" "(p @ q, c') \<in> set (tree_files (path @ [m]) u)" by auto
  have ok: "tree_ok t" "tree_ok u" using n 2(4) by auto
  have "n = m" using tree_paths [OF n(2) ok(1)] tree_paths [OF n(4) ok(2)] by auto
  then have "t = u" using n 2(4) by (auto dest: eq_key_imp_eq_value)
  with 2(1) [OF n(1)] n(2,4) ok \<open>n = m\<close> show ?case by blast
qed auto

lemma tree_distinct: "tree_ok node \<Longrightarrow> distinct (map fst (tree_files path node))"
proof (induction path node rule: tree_files.induct)
  case (2 path entries)
  let ?names = "\<lambda>(name, node). map fst (tree_files (path @ [name]) node)"
  have below: "\<exists>rest. p = path @ n # rest" if "p \<in> set (?names (n, t))" "tree_ok t" for p n t
    using that tree_paths [of p _ "path @ [n]" t] by fastforce
  have "distinct (concat (map ?names es))" if "set es \<subseteq> set entries" "distinct (map fst es)" for es
    using that
  proof (induction es)
    case (Cons e es)
    obtain n t where e: "e = (n, t)" by fastforce
    have mem: "(n, t) \<in> set entries" using Cons.prems(1) e by simp
    then have t: "tree_ok t" "distinct (?names (n, t))" using 2 by auto
    have "p \<noteq> q" if "p \<in> set (?names (n, t))" "q \<in> set (?names (m, u))" "(m, u) \<in> set es" for p q m u
    proof -
      have "tree_ok u" "m \<noteq> n" using that(3) Cons.prems 2(2) e by (auto simp: image_iff)
      with below [OF that(1) t(1)] below [OF that(2)] show ?thesis by auto
    qed
    then have "set (?names (n, t)) \<inter> set (concat (map ?names es)) = {}" by fastforce
    with t(2) Cons e show ?case by simp
  qed simp
  from this [OF subset_refl] 2(2) show ?case by (simp add: map_concat case_prod_unfold comp_def)
qed auto

section \<open>From the directory to the collection\<close>

declare tree_files.simps [simp del]

lemma collect_files_dir:
  assumes "collect_files root_name (Dir entries) = Inr files"
  shows "sorted files" "mset files = mset (named_paths (tree_files [] (Dir entries)))"
  using assms walk_files [of "[([], Dir entries)]" "[]"] by (auto simp: collect_files_def split: sum.splits)

lemma collect_files_total: "readable (Dir entries) \<Longrightarrow> \<exists>files. collect_files root_name (Dir entries) = Inr files"
  using walk_readable [of "[([], Dir entries)]" "[]"] by (auto simp: collect_files_def readable_dirs_def simp del: walk.simps)

lemma import_entries_map:
  "(\<And>name path. (name, path) \<in> set files \<Longrightarrow> add_path path = Some (h path)) \<Longrightarrow>
     import_entries add_path files = Inr (map (\<lambda>(name, path). (name, h path)) files)"
proof (induction files)
  case (Cons f files)
  obtain name path where f: "f = (name, path)" by fastforce
  then have "add_path path = Some (h path)" using Cons.prems [of name path] by simp
  moreover have "import_entries add_path files = Inr (map (\<lambda>(name, path). (name, h path)) files)"
    using Cons.IH Cons.prems by (metis list.set_intros(2))
  ultimately show ?case using f by simp
qed simp

text \<open>Names of files are the joined paths; different files have different names, none below another.\<close>

lemma joined_name:
  assumes "tree_ok (Dir entries)" "(p, c) \<in> set (tree_files [] (Dir entries))"
  shows "split_on CHR ''/'' (join ''/'' p) = p" "p \<noteq> []" "strip_prefix ''/'' (join ''/'' p) = None"
proof -
  have p: "path_ok p" using tree_paths [OF assms(2,1)] by auto
  obtain n t where "(p, c) \<in> set (tree_files [n] t)" "tree_ok t" using assms by (auto simp: tree_files.simps)
  with tree_paths [OF this] show ne: "p \<noteq> []" by auto
  show "split_on CHR ''/'' (join ''/'' p) = p" using p ne by (intro split_join) (auto simp: path_ok_def)
  obtain d e ds where "p = (d # e) # ds" "d \<noteq> CHR ''/''" using p ne by (cases p; cases "hd p") (auto simp: path_ok_def)
  then show "strip_prefix ''/'' (join ''/'' p) = None" by (cases ds) (auto simp: strip_prefix_def)
qed

lemma named_paths_fst: "tree_ok (Dir entries) \<Longrightarrow> distinct (map fst (named_paths (tree_files [] (Dir entries))))"
proof -
  assume ok: "tree_ok (Dir entries)"
  have "inj_on (join ''/'') (set (map fst (tree_files [] (Dir entries))))"
    using joined_name(1) [OF ok] by (fastforce intro: inj_on_inverseI [of _ "split_on CHR ''/''"])
  moreover have "map fst (named_paths (tree_files [] (Dir entries))) = map (join ''/'') (map fst (tree_files [] (Dir entries)))"
    by (simp add: named_paths_def case_prod_unfold)
  ultimately show ?thesis using tree_distinct [OF ok] by (metis distinct_map)
qed

lemma provide_collection:
  assumes "tree_ok (Dir entries)" "readable (Dir entries)" "tree_files [] (Dir entries) \<noteq> []"
    "\<And>p c. (p, c) \<in> set (tree_files [] (Dir entries)) \<Longrightarrow> add_path p = Some (blake c)"
  shows "\<exists>coll. provide add_path root_name (Dir entries) = Inr coll \<and> sorted (map fst coll) \<and> distinct (map fst coll) \<and>
    set coll = (\<lambda>(p, c). (join ''/'' p, blake c)) ` set (tree_files [] (Dir entries))"
proof -
  obtain files where files: "collect_files root_name (Dir entries) = Inr files" using collect_files_total [OF assms(2)] by blast
  note c = collect_files_dir [OF this]
  have set: "set files = set (named_paths (tree_files [] (Dir entries)))" using c(2) by (metis set_mset_mset)
  have ne: "files \<noteq> []" using set assms(3) by (auto simp: named_paths_def)
  have add: "add_path path = Some (the (add_path path))" if "(name, path) \<in> set files" for name path
    using that assms(4) unfolding set by (fastforce simp: named_paths_def)
  let ?coll = "map (\<lambda>(name, path). (name, the (add_path path))) files"
  have "provide add_path root_name (Dir entries) = Inr ?coll"
    using import_entries_map [of files add_path "\<lambda>path. the (add_path path)"] add files ne by (simp add: provide_def)
  moreover have fst: "map fst ?coll = map fst files" by (simp add: case_prod_unfold)
  moreover have "sorted (map fst files)" using c(1) by (induction files) (auto simp: less_eq_prod_def)
  moreover have "distinct (map fst files)"
    using named_paths_fst [OF assms(1)] c(2) by (metis mset_eq_imp_distinct_iff mset_map)
  moreover have "set ?coll = (\<lambda>(p, c). (join ''/'' p, blake c)) ` set (tree_files [] (Dir entries))"
    unfolding set_map set named_paths_def image_image using assms(4)
    by (intro image_cong) auto
  ultimately show ?thesis by metis
qed

lemma file_at_provided:
  assumes "tree_ok (Dir entries)" "distinct (map fst coll)" "(p, c) \<in> set (tree_files [] (Dir entries))"
    "set coll = (\<lambda>(p, c). (join ''/'' p, blake c)) ` set (tree_files [] (Dir entries))"
  shows "file_at coll (path_name (join ''/'' p)) = Some (blake c)"
proof -
  have mem: "(join ''/'' p, blake c) \<in> set coll" using assms(3,4) by force
  have "\<not> starts_with (join ''/'' q) (join ''/'' p @ ''/'')" if "(q, c') \<in> set (tree_files [] (Dir entries))" for q c'
  proof
    assume "starts_with (join ''/'' q) (join ''/'' p @ ''/'')"
    then obtain rest where "join ''/'' q = join ''/'' p @ CHR ''/'' # rest" by (auto simp: starts_with_iff)
    then have "q = p @ split_on CHR ''/'' rest"
      using joined_name [OF assms(1) that] joined_name [OF assms(1,3)] split_join_append [of p "CHR ''/''" rest]
        tree_paths [OF assms(3,1)] by (fastforce simp: path_ok_def)
    with tree_unique [OF assms(3) _ assms(1), of "split_on CHR ''/'' rest" c'] that show False by simp
  qed
  with assms(4) have "\<forall>(name, h) \<in> set coll. \<not> starts_with name (join ''/'' p @ ''/'')" by auto
  with mem assms(2) show ?thesis
    using joined_name(3) [OF assms(1,3)] by (simp add: file_at_Some path_name_def map_of_eq_Some_iff)
qed

section \<open>From the directory to the browser\<close>

text \<open>
  C13. A provided directory is what the gateway serves. For a directory that can be read and has a file, at any depth and
  in whatever order the system lists it, the program ends with a collection that names exactly the files
  below the directory, sorted and each once. When the gateway has read that collection, a plain
  request for the path of any of these files is answered with status 200, the length of the file and its
  bytes, provided a provider streams them: no file is hidden by a directory, by another file or by the order.
\<close>

theorem provided_files_served:
  assumes "tree_ok (Dir entries)" "readable (Dir entries)" "tree_files [] (Dir entries) \<noteq> []"
    "\<And>p c. (p, c) \<in> set (tree_files [] (Dir entries)) \<Longrightarrow> add_path p = Some (blake c) \<and> blobs (blake c) = c"
    "verified_env blobs env" "short_env env" "parse_path_hash (hx_ids x) encoded = Inr hash" "plain_request headers"
  shows "\<exists>coll. provide add_path root_name (Dir entries) = Inr coll \<and> sorted (map fst coll) \<and> distinct (map fst coll) \<and>
    set coll = (\<lambda>(p, c). (join ''/'' p, blake c)) ` set (tree_files [] (Dir entries)) \<and>
    (\<forall>conn g' p c sz prefix. collection_for G env hash (hinted_gateway x G env hash None g) = (Inr (conn, coll), g') \<and>
       (p, c) \<in> set (tree_files [] (Dir entries)) \<and> ge_sniff env conn (blake c) = Some (Inr (sz, prefix)) \<and>
       streams_blob (hx_chunks x) c (ge_fetch env conn (blake c)) sz \<longrightarrow>
       (\<exists>resp. fst (collection_path x G env encoded (join ''/'' p) None subdomain GET headers g) = Inr (Reply resp) \<and>
          rs_status resp = 200 \<and> map_of (rs_headers resp) ''content-length'' = Some (decimal (length c)) \<and>
          (if c = [] then rs_body resp = EmptyBody
           else \<exists>pieces. rs_body resp = Streamed pieces None \<and> concat pieces = c)))"
proof -
  obtain coll where coll: "provide add_path root_name (Dir entries) = Inr coll" "sorted (map fst coll)" "distinct (map fst coll)"
      "set coll = (\<lambda>(p, c). (join ''/'' p, blake c)) ` set (tree_files [] (Dir entries))"
    using provide_collection [OF assms(1-3)] assms(4) by blast
  have "\<exists>resp. fst (collection_path x G env encoded (join ''/'' p) None subdomain GET headers g) = Inr (Reply resp) \<and>
      rs_status resp = 200 \<and> map_of (rs_headers resp) ''content-length'' = Some (decimal (length c)) \<and>
      (if c = [] then rs_body resp = EmptyBody else \<exists>pieces. rs_body resp = Streamed pieces None \<and> concat pieces = c)"
    if "collection_for G env hash (hinted_gateway x G env hash None g) = (Inr (conn, coll), g')"
      "(p, c) \<in> set (tree_files [] (Dir entries))" "ge_sniff env conn (blake c) = Some (Inr (sz, prefix))"
      "streams_blob (hx_chunks x) c (ge_fetch env conn (blake c)) sz" for conn g' p c sz prefix
  proof -
    have blob: "blobs (blake c) = c" using assms(4) [OF that(2)] by simp
    from path_serves_all [OF assms(5-7) that(1) assms(8) file_at_provided [OF assms(1) coll(3) that(2) coll(4)] that(3),
        unfolded blob, OF that(4)] show ?thesis .
  qed
  with coll show ?thesis by blast
qed

definition sample_dir :: "(string \<times> fs_node) list" where
  "sample_dir = [(''b.txt'', File [1, 2, 3, 4]), (''a'', Dir [(''c'', File [1, 2, 3, 4]), (''s'', Other)]), (''e'', Dir [])]"

definition providing_gateway where
  "providing_gateway = sample_gateway\<lparr>gw_collections := (9, [(sample_key, (7, [(''a/c'', [2]), (''b.txt'', [2])]))])\<rparr>"

lemma sample_provided: "provide (\<lambda>_. Some [2]) None (Dir sample_dir) = Inr [(''a/c'', [2]), (''b.txt'', [2])]"
  by code_simp

theorem provided_files_served_witness:
  "\<exists>resp pieces. fst (collection_path sample_ext sample_ops serving_env (replicate 52 CHR ''y'') (join ''/'' [''a'', ''c'']) None False GET
      sample_request providing_gateway) = Inr (Reply resp) \<and>
    rs_status resp = 200 \<and> rs_body resp = Streamed pieces None \<and> concat pieces = [1, 2, 3, 4]"
proof -
  let ?blobs = "\<lambda>_ :: hash. [1, 2, 3, 4] :: bytes" and ?coll = "[(''a/c'', [2]), (''b.txt'', [2])]"
  have env: "verified_env ?blobs serving_env" "short_env serving_env"
    by (auto simp: verified_env_def short_env_def serving_env_def sample_env_def authentic_provider_def sample_fetch_def
        authentic_def leaf_of_def byte_slice_def)
  have key: "parse_path_hash (hx_ids sample_ext) (replicate 52 CHR ''y'') = Inr sample_key"
    by (simp add: parse_path_hash_def sample_ext_def parse_z32_bytes_def sample_key_def)
  have plain: "plain_request sample_request" by (simp add: plain_request_def sample_request_def)
  have dir: "tree_ok (Dir sample_dir)" "readable (Dir sample_dir)" "tree_files [] (Dir sample_dir) \<noteq> []"
      "(p, c) \<in> set (tree_files [] (Dir sample_dir)) \<Longrightarrow> Some [2] = Some [2] \<and> [1, 2, 3, 4] = c"
      "([''a'', ''c''], [1, 2, 3, 4]) \<in> set (tree_files [] (Dir sample_dir))" for p c
    by (auto simp: sample_dir_def tree_files.simps)
  obtain g' where coll: "collection_for sample_ops serving_env sample_key
      (hinted_gateway sample_ext sample_ops serving_env sample_key None providing_gateway) = (Inr (7, ?coll), g')"
    by (simp add: collection_for_def hinted_gateway_def add_from_query_def parse_query_def sample_ops_def serving_env_def
        sample_env_def providing_gateway_def sample_gateway_def list_lru_def lru_get_def Let_def)
  have fetch: "ge_sniff serving_env 7 [2] = Some (Inr (4, [1, 2, 3, 4]))"
      "streams_blob (hx_chunks sample_ext) [1, 2, 3, 4] (ge_fetch serving_env 7 [2]) 4"
    by (simp_all add: streams_blob_def serving_env_def sample_fetch_def)
  have only: "coll = ?coll" if "provide (\<lambda>_. Some [2]) None (Dir sample_dir) = Inr coll" for coll
    using that sample_provided by simp
  from provided_files_served [where add_path = "\<lambda>_. Some [2]" and blake = "\<lambda>_. [2]" and root_name = None and G = sample_ops
      and g = providing_gateway and subdomain = False, OF dir(1-4) env key plain] coll fetch dir(5)
  show ?thesis by (fastforce dest!: only)
qed

end
