(* ===== verification/Resolver.thy ===== *)
theory Resolver
  imports Discovery
begin

text \<open>
  Resolving an infohash to endpoints, \<open>iroh-mainline-endpoint-discovery/src/resolver.rs\<close>: the
  stream that looks peers up in the address index as Mainline returns them, and the one-shot
  variant. Lookups in the index and batches of peers arrive in any order.
\<close>

section \<open>The stream\<close>

definition MAX_INDEX_LOOKUPS :: usize where "MAX_INDEX_LOOKUPS = 16"
definition MAX_QUEUED_PEERS :: usize where "MAX_QUEUED_PEERS = 64"

record resolving =
  pending_peers :: "socket_addr_v4 list"
  lookups :: "socket_addr_v4 list"
  peers_done :: bool
  found :: "bytes list"

definition resolving_start :: resolving where
  "resolving_start = \<lparr>pending_peers = [], lookups = [], peers_done = False, found = []\<rparr>"

text \<open>The inner loop that starts lookups while fewer than sixteen run.\<close>

definition start_lookups :: "resolving \<Rightarrow> resolving" where
  "start_lookups r =
     (let n = MAX_INDEX_LOOKUPS - length (lookups r)
      in r\<lparr>pending_peers := drop n (pending_peers r), lookups := lookups r @ take n (pending_peers r)\<rparr>)"

definition stream_ended :: "resolving \<Rightarrow> bool" where
  "stream_ended r \<longleftrightarrow> peers_done r \<and> pending_peers r = [] \<and> lookups r = []"

definition poll_peers :: "resolving \<Rightarrow> bool" where
  "poll_peers r \<longleftrightarrow> \<not> peers_done r \<and> length (pending_peers r) < MAX_QUEUED_PEERS"

text \<open>The two branches of the select: a batch, or \<open>None\<close> at the end of the peers; the lookup at an index.\<close>

definition on_batch :: "socket_addr_v4 list option \<Rightarrow> resolving \<Rightarrow> resolving" where
  "on_batch batch r =
     (case batch of
        Some peers \<Rightarrow> r\<lparr>pending_peers := pending_peers r @ peers\<rparr>
      | None \<Rightarrow> r\<lparr>peers_done := True\<rparr>)"

definition on_lookup :: "nat \<Rightarrow> 'e + signed_record list \<Rightarrow> resolving \<Rightarrow> resolving" where
  "on_lookup i result r =
     r\<lparr>lookups := take i (lookups r) @ drop (Suc i) (lookups r),
       found := found r @ (case result of Inr records \<Rightarrow> map endpoint_id records | Inl _ \<Rightarrow> [])\<rparr>"

text \<open>One turn of the loop; \<open>index peer\<close> is what the index answers.\<close>

inductive resolve_step :: "(socket_addr_v4 \<Rightarrow> 'e + signed_record list) \<Rightarrow> resolving \<Rightarrow> resolving \<Rightarrow> bool" for index where
  batch: "\<not> stream_ended (start_lookups r) \<Longrightarrow> poll_peers (start_lookups r) \<Longrightarrow>
    resolve_step index r (on_batch b (start_lookups r))"
| lookup: "\<not> stream_ended (start_lookups r) \<Longrightarrow> i < length (lookups (start_lookups r)) \<Longrightarrow>
    resolve_step index r (on_lookup i (index (lookups (start_lookups r) ! i)) (start_lookups r))"

section \<open>All at once\<close>

text \<open>
  \<open>joined\<close> are the finished lookups in the order they end, \<open>None\<close> for a task that failed. The error
  returned is the last one, when no lookup succeeded.
\<close>

fun join_lookups :: "('e + signed_record list) option list \<Rightarrow> bytes fset \<Rightarrow> bool \<Rightarrow> 'e option \<Rightarrow>
    bytes fset \<times> bool \<times> 'e option" where
  "join_lookups [] ids any_ok last_err = (ids, any_ok, last_err)"
| "join_lookups (Some (Inr records) # joined) ids any_ok last_err =
     join_lookups joined (ids |\<union>| fset_of_list (map endpoint_id records)) True last_err"
| "join_lookups (Some (Inl err) # joined) ids any_ok last_err = join_lookups joined ids any_ok (Some err)"
| "join_lookups (None # joined) ids any_ok last_err = join_lookups joined ids any_ok last_err"

text \<open>The peers form a set; \<open>sort_ids\<close> sorts endpoint identifiers by their bytes.\<close>

definition resolve_peers :: "(bytes fset \<Rightarrow> bytes list) \<Rightarrow> ('e + signed_record list) option list \<Rightarrow> 'e + bytes list" where
  "resolve_peers sort_ids joined =
     (let (ids, any_ok, last_err) = join_lookups joined {||} False None
      in case last_err of
           Some err \<Rightarrow> if \<not> any_ok then Inl err else Inr (sort_ids ids)
         | None \<Rightarrow> Inr (sort_ids ids))"

section \<open>Until the node is gone\<close>

text \<open>
  The stream that repeats the lookup. A round is what one stream yielded and whether the Mainline node
  answered after it; the result is what the consumer sees, and whether the stream has ended.
\<close>

fun resolve_continuously :: "(bytes list \<times> bool) list \<Rightarrow> bytes list \<times> bool" where
  "resolve_continuously [] = ([], False)"
| "resolve_continuously ((ids, alive) # rounds) =
     (if alive then apfst ((@) ids) (resolve_continuously rounds) else (ids, True))"

section \<open>Lemmas\<close>

lemma resolve_continuously_ends: "snd (resolve_continuously rounds) \<longleftrightarrow> (\<exists>(ids, alive) \<in> set rounds. \<not> alive)"
  by (induction rounds rule: resolve_continuously.induct) auto

lemma resolve_continuously_yields:
  "fst (resolve_continuously (rounds @ [r])) =
     (if snd (resolve_continuously rounds) then fst (resolve_continuously rounds)
      else fst (resolve_continuously rounds) @ fst r)"
  by (induction rounds rule: resolve_continuously.induct) (cases r, auto)

text \<open>
  The work of the stream: what Mainline has returned so far is waiting, being looked up, or done, and
  what was found are the endpoints of the records of peers that are done.
\<close>

definition resolving_ok :: "(socket_addr_v4 \<Rightarrow> 'e + signed_record list) \<Rightarrow> socket_addr_v4 list \<Rightarrow> socket_addr_v4 list \<Rightarrow>
    resolving \<Rightarrow> bool" where
  "resolving_ok index peers finished r \<longleftrightarrow> length (lookups r) \<le> MAX_INDEX_LOOKUPS \<and>
     mset peers = mset (pending_peers r) + mset (lookups r) + mset finished \<and>
     found r = concat (map (\<lambda>p. case index p of Inr records \<Rightarrow> map endpoint_id records | Inl _ \<Rightarrow> []) finished)"

lemma resolving_start_ok: "resolving_ok index [] [] resolving_start"
  by (simp add: resolving_ok_def resolving_start_def)

lemma start_lookups_ok:
  assumes "resolving_ok index peers finished r"
  shows "resolving_ok index peers finished (start_lookups r)"
proof -
  let ?n = "MAX_INDEX_LOOKUPS - length (lookups r)"
  have "mset (drop ?n (pending_peers r)) + mset (take ?n (pending_peers r)) = mset (pending_peers r)"
    by (metis add.commute append_take_drop_id mset_append)
  with assms show ?thesis by (auto simp: resolving_ok_def start_lookups_def Let_def ac_simps)
qed

lemma mset_remove_nth: "i < length xs \<Longrightarrow> mset xs = add_mset (xs ! i) (mset (take i xs @ drop (Suc i) xs))"
  by (metis id_take_nth_drop mset.simps(2) mset_append union_mset_add_mset_right)

lemma resolve_step_ok:
  assumes "resolve_step index r r'" "resolving_ok index peers finished r"
  shows "\<exists>peers' finished'. resolving_ok index (peers @ peers') (finished @ finished') r'"
  using assms(1)
proof cases
  case (batch b)
  from start_lookups_ok [OF assms(2)] have "resolving_ok index (peers @ (case b of None \<Rightarrow> [] | Some ps \<Rightarrow> ps)) (finished @ []) r'"
    by (auto simp: batch(1) resolving_ok_def on_batch_def split: option.split)
  then show ?thesis by blast
next
  case (lookup i)
  have "resolving_ok index (peers @ []) (finished @ [lookups (start_lookups r) ! i]) r'"
    using start_lookups_ok [OF assms(2)] lookup(3) mset_remove_nth [OF lookup(3)]
    by (auto simp: lookup(1) resolving_ok_def on_lookup_def)
  then show ?thesis by blast
qed

text \<open>All lookups answered: the endpoints of every record, and an error only when none succeeded.\<close>

lemma join_lookups_spec:
  "join_lookups joined ids ok err = (ids', ok', err') \<Longrightarrow>
     fset ids' = fset ids \<union> {endpoint_id r | r records. Some (Inr records) \<in> set joined \<and> r \<in> set records} \<and>
     (ok' \<longleftrightarrow> ok \<or> (\<exists>records. Some (Inr records) \<in> set joined)) \<and>
     (err' = None \<longleftrightarrow> err = None \<and> (\<forall>e. Some (Inl e) \<notin> set joined))"
  by (induction joined ids ok err rule: join_lookups.induct) (fastforce simp: fset_of_list.rep_eq)+

lemma resolve_peers_error:
  assumes "resolve_peers sort_ids joined = Inl e"
  shows "\<forall>records. Some (Inr records) \<notin> set joined"
proof -
  obtain ids ok err where j: "join_lookups joined {||} False None = (ids, ok, err)" by (metis prod_cases3)
  with assms have "\<not> ok" by (auto simp: resolve_peers_def split: option.splits if_splits)
  with join_lookups_spec [OF j] show ?thesis by blast
qed

end
