(* ===== verification/Examples.thy ===== *)
theory Examples
  imports Provide Programs Pkarr_Redirect Resolver
begin

text \<open>
  The logic of the other example programs: keys that are kept between runs, reading a hash from
  what a user types, resolving a Pkarr name and what it points to, collecting providers, and when
  gossip looks for members. Theory \<open>Provide\<close> has the walk of \<open>provide.rs\<close>. Files are under
  \<open>iroh-mainline-endpoint-discovery/examples\<close> and \<open>iroh-link-gateway/examples\<close>.
\<close>

section \<open>Keys\<close>

text \<open>
  \<open>provide.rs\<close> takes the secret of the name from the environment, which can hold something that is not text
  (\<open>Inl\<close>), or makes one and prints how to set it.
\<close>

datatype key_error = SecretNotText | SecretNotHex | KeyFile | KeyLength

definition PKARR_SECRET :: string where "PKARR_SECRET = ''PKARR_SECRET''"

definition secret_line :: "(bytes \<Rightarrow> string) \<Rightarrow> bytes \<Rightarrow> string" where
  "secret_line enc secret = PKARR_SECRET @ ''='' @ enc secret"

definition pkarr_key :: "(string \<Rightarrow> bytes option) \<Rightarrow> (bytes \<Rightarrow> string) \<Rightarrow> bytes \<Rightarrow> (unit + string) option \<Rightarrow>
    string list \<times> (key_error + bytes)" where
  "pkarr_key hex enc random var =
     (case var of
        None \<Rightarrow> ([secret_line enc random], Inr random)
      | Some (Inl _) \<Rightarrow> ([], Inl SecretNotText)
      | Some (Inr v) \<Rightarrow>
          (case hex v of
             None \<Rightarrow> ([], Inl SecretNotHex)
           | Some bs \<Rightarrow> ([], if length bs = 32 then Inr bs else Inl SecretNotHex)))"

text \<open>
  The key file of the Pkarr examples: created with a new secret when there is none, read otherwise. \<open>ki_written\<close> is
  how much a failed write left in the file.
\<close>

record key_io =
  ki_create :: bool
  ki_written :: "nat option"
  ki_sync :: bool
  ki_read :: bool

definition load_key :: "bytes \<Rightarrow> key_io \<Rightarrow> string option \<Rightarrow> file_system \<Rightarrow> (key_error + bytes) \<times> file_system" where
  "load_key random io path fs =
     (case path of
        None \<Rightarrow> (Inr random, fs)
      | Some p \<Rightarrow>
          (case fs p of
             None \<Rightarrow>
               if \<not> ki_create io then (Inl KeyFile, fs)
               else (case ki_written io of
                       Some n \<Rightarrow> (Inl KeyFile, fs(p \<mapsto> take n random))
                     | None \<Rightarrow> (if ki_sync io then Inr random else Inl KeyFile, fs(p \<mapsto> random)))
           | Some contents \<Rightarrow>
               if \<not> ki_read io then (Inl KeyFile, fs)
               else (let secret = take 33 contents
                     in (if length secret = 32 then Inr secret else Inl KeyLength, fs))))"

text \<open>The line that is printed, set in the environment, gives the same key.\<close>

lemma printed_secret_reused:
  assumes "pkarr_key hex enc random None = (lines, Inr secret)" "hex (enc secret) = Some secret" "length secret = 32"
  shows "\<exists>v. lines = [PKARR_SECRET @ ''='' @ v] \<and> pkarr_key hex enc random' (Some (Inr v)) = ([], Inr secret)"
  using assms by (auto simp: pkarr_key_def secret_line_def)

text \<open>
  A key that was returned for a file is the one every later run reads from it, and an existing file is
  never changed. After a write that failed the file is there but every later run refuses it.
\<close>

lemma load_key_kept:
  assumes "load_key random io (Some p) fs = (Inr key, fs')" "length random = 32" "ki_read io'"
  shows "load_key random' io' (Some p) fs' = (Inr key, fs')"
  using assms by (auto simp: load_key_def Let_def split: option.splits if_splits)

lemma load_key_preserves: "load_key random io path fs = (r, fs') \<Longrightarrow> fs q = Some bs \<Longrightarrow> fs' q = Some bs"
  by (auto simp: load_key_def Let_def split: option.splits if_splits)

lemma load_key_interrupted:
  assumes "fs p = None" "ki_create io" "ki_written io = Some n" "n < 32" "load_key random io (Some p) fs = (r, fs')"
  shows "r = Inl KeyFile" "ki_read io' \<Longrightarrow> load_key random' io' (Some p) fs' = (Inl KeyLength, fs')"
  using assms by (auto simp: load_key_def Let_def)

section \<open>Hashes and links\<close>

text \<open>\<open>split_once("://")\<close>\<close>

fun split_scheme :: "string \<Rightarrow> (string \<times> string) option" where
  "split_scheme [] = None"
| "split_scheme (c # cs) =
     (case strip_prefix ''://'' (c # cs) of
        Some rest \<Rightarrow> Some ([], rest)
      | None \<Rightarrow> map_option (apfst ((#) c)) (split_scheme cs))"

datatype hash_error = NotHttp | NotContentHost | NotHash

definition hash_text :: "string \<Rightarrow> hash_error + string" where
  "hash_text input =
     (let v = trim input
      in case split_scheme v of
           None \<Rightarrow> Inr v
         | Some (scheme, rest) \<Rightarrow>
             if scheme \<notin> {''http'', ''https''} then Inl NotHttp
             else (case strip_suffix ''.blake3.net'' (takeWhile (\<lambda>c. c \<notin> {CHR ''/'', CHR ''?'', CHR ''#''}) rest) of
                     None \<Rightarrow> Inl NotContentHost
                   | Some label \<Rightarrow> Inr label))"

definition parse_hash :: "(string \<Rightarrow> bytes option) \<Rightarrow> (string \<Rightarrow> bytes option) \<Rightarrow> string \<Rightarrow> hash_error + hash" where
  "parse_hash hex unz32 input =
     (case hash_text input of
        Inl e \<Rightarrow> Inl e
      | Inr v \<Rightarrow>
          (case (if length v = 64 then hex v else unz32 v) of
             None \<Rightarrow> Inl NotHash
           | Some bs \<Rightarrow> if length bs = 32 then Inr bs else Inl NotHash))"

text \<open>The links that \<open>provide.rs\<close> prints, for a collection and for a name.\<close>

definition blake3_links :: "string \<Rightarrow> string list" where
  "blake3_links z = [''https://'' @ z @ ''.'' @ BLAKE3_DOMAIN @ ''/'', ''http://'' @ z @ ''.blake3.localhost:45475/'']"

definition pkarr_links :: "string \<Rightarrow> string list" where
  "pkarr_links name = [''https://'' @ name @ ''.pkarr.net/'', ''http://'' @ name @ ''.pkarr.localhost:45475/'']"

lemma alphanumeric_plain:
  assumes "list_all is_alphanumeric z"
  shows "\<forall>c \<in> set z. \<not> is_space c" "CHR '':'' \<notin> set z" "\<forall>c \<in> set z. c \<notin> {CHR ''/'', CHR ''?'', CHR ''#''}"
  using assms by (auto simp: list_all_iff is_alphanumeric_def is_digit_def is_space_def)

lemma split_scheme_none: "CHR '':'' \<notin> set v \<Longrightarrow> split_scheme v = None"
  by (induction v) (auto simp: strip_prefix_def split: option.splits)

lemma split_scheme_first: "CHR '':'' \<notin> set a \<Longrightarrow> split_scheme (a @ ''://'' @ rest) = Some (a, rest)"
  by (induction a) (auto simp: strip_prefix_def)

text \<open>Every form in which a hash is written is read as that hash: a link with any path, z-base-32, and hexadecimal.\<close>

definition content_link :: "string \<Rightarrow> string \<Rightarrow> string \<Rightarrow> string" where
  "content_link scheme z rest = scheme @ ''://'' @ z @ ''.blake3.net'' @ ''/'' @ rest"

lemma content_link_text:
  assumes "list_all is_alphanumeric z" "\<forall>c \<in> set rest. \<not> is_space c" "scheme \<in> {''http'', ''https''}"
  shows "hash_text (content_link scheme z rest) = Inr z"
proof -
  have scheme: "CHR '':'' \<notin> set scheme" "\<forall>c \<in> set scheme. \<not> is_space c" using assms(3) by (auto simp: is_space_def)
  have plain: "\<forall>c \<in> set ''://''. \<not> is_space c" "\<forall>c \<in> set ''.blake3.net''. \<not> is_space c" "\<forall>c \<in> set ''/''. \<not> is_space c"
    by (simp_all add: is_space_def)
  have "\<forall>c \<in> set (content_link scheme z rest). \<not> is_space c"
    using alphanumeric_plain(1) [OF assms(1)] assms(2) scheme(2) plain unfolding content_link_def set_append by blast
  then have trim: "trim (content_link scheme z rest) = content_link scheme z rest" by (rule trim_id)
  have split: "split_scheme (content_link scheme z rest) = Some (scheme, (z @ ''.blake3.net'') @ ''/'' @ rest)"
    unfolding content_link_def split_scheme_first [OF scheme(1)] by simp
  have host: "takeWhile (\<lambda>c. c \<notin> {CHR ''/'', CHR ''?'', CHR ''#''}) ((z @ ''.blake3.net'') @ ''/'' @ rest) = z @ ''.blake3.net''"
    using alphanumeric_plain(3) [OF assms(1)] by (subst takeWhile_append2) auto
  have suffix: "strip_suffix ''.blake3.net'' (z @ ''.blake3.net'') = Some z" by (simp add: strip_suffix_Some)
  show ?thesis
    unfolding hash_text_def Let_def trim split option.case prod.case host suffix using assms(3) by auto
qed

lemma parse_hash_link:
  assumes "z32_ok x h" "\<forall>c \<in> set rest. \<not> is_space c" "scheme \<in> {''http'', ''https''}"
  shows "parse_hash hex (px_unz32 x) (content_link scheme (px_z32 x h) rest) = Inr h"
  using assms content_link_text [of "px_z32 x h" rest scheme] by (simp add: parse_hash_def z32_ok_def)

text \<open>The first link that is printed is one that is read back.\<close>

lemma blake3_link_read: "hd (blake3_links z) = content_link ''https'' z []"
  by (simp add: blake3_links_def content_link_def BLAKE3_DOMAIN_def)

lemma parse_hash_plain:
  assumes "list_all is_alphanumeric v"
  shows "parse_hash hex unz32 v = (case (if length v = 64 then hex v else unz32 v) of
    None \<Rightarrow> Inl NotHash | Some bs \<Rightarrow> if length bs = 32 then Inr bs else Inl NotHash)"
  using alphanumeric_plain [OF assms] trim_id [of v] split_scheme_none [of v]
  by (simp add: parse_hash_def hash_text_def)

text \<open>
  What \<open>provide.rs\<close> announces and prints: every blob and the collection. \<open>enc\<close> is z-base-32.
\<close>

definition provide_infohashes :: "hash_ext \<Rightarrow> collection \<Rightarrow> hash \<Rightarrow> bytes list" where
  "provide_infohashes h entries collection_hash =
     map (\<lambda>(name, hash). infohash_from_blake3 h hash) entries @ [infohash_from_blake3 h collection_hash]"

definition provide_lines :: "(bytes \<Rightarrow> string) \<Rightarrow> collection \<Rightarrow> hash \<Rightarrow> string list" where
  "provide_lines enc entries collection_hash =
     [''Serving '' @ decimal (length entries) @ '' blobs:''] @
     map (\<lambda>(name, hash). ''    '' @ enc hash @ ''  '' @ name) entries @
     [''    '' @ enc collection_hash @ ''  (collection)'', [], ''Blake3 gateway URLs:''] @
     map (\<lambda>l. ''    '' @ l) (blake3_links (enc collection_hash))"

text \<open>No blob of the collection is left without an announcement.\<close>

lemma provide_announces:
  "infohash_from_blake3 h hash \<in> set (provide_infohashes h entries collection_hash)"
  if "hash \<in> snd ` set entries \<or> hash = collection_hash"
  using that by (force simp: provide_infohashes_def)

text \<open>The second links reach the local gateway: their hosts are rewritten to the routes of the hash and of the name.\<close>

definition link_host :: "string \<Rightarrow> string" where
  "link_host l = takeWhile (\<lambda>c. c \<noteq> CHR ''/'') (drop (length ''http://'') l)"

lemma link_host_of:
  assumes "list_all is_alphanumeric z" "CHR ''/'' \<notin> set d"
  shows "link_host (''http://'' @ z @ d @ ''/'') = z @ d"
  using alphanumeric_plain(3) [OF assms(1)] assms(2) by (auto simp: link_host_def takeWhile_append takeWhile_eq_all_conv)

lemma lowercase_append: "to_ascii_lowercase (a @ b) = to_ascii_lowercase a @ to_ascii_lowercase b"
  by (simp add: to_ascii_lowercase_def)

lemma request_host_port: "CHR '':'' \<notin> set port \<Longrightarrow> request_host None (Some (h @ '':'' @ port)) = Some (to_ascii_lowercase h)"
  using rsplit_once_Some [of "CHR '':''" "h @ '':'' @ port" h port] by (simp add: request_host_def)

lemma local_links_rewritten:
  assumes "z32_ok x k" "to_ascii_lowercase (px_z32 x k) = px_z32 x k" "\<And>u. uri_ok u"
  shows "rewrite_subdomain (px_unz32 x) (px_z32 x) uri_ok None (Some (link_host (blake3_links (px_z32 x k) ! 1))) (Some ''/'') =
      Some (''/blake3/'' @ px_z32 x k)"
    "rewrite_subdomain (px_unz32 x) (px_z32 x) uri_ok None (Some (link_host (pkarr_links (px_z32 x k) ! 1))) (Some ''/'') =
      Some (''/pkarr/'' @ px_z32 x k)"
proof -
  let ?z = "px_z32 x k"
  have z: "list_all is_alphanumeric ?z" "parse_z32_bytes (px_unz32 x) (px_z32 x) ?z = Some k"
    using assms(1) parse_z32_ok by (auto simp: z32_ok_def)
  have host: "link_host (blake3_links ?z ! 1) = (?z @ ''.blake3.localhost'') @ '':'' @ ''45475''"
    "link_host (pkarr_links ?z ! 1) = (?z @ ''.pkarr.localhost'') @ '':'' @ ''45475''"
    using link_host_of [OF z(1), of "''.blake3.localhost:45475''"] link_host_of [OF z(1), of "''.pkarr.localhost:45475''"]
    by (simp_all add: blake3_links_def pkarr_links_def)
  have port: "CHR '':'' \<notin> set ''45475''" by simp
  have lower: "to_ascii_lowercase (?z @ ''.blake3.localhost'') = ?z @ ''.blake3.localhost''"
    "to_ascii_lowercase (?z @ ''.pkarr.localhost'') = ?z @ ''.pkarr.localhost''"
    unfolding lowercase_append assms(2) by (simp_all add: to_ascii_lowercase_def)
  have strip: "strip_suffix ''.blake3.localhost'' (?z @ ''.blake3.localhost'') = Some ?z"
    "strip_suffix ''.pkarr.localhost'' (?z @ ''.pkarr.localhost'') = Some ?z"
    "strip_suffix ''.blake3.localhost'' (?z @ ''.pkarr.localhost'') = None"
    by (simp_all add: strip_suffix_Some) (simp add: strip_suffix_def strip_prefix_def)
  have route: "find_route (px_unz32 x) (px_z32 x) SUBDOMAIN_ROUTES (?z @ ''.blake3.localhost'') = Some (?z, ''blake3'')"
    "find_route (px_unz32 x) (px_z32 x) SUBDOMAIN_ROUTES (?z @ ''.pkarr.localhost'') = Some (?z, ''pkarr'')"
    using z(2) strip by (simp_all add: SUBDOMAIN_ROUTES_def)
  show "rewrite_subdomain (px_unz32 x) (px_z32 x) uri_ok None (Some (link_host (blake3_links ?z ! 1))) (Some ''/'') = Some (''/blake3/'' @ ?z)"
    unfolding rewrite_subdomain_def host request_host_port [OF port] lower using route assms(3) by (simp add: strip_prefix_def)
  show "rewrite_subdomain (px_unz32 x) (px_z32 x) uri_ok None (Some (link_host (pkarr_links ?z ! 1))) (Some ''/'') = Some (''/pkarr/'' @ ?z)"
    unfolding rewrite_subdomain_def host request_host_port [OF port] lower using route assms(3) by (simp add: strip_prefix_def)
qed

section \<open>From a name to its content\<close>

text \<open>
  \<open>pkarr-publish-resolve.rs\<close>: the receiving side knows only the name. \<open>item\<close> is the newest item Mainline returned,
  whose signature it verified.
\<close>

datatype receive_error = NoRecord | BadPacket | NoApex | NotContentName | BadLabel | LabelLength | NoIndex | DownloadFailed

fun apex_target :: "string \<Rightarrow> pk_packet \<Rightarrow> string option" where
  "apex_target zone [] = None"
| "apex_target zone (r # rs) =
     (if trim_end_dots (pk_name r) \<noteq> zone then apex_target zone rs
      else case pk_rdata r of HTTPS s \<Rightarrow> Some (sv_target s) | OtherRdata \<Rightarrow> apex_target zone rs)"

definition resolve_target :: "pkarr_ext \<Rightarrow> bytes \<Rightarrow> mutable_item option \<Rightarrow> receive_error + string" where
  "resolve_target x public item =
     (case item of
        None \<Rightarrow> Inl NoRecord
      | Some item \<Rightarrow>
          (case px_parse x (mi_value item) of
             None \<Rightarrow> Inl BadPacket
           | Some packet \<Rightarrow>
               (case apex_target (pkarr_name x public) packet of None \<Rightarrow> Inl NoApex | Some t \<Rightarrow> Inr t)))"

definition target_hash :: "pkarr_ext \<Rightarrow> string \<Rightarrow> receive_error + hash" where
  "target_hash x t =
     (case strip_suffix (''.'' @ BLAKE3_DOMAIN) (to_ascii_lowercase (trim_end_dots t)) of
        None \<Rightarrow> Inl NotContentName
      | Some label \<Rightarrow>
          (case px_unz32 x label of
             None \<Rightarrow> Inl BadLabel
           | Some bs \<Rightarrow> if length bs = 32 then Inr bs else Inl LabelLength))"

text \<open>
  \<open>index\<close> says whether an index server was found; \<open>download\<close> is what the blob store reads after the download. Starting the
  DHT client, the endpoint and the store, and closing them, is left out.
\<close>

definition receive :: "pkarr_ext \<Rightarrow> bytes \<Rightarrow> mutable_item option \<Rightarrow> bool \<Rightarrow> (hash \<Rightarrow> bytes option) \<Rightarrow> receive_error + bytes" where
  "receive x public item index download =
     (case resolve_target x public item of
        Inl e \<Rightarrow> Inl e
      | Inr t \<Rightarrow>
          (case target_hash x t of
             Inl e \<Rightarrow> Inl e
           | Inr hash \<Rightarrow>
               if \<not> index then Inl NoIndex
               else case download hash of None \<Rightarrow> Inl DownloadFailed | Some data \<Rightarrow> Inr data))"

text \<open>
  The demonstration as a whole. \<open>None\<close> stands for a time limit that passed; \<open>publish\<close> is what \<open>publish_all\<close>
  returns and which item Mainline then has. The result says whether the program ends.
\<close>

datatype demo_error =
    AnnounceTimeout
  | SetFailed set_error
  | PublishTimeout
  | PublishFailed
  | ReceiveTimeout
  | ReceiveFailed receive_error
  | ContentDiffers

definition demo_workflow :: "pkarr_ext \<Rightarrow> (bytes \<Rightarrow> bytes) \<Rightarrow> bytes \<Rightarrow> hash \<Rightarrow> bytes \<Rightarrow> bool \<Rightarrow> bool \<Rightarrow>
    (pkarr_state \<Rightarrow> (unit + mutable_item option) option) \<Rightarrow> bool \<Rightarrow> bool \<Rightarrow> (hash \<Rightarrow> bytes option) \<Rightarrow> demo_error + bool" where
  "demo_workflow x public key hash data once announced publish in_time index download =
     (if \<not> announced then Inl AnnounceTimeout
      else case set_blake3 x public key hash pkarr_new of
        (Inl e, _) \<Rightarrow> Inl (SetFailed e)
      | (Inr _, st) \<Rightarrow>
          (case publish st of
             None \<Rightarrow> Inl PublishTimeout
           | Some (Inl _) \<Rightarrow> Inl PublishFailed
           | Some (Inr item) \<Rightarrow>
               if \<not> in_time then Inl ReceiveTimeout
               else (case receive x (public key) item index download of
                       Inl e \<Rightarrow> Inl (ReceiveFailed e)
                     | Inr received \<Rightarrow> if received \<noteq> data then Inl ContentDiffers else Inr once)))"

text \<open>
  The receiving side arrives at the hash that was published, and a demonstration in which everything answers in time
  ends with the content: no step of reading undoes one of publishing.
\<close>

lemma publish_then_receive:
  assumes "z32_ok x hash" "to_ascii_lowercase (px_z32 x hash) = px_z32 x hash"
    "trim_end_dots (px_z32 x (public key)) = px_z32 x (public key)"
    "\<And>bs. px_build x (blake3_packet x (public key) hash) = Some bs \<Longrightarrow> px_parse x bs = Some (blake3_packet x (public key) hash)"
    "set_blake3 x public key hash st = (Inr (), st')" "fmlookup (ps_packets st') (public key) = Some e" "mi_value item = pke_packet e"
  shows "\<exists>t. resolve_target x (public key) (Some item) = Inr t \<and> target_hash x t = Inr hash"
proof -
  let ?t = "px_z32 x hash @ ''.'' @ BLAKE3_DOMAIN"
  from set_blake3_packet [OF assms(5)] obtain bs where bs: "px_build x (https_packet x (public key) [] ?t) = Some bs"
    "fmlookup (ps_packets st') (public key) = Some \<lparr>pke_key = key, pke_packet = bs\<rparr>" by metis
  have val: "mi_value item = bs" using assms(6,7) bs(2) by auto
  have "resolve_target x (public key) (Some item) = Inr ?t"
    using assms(3) assms(4) [unfolded blake3_packet_def, OF bs(1)] val by (simp add: resolve_target_def https_packet_def pkarr_name_def)
  moreover have "trim_end_dots ?t = ?t" using ends_t(2) [of "px_z32 x hash @ ''.blake3.ne''"] by (simp add: BLAKE3_DOMAIN_def)
  moreover have "to_ascii_lowercase ?t = ?t"
    unfolding lowercase_append assms(2) by (simp add: to_ascii_lowercase_def BLAKE3_DOMAIN_def)
  moreover have "strip_suffix (''.'' @ BLAKE3_DOMAIN) ?t = Some (px_z32 x hash)" by (simp only: strip_suffix_Some)
  ultimately show ?thesis using assms(1) by (simp add: target_hash_def z32_ok_def)
qed

lemma demo_succeeds:
  assumes "z32_ok x hash" "to_ascii_lowercase (px_z32 x hash) = px_z32 x hash"
    "trim_end_dots (px_z32 x (public key)) = px_z32 x (public key)"
    "\<And>bs. px_build x (blake3_packet x (public key) hash) = Some bs \<Longrightarrow> px_parse x bs = Some (blake3_packet x (public key) hash)"
    "set_blake3 x public key hash pkarr_new = (Inr (), st)" "fmlookup (ps_packets st) (public key) = Some e"
    "publish st = Some (Inr (Some item))" "mi_value item = pke_packet e" "download hash = Some data"
  shows "demo_workflow x public key hash data once True publish True True download = Inr once"
  using publish_then_receive [OF assms(1-6,8)] assms(5,7,9) by (auto simp: demo_workflow_def receive_def)

text \<open>It never ends well with other content than was published.\<close>

lemma demo_checks:
  "demo_workflow x public key hash data once announced publish in_time index download = Inr ended \<Longrightarrow>
     \<exists>st item. publish st = Some (Inr item) \<and> receive x (public key) item index download = Inr data \<and> ended = once"
  by (auto simp: demo_workflow_def split: if_splits prod.splits sum.splits option.splits)

section \<open>Collecting providers\<close>

text \<open>\<open>resolve.rs\<close> prints every endpoint the stream yields once; finding none is an error.\<close>

fun print_unique :: "bytes list \<Rightarrow> bytes fset \<Rightarrow> bytes list" where
  "print_unique [] unique = []"
| "print_unique (endpoint # providers) unique =
     (if endpoint |\<in>| unique then print_unique providers unique
      else endpoint # print_unique providers (finsert endpoint unique))"

definition resolve_providers :: "bytes list \<Rightarrow> bytes list \<times> (unit + unit)" where
  "resolve_providers providers =
     (let printed = print_unique providers {||} in (printed, if printed = [] then Inl () else Inr ()))"

text \<open>
  \<open>blobs/main.rs\<close>: each round asks Mainline, then the index for every new peer, and yields the endpoints of its records.
  A round is \<open>None\<close> when Mainline cannot be asked, which ends the stream.
\<close>

type_synonym peer_lookup = "socket_addr_v4 \<Rightarrow> udp_error + signed_record list"

fun provider_batch :: "peer_lookup \<Rightarrow> socket_addr_v4 list \<Rightarrow> socket_addr_v4 fset \<Rightarrow> bytes list" where
  "provider_batch index [] asked = []"
| "provider_batch index (peer # peers) asked =
     (if peer |\<in>| asked then provider_batch index peers asked
      else (case index peer of Inl _ \<Rightarrow> [] | Inr records \<Rightarrow> map endpoint_id records) @
        provider_batch index peers (finsert peer asked))"

fun find_providers :: "(peer_lookup \<times> socket_addr_v4 list list) option list \<Rightarrow> bytes list \<times> bool" where
  "find_providers [] = ([], False)"
| "find_providers (None # rounds) = ([], True)"
| "find_providers (Some (index, batches) # rounds) =
     apfst ((@) (provider_batch index (concat batches) {||})) (find_providers rounds)"

lemma print_unique_spec:
  "set (print_unique providers unique) = set providers - fset unique \<and> distinct (print_unique providers unique)"
  by (induction providers unique rule: print_unique.induct) auto

lemma resolve_providers_spec:
  assumes "resolve_providers providers = (printed, r)"
  shows "set printed = set providers" "distinct printed" "r = Inl () \<longleftrightarrow> providers = []"
  using assms print_unique_spec [of providers "{||}"] by (auto simp: resolve_providers_def Let_def split: if_splits)

text \<open>Each peer is asked once per round, and what is yielded is what the index has for those peers.\<close>

lemma provider_batch_spec:
  "provider_batch index peers asked =
     concat (map (\<lambda>p. case index p of Inl _ \<Rightarrow> [] | Inr records \<Rightarrow> map endpoint_id records)
       (rev (remdups (rev (filter (\<lambda>p. p |\<notin>| asked) peers)))))"
proof (induction index peers asked rule: provider_batch.induct)
  case (2 index peer peers asked)
  have rem: "rev (remdups (rev (p # ps))) = p # rev (remdups (rev (filter (\<lambda>q. q \<noteq> p) ps)))" for p :: socket_addr_v4 and ps
  proof (induction ps rule: rev_induct)
    case (snoc q qs)
    then show ?case by auto
  qed simp
  have "filter (\<lambda>q. q \<noteq> peer) (filter (\<lambda>p. p |\<notin>| asked) peers) = filter (\<lambda>p. p |\<notin>| finsert peer asked) peers"
    by (auto simp: filter_filter intro: filter_cong)
  with 2 show ?case by (simp add: rem del: remdups.simps rev.simps)
qed simp

lemma find_providers_ends: "snd (find_providers rounds) \<longleftrightarrow> None \<in> set rounds"
  by (induction rounds rule: find_providers.induct) auto

section \<open>Looking for members\<close>

text \<open>
  \<open>gossip.rs\<close>: the task that looks for members offers every endpoint once, its own excepted, until the sender is gone.
  \<open>accepted\<close> says how many offers the sender takes.
\<close>

fun discover_loop :: "bytes fset \<Rightarrow> nat \<Rightarrow> bytes list \<Rightarrow> bytes list" where
  "discover_loop known accepted [] = []"
| "discover_loop known accepted (member # ids) =
     (if member |\<in>| known then discover_loop known accepted ids
      else case accepted of 0 \<Rightarrow> [member] | Suc n \<Rightarrow> member # discover_loop (finsert member known) n ids)"

definition discover :: "bytes \<Rightarrow> nat \<Rightarrow> bytes list \<Rightarrow> bytes list" where
  "discover me accepted ids = discover_loop {|me|} accepted ids"

text \<open>
  The task runs or was dropped. An event comes with what gossip says after it: how many neighbours there are, and
  whether it is joined.
\<close>

definition ENOUGH_NEIGHBORS :: nat where "ENOUGH_NEIGHBORS = 2"

datatype gossip_event = Received | NeighborUp bytes | NeighborDown bytes | Lagged

definition on_gossip :: "gossip_event \<times> nat \<times> bool \<Rightarrow> bool \<Rightarrow> bool" where
  "on_gossip e running =
     (case e of
        (NeighborUp _, neighbors, _) \<Rightarrow> if neighbors \<ge> ENOUGH_NEIGHBORS then False else running
      | (NeighborDown _, _, joined) \<Rightarrow> if \<not> joined then True else running
      | _ \<Rightarrow> running)"

lemma discover_loop_offers:
  "distinct (discover_loop known accepted ids) \<and> set (discover_loop known accepted ids) \<subseteq> set ids - fset known \<and>
     (accepted \<ge> length ids \<longrightarrow> set (discover_loop known accepted ids) = set ids - fset known)"
proof (induction ids arbitrary: known accepted)
  case (Cons m ids)
  show ?case
  proof (cases "m |\<in>| known")
    case True
    with Cons [of known accepted] show ?thesis by auto
  next
    case False
    then show ?thesis
    proof (cases accepted)
      case (Suc n)
      with Cons [of "finsert m known" n] False show ?thesis by auto
    qed simp
  qed
qed simp

lemma discover_offers:
  "distinct (discover me accepted ids)" "me \<notin> set (discover me accepted ids)"
  "accepted \<ge> length ids \<Longrightarrow> set (discover me accepted ids) = set ids - {me}"
  using discover_loop_offers [of "{|me|}" accepted ids] by (auto simp: discover_def)

text \<open>
  When gossip reports what the events say, the program looks for members whenever it has no neighbour, and
  only stops at two.
\<close>

fun neighbors_after :: "gossip_event \<Rightarrow> bytes fset \<Rightarrow> bytes fset" where
  "neighbors_after (NeighborUp member) ns = finsert member ns"
| "neighbors_after (NeighborDown member) ns = fminus ns {|member|}"
| "neighbors_after e ns = ns"

fun gossip_run :: "gossip_event list \<Rightarrow> bytes fset \<Rightarrow> bool \<Rightarrow> bytes fset \<times> bool" where
  "gossip_run [] ns running = (ns, running)"
| "gossip_run (e # es) ns running =
     (let ns = neighbors_after e ns in gossip_run es ns (on_gossip (e, fcard ns, ns \<noteq> {||}) running))"

lemma gossip_searches:
  "(ns = {||} \<longrightarrow> running) \<Longrightarrow> gossip_run es ns running = (ns', running') \<Longrightarrow> ns' = {||} \<Longrightarrow> running'"
proof (induction es ns running rule: gossip_run.induct)
  case (2 e es ns running)
  have "neighbors_after e ns = {||} \<longrightarrow>
      on_gossip (e, fcard (neighbors_after e ns), neighbors_after e ns \<noteq> {||}) running"
    using 2(2) by (cases e) (auto simp: on_gossip_def)
  from 2(1) [OF refl this] 2(3,4) show ?case by (simp add: Let_def)
qed simp

section \<open>Checks of an index\<close>

text \<open>The index of an example: the server that was given, otherwise the list of n0.\<close>

definition example_index :: "socket_addr_v4 option \<Rightarrow> builder" where
  "example_index server =
     (let b = n0_defaults builder_new in case server of Some s \<Rightarrow> with_server s b | None \<Rightarrow> b)"

fun parse_infohashes :: "hash_ext \<Rightarrow> string list \<Rightarrow> (string \<times> hash_parse_error) + bytes list" where
  "parse_infohashes h [] = Inr []"
| "parse_infohashes h (v # vs) =
     (case parse_infohash h v of
        Inl e \<Rightarrow> Inl (v, e)
      | Inr i \<Rightarrow> map_sum (\<lambda>e. e) ((#) i) (parse_infohashes h vs))"

text \<open>
  \<open>spoof/main.rs\<close>: the publisher is resolved again every five seconds, for a minute. An attempt is what the resolver
  returned and the clock after it; \<open>None\<close> when the attempts so far do not decide.
\<close>

definition RESOLVE_BUDGET :: duration where "RESOLVE_BUDGET = secs 60"

fun resolve_until :: "bytes \<Rightarrow> instant \<Rightarrow> (('e + bytes list) \<times> instant) list \<Rightarrow> (unit + unit) option" where
  "resolve_until expected deadline [] = None"
| "resolve_until expected deadline ((answer, now) # attempts) =
     (if (case answer of Inr ids \<Rightarrow> expected \<in> set ids | Inl _ \<Rightarrow> False) then Some (Inr ())
      else if now \<ge> deadline then Some (Inl ())
      else resolve_until expected deadline attempts)"

definition resolve_publisher :: "bytes \<Rightarrow> instant \<Rightarrow> (('e + bytes list) \<times> instant) list \<Rightarrow> (unit + unit) option" where
  "resolve_publisher expected start attempts = resolve_until expected (start + RESOLVE_BUDGET) attempts"

datatype spoof_error = NoPublicMapping | AttackerFailed | LookupError udp_error | ValueReplaced socket_addr_v4 | ResolveTimeout

text \<open>The demonstration after its record was published; the attacker's own publication must succeed.\<close>

definition spoof_workflow :: "bytes \<Rightarrow> socket_addr_v4 option \<Rightarrow> bool \<Rightarrow> (socket_addr_v4 \<Rightarrow> udp_error + signed_record list) \<Rightarrow>
    instant \<Rightarrow> (('e + bytes list) \<times> instant) list \<Rightarrow> (spoof_error + unit) option" where
  "spoof_workflow own observed attacker index start attempts =
     (case observed of
        None \<Rightarrow> Some (Inl NoPublicMapping)
      | Some m \<Rightarrow>
          if \<not> attacker then Some (Inl AttackerFailed)
          else (case index m of
                  Inl e \<Rightarrow> Some (Inl (LookupError e))
                | Inr records \<Rightarrow>
                    if \<not> list_ex (\<lambda>r. endpoint_id r = own) records then Some (Inl (ValueReplaced m))
                    else map_option (map_sum (\<lambda>_. ResolveTimeout) (\<lambda>u. u)) (resolve_publisher own start attempts)))"

text \<open>\<open>index-roundtrip.rs\<close>: every mapping that was published is read through another socket.\<close>

datatype roundtrip_error = PublishError udp_error | NoMapping | ReadError udp_error | EndpointMissing

fun check_mappings :: "bytes \<Rightarrow> (socket_addr_v4 \<Rightarrow> udp_error + signed_record list) \<Rightarrow> socket_addr_v4 list \<Rightarrow> roundtrip_error + unit" where
  "check_mappings own index [] = Inr ()"
| "check_mappings own index (m # ms) =
     (case index m of
        Inl e \<Rightarrow> Inl (ReadError e)
      | Inr records \<Rightarrow>
          if \<not> list_ex (\<lambda>r. endpoint_id r = own) records then Inl EndpointMissing else check_mappings own index ms)"

definition index_roundtrip :: "bytes \<Rightarrow> udp_error + socket_addr_v4 list \<Rightarrow> (socket_addr_v4 \<Rightarrow> udp_error + signed_record list) \<Rightarrow>
    roundtrip_error + unit" where
  "index_roundtrip own published index =
     (case published of
        Inl e \<Rightarrow> Inl (PublishError e)
      | Inr ms \<Rightarrow> if ms = [] then Inl NoMapping else check_mappings own index ms)"

lemma example_index_sources:
  "src_list_key (b_sources (example_index server)) = Some DEFAULT_INDEX_LIST_KEY"
  "b_servers (example_index server) = (case server of None \<Rightarrow> {||} | Some s \<Rightarrow> {|s|})"
  by (simp_all add: example_index_def n0_defaults_def builder_new_def with_server_def with_list_key_def
      with_lookup_cache_def Let_def split: option.split)

lemma parse_infohashes_all:
  "parse_infohashes h vs = Inr is \<longleftrightarrow> map (parse_infohash h) vs = map Inr is"
proof (induction vs arbitrary: "is")
  case (Cons v vs)
  show ?case
  proof (cases "is")
    case (Cons i js)
    have "map_sum (\<lambda>e. e) ((#) i') r = Inr (i # js) \<longleftrightarrow> i' = i \<and> r = Inr js" for i' and r :: "(string \<times> hash_parse_error) + bytes list"
      by (cases r) auto
    then show ?thesis using Cons.IH [of js] by (simp add: Cons split: sum.split)
  next
    case Nil
    have "map_sum (\<lambda>e. e) ((#) i) r \<noteq> Inr []" for i and r :: "(string \<times> hash_parse_error) + bytes list"
      by (cases r) auto
    then show ?thesis by (simp add: Nil split: sum.split)
  qed
qed auto

text \<open>
  The loop ends: attempts that are five seconds apart decide after thirteen, and a success means the resolver returned
  the endpoint.
\<close>

lemma resolve_until_late:
  "i < length attempts \<Longrightarrow> snd (attempts ! i) \<ge> deadline \<Longrightarrow> resolve_until expected deadline attempts \<noteq> None"
proof (induction attempts arbitrary: i)
  case (Cons a attempts)
  then show ?case by (cases a; cases i) auto
qed simp

lemma resolve_publisher_ends:
  assumes "length attempts = 13" "\<And>i. i < 13 \<Longrightarrow> snd (attempts ! i) \<ge> start + i * secs 5"
  shows "resolve_publisher expected start attempts \<noteq> None"
  using resolve_until_late [of 12 attempts "start + RESOLVE_BUDGET" expected] assms(1) assms(2) [of 12]
  by (simp add: resolve_publisher_def RESOLVE_BUDGET_def secs_def)

lemma resolve_until_found:
  "resolve_until expected deadline attempts = Some (Inr ()) \<Longrightarrow> \<exists>ids now. (Inr ids, now) \<in> set attempts \<and> expected \<in> set ids"
  by (induction expected deadline attempts rule: resolve_until.induct) (auto split: if_splits sum.splits)

lemma map_sum_unit: "map_sum f (\<lambda>_. ()) r = Inr () \<Longrightarrow> (r = Inr () \<Longrightarrow> thesis) \<Longrightarrow> thesis"
  by (cases r) auto

lemma spoof_workflow_ok:
  assumes "spoof_workflow own observed attacker index start attempts = Some (Inr ())"
  obtains m records where "observed = Some m" "index m = Inr records" "own \<in> endpoint_id ` set records"
    "\<exists>ids now. (Inr ids, now) \<in> set attempts \<and> own \<in> set ids"
proof -
  from assms obtain m records where m: "observed = Some m" "index m = Inr records" "list_ex (\<lambda>r. endpoint_id r = own) records"
    "resolve_publisher own start attempts = Some (Inr ())"
    by (auto simp: spoof_workflow_def split: option.splits if_splits sum.splits elim!: map_sum_unit)
  with that resolve_until_found show ?thesis unfolding resolve_publisher_def list_ex_iff by blast
qed

lemma check_mappings_ok:
  "check_mappings own index ms = Inr () \<longleftrightarrow> (\<forall>m \<in> set ms. \<exists>records. index m = Inr records \<and> own \<in> endpoint_id ` set records)"
  by (induction ms) (auto simp: list_ex_iff split: sum.splits)

lemma index_roundtrip_ok:
  "index_roundtrip own published index = Inr () \<longleftrightarrow>
     (\<exists>ms. published = Inr ms \<and> ms \<noteq> [] \<and> (\<forall>m \<in> set ms. \<exists>records. index m = Inr records \<and> own \<in> endpoint_id ` set records))"
  by (cases published) (simp_all add: index_roundtrip_def check_mappings_ok)

end
