(* ===== verification/Spec2Isabelle.thy ===== *)
theory Spec2Isabelle
  imports End_To_End Publisher Debug_Page Gateway_Types Lifecycle Launch_Agent Pkarr_Rounds Startup Examples
begin

text \<open>
  \<^bold>\<open>Content discovery for iroh over Mainline\<close>

  The repository finds the iroh endpoints that announced a piece of content in the Mainline DHT.
  Mainline only returns UDP sockets. A small UDP service, the address index, maps a socket to the
  endpoint identity that announced from it: an endpoint publishes a signed record under the socket the
  server observes, a reader asks for the records of a socket. On top of it an HTTP gateway serves
  BLAKE3 blobs and collections to browsers. Four crates under \<open>src/\<close>:

  \<^item> \<open>udp-addr-index-proto\<close>: the datagrams. Theories \<open>Wire\<close> (messages, framing), \<open>Postcard_Format\<close> (the
    serializer's format, an instance of the interface the framing relies on), \<open>Wire_Correct\<close>.
  \<^item> \<open>udp-addr-index\<close>: the server. \<open>Server_Limits\<close> (configuration, \<open>f64\<close>), \<open>Store\<close> and \<open>Store_Spec\<close>
    (\<open>store.rs\<close>), \<open>Rate_Limit\<close> (the token buckets of \<open>lib.rs\<close>), \<open>Server\<close>, \<open>Server_Correct\<close>, \<open>Server_Props\<close>
    (\<open>lib.rs\<close>, \<open>udp.rs\<close>, \<open>metrics.rs\<close>: tokens, packet handler, datagram hook, service loop).
  \<^item> \<open>iroh-mainline-endpoint-discovery\<close>: \<open>Udp_Client\<close>, \<open>Udp_Client_Correct\<close> (the client's actor, \<open>udp.rs\<close>),
    \<open>Index_Keeper\<close> (\<open>index_keeper.rs\<close>), \<open>Publisher\<close> (\<open>publisher.rs\<close>), \<open>Signed_Record\<close> (\<open>record.rs\<close>),
    \<open>Lookup_Cache\<close> (\<open>lookup_cache.rs\<close>), \<open>Server_List\<close> (\<open>server_list.rs\<close>), \<open>Discovery\<close> (\<open>addr_index.rs\<close>,
    \<open>republisher.rs\<close> and the infohashes of \<open>lib.rs\<close>), \<open>Resolver\<close> (\<open>resolver.rs\<close>), \<open>Pkarr\<close> and \<open>Pkarr_Rounds\<close>
    (\<open>pkarr.rs\<close>: names and packets; callers and the task, interleaved).
  \<^item> \<open>iroh-link-gateway\<close>: \<open>Ranges\<close> (\<open>ranges.rs\<close>), \<open>Gateway_Text\<close>, \<open>Gateway_Collections\<close>, \<open>Blob_Stream\<close>,
    \<open>Gateway_Serve\<close>, \<open>Gateway_State\<close>, \<open>Gateway_Routes\<close>, \<open>Gateway_Router\<close>, \<open>Gateway_Types\<close> (\<open>lib.rs\<close>: text and links, collections and
    listings, reading blobs, responses, the gateway's caches, the handlers of its routes, the whole way
    from a request to its response, the types of what it sends), \<open>Gateway_Providers\<close> (\<open>provider_cache.rs\<close>, \<open>hints.rs\<close>, \<open>providers.rs\<close>),
    \<open>Pkarr_Redirect\<close> (\<open>pkarr_redirect.rs\<close>), \<open>Debug_Page\<close> (\<open>debug_page.rs\<close>), \<open>Lifecycle\<close> (\<open>background.rs\<close> and the
    launcher), \<open>Launch_Agent\<close> (\<open>background_macos.rs\<close>).
  \<^item> The programs, \<open>Programs\<close> and \<open>Startup\<close>: \<open>iroh-link-gateway/src/main.rs\<close>, \<open>udp-addr-index/src/bin/udp-addr-index.rs\<close> and
    \<open>iroh-mainline-endpoint-discovery/src/bin/iroh-index-list.rs\<close>, their configuration and stored files, and how they start.
    \<open>Provide\<close> and \<open>Examples\<close>: the logic of the programs under \<open>examples\<close>.

  \<open>Prelude\<close>, \<open>Text\<close> and \<open>Lru\<close> are shared: machine integers, bytes, sockets, clocks and finite maps; the
  string operations of the standard library; the interface of the LRU cache.

  \<^bold>\<open>How the model corresponds to the code\<close>

  A struct is a record with the code's fields, an enum a datatype, \<open>u16\<close> to \<open>u64\<close> are words and their
  wrap-around, saturation and checked operations are those of the source; \<open>usize\<close> lengths are natural
  numbers. A handler takes the state and returns its effects and the new state. The clock, random numbers and
  what the network answers are arguments, so theorems hold for all of them. Errors are the left side of
  a sum. Asynchronous code is a function per turn of its loop, or a step relation where the order of
  completions is open (\<open>race_step\<close>, \<open>resolve_step\<close>, \<open>service_step\<close>, \<open>lifecycle_step\<close>,
  \<open>pkarr_step\<close>); what runs between two awaits is one
  step. Coarser than that is the gateway: a request, and within it the lookup of a provider (\<open>connection\<close>), is one
  step on its caches, so what other requests change while its probes run is not seen within it; what they
  change between two requests is (C26). A turn of the keeper is one step whose publication is an
  argument; what announcements see while that publication is pending is \<open>keeper_begin\<close>. The code's loops are structural recursions or functions with a termination proof; no fuel is used.

  What the repository only calls is a parameter, with what is relied on as a locale or a named
  hypothesis: the postcard serializer (locale \<open>postcard\<close>, instantiated by the format itself), the keyed hash
  (\<open>server_env\<close>), rounding of \<open>f64\<close> (\<open>rounding\<close>), LRU caches (\<open>lru_cache\<close>, instantiated by a list),
  percent-encoding (\<open>percent_encoding\<close>), \<open>axum\<close>'s matching of paths (\<open>path_matching\<close>, instantiated by a matching
  of the six routes), Ed25519 (\<open>signs_correctly\<close>: which byte strings are keys, \<open>re_key\<close>, is part of it, and a record
  whose endpoint is not a key does not decode), the DNS packet format (that the one packet a property is about survives
  building and parsing), z-base-32 (\<open>z32_ok\<close>), Bao's verification of blob content (\<open>authentic\<close>), MIME classification and Mainline itself.

  \<^bold>\<open>What is proved\<close>

  \<^item> C1 to C3, wire format: round trip, no truncated datagram decodes, what decodes is bounded.
  \<^item> C4 to C6, store: its invariant; it implements a map with expiry; values read were put and are alive.
  \<^item> C7, C8, rate limiter: burst and long-term rate of a bucket, including rounding.
  \<^item> C9 to C12, server: tokens are accepted long enough and bound to their address; replies never panic,
    go to the sender and do not amplify; a value served for a socket was put from it.
  \<^item> C13, providing: the files of a directory, from its walk to the responses of the gateway.
  \<^item> C14, C39, Pkarr: waiting for publication means that every name set before was accepted, and no edit is
    forgotten, in every interleaving; a name the publisher accepts is one the gateway serves.
  \<^item> C15 to C17, client: every caller is answered once; at most one put per server; resolved values come
    from servers that were asked.
  \<^item> C18, C24, lifecycle: one gateway at a time, files that belong to it and conclusions of the launcher that
    hold, under every interleaving; a start that its own check can make fail (a defect).
  \<^item> C19 to C23, announcing: gating, spacing of retries, what a turn of the keeper leaves after a success, a failure
    or neither, a busy loop the keeper can enter (a defect), what the publisher reports.
  \<^item> C25, C36, responses: byte ranges and whole responses carry exactly the selected bytes, with the
    announced length.
  \<^item> C26, C37, C38, providers: what is remembered of a lookup whatever other requests do to the
    cache in between, what the cache lists, the race of probes.
  \<^item> C27, C29 to C31, discovery: records are bound to their slot, server lists round
    trip, what a refresh leaves in use in every case (signed, withdrawn, announced, failed), the signed list never
    goes back over any rounds of the background refresh.
  \<^item> C32 to C34, collections: a path delivers the content of the file it names, links stay on the origin,
    what a path of a collection serves.
  \<^item> C28, types: every header value the gateway ever sends is a legal one, whatever is requested.
  \<^item> C35, origins: a response without the sandbox is that of the hash or key whose subdomain was asked.
  \<^item> C40, end to end: an endpoint that publishes is found by a reader, with exactly the record it signed.

  \<^bold>\<open>Not modelled\<close>

  Requests other than GET and HEAD: the CORS layer answers OPTIONS, in front of the sandbox. Cyclic symbolic links and names
  that are not text in a directory to provide: \<open>collect_files\<close> works on a finite tree of named files. Two reads of
  the same chunks for one response that differ: \<open>serve_blob\<close> fetches by a function of the chunk range. Installing and
  removing the macOS launch agent while gateways run: \<open>Launch_Agent\<close> has the commands, \<open>lifecycle_step\<close> does not take
  them. Parsing of command lines, binding of sockets and signals, log files, logging and metrics export, CORS
  headers and the HTTP server, the browser extension and packaging: they are input and output around the parts
  above. Of the examples, what starts endpoints, stores and nodes is not modelled.
\<close>

end
